(* ===== verification/Prelude.thy ===== *)
theory Prelude
  imports Main "HOL-Library.Word"
begin

unbundle bit_operations_syntax

text \<open>
  What every component of the emulator model shares.

  \<^item> The machine integers of the C code as words of their width, and the assumptions on the
    host: \<open>size_t\<close> has 64 bits, the byte order is little-endian, and an enum without the
    packed attribute has four bytes.
  \<^item> The result type: a C function that can abort, leave an array, follow a null pointer or
    block for ever returns \<open>cerr + 'a\<close>, and \<open>rbind\<close> runs one such call after
    another.
  \<^item> Arrays as lists: checked access, the in-place loops \<open>upd_range\<close> and
    \<open>all_range\<close>, and block copies (\<open>segment\<close>, \<open>blit\<close>).
  \<^item> Little-endian encoding of words as bytes.
  \<^item> The sign extensions the code writes as pairs of shifts or as \<open>(x ^ m) - m\<close>.
\<close>

section \<open>Machine integers and outcomes\<close>

type_synonym u8 = "8 word"
type_synonym u16 = "16 word"
type_synonym u32 = "32 word"
type_synonym u64 = "64 word"

text \<open>
  How a run of the C code can end other than by returning: an \<open>assert\<close> that does not
  hold (the build never defines \<open>NDEBUG\<close>), an access outside of an array or a heap block,
  a call or an access through a null pointer, and a lock that is never released.
\<close>

datatype cerr = Assert_Failed | Out_Of_Bounds | Null_Deref | Deadlock

type_synonym 'a res = "cerr + 'a"

named_theorems res_simps \<open>evaluation of results\<close>

fun rbind :: "'a res \<Rightarrow> ('a \<Rightarrow> 'b res) \<Rightarrow> 'b res" where
  "rbind (Inl e) f = Inl e"
| "rbind (Inr x) f = f x"

lemma rbind_Inr_iff: "rbind m f = Inr y \<longleftrightarrow> (\<exists>x. m = Inr x \<and> f x = Inr y)"
  by (cases m) auto

lemma rbind_Inl_iff: "rbind m f = Inl e \<longleftrightarrow> m = Inl e \<or> (\<exists>x. m = Inr x \<and> f x = Inl e)"
  by (cases m) auto

lemma rbind_InrE:
  assumes "rbind m f = Inr y"
  obtains x where "m = Inr x" "f x = Inr y"
  using assms by (auto simp: rbind_Inr_iff)

lemma rbind_assoc: "rbind (rbind m f) g = rbind m (\<lambda>x. rbind (f x) g)"
  by (cases m) simp_all

lemma rbind_cong [fundef_cong]:
  "m = m' \<Longrightarrow> (\<And>x. m' = Inr x \<Longrightarrow> f x = f' x) \<Longrightarrow> rbind m f = rbind m' f'"
  by (cases m') simp_all

definition c_assert :: "bool \<Rightarrow> unit res" where
  "c_assert b = (if b then Inr () else Inl Assert_Failed)"

lemma c_assert_simps [simp, res_simps]:
  "c_assert True = Inr ()" "c_assert False = Inl Assert_Failed"
  by (simp_all add: c_assert_def)

lemma c_assert_Inr_iff [simp]: "c_assert b = Inr u \<longleftrightarrow> b"
  by (simp add: c_assert_def)

section \<open>Arrays\<close>

definition arr_get :: "'a list \<Rightarrow> nat \<Rightarrow> 'a res" where
  "arr_get xs i = (if i < length xs then Inr (xs ! i) else Inl Out_Of_Bounds)"

definition arr_set :: "'a list \<Rightarrow> nat \<Rightarrow> 'a \<Rightarrow> 'a list res" where
  "arr_set xs i v = (if i < length xs then Inr (xs[i := v]) else Inl Out_Of_Bounds)"

lemma arr_get_in [simp]: "i < length xs \<Longrightarrow> arr_get xs i = Inr (xs ! i)"
  by (simp add: arr_get_def)

lemma arr_set_in [simp]: "i < length xs \<Longrightarrow> arr_set xs i v = Inr (xs[i := v])"
  by (simp add: arr_set_def)

definition segment :: "nat \<Rightarrow> nat \<Rightarrow> 'a list \<Rightarrow> 'a list" where
  "segment off n xs = take n (drop off xs)"

definition blit :: "nat \<Rightarrow> 'a list \<Rightarrow> 'a list \<Rightarrow> 'a list" where
  "blit off bs xs = take off xs @ bs @ drop (off + length bs) xs"

text \<open>\<open>memcpy\<close> out of and into an array, with the range check that C leaves out.\<close>

definition mem_get :: "nat \<Rightarrow> nat \<Rightarrow> 'a list \<Rightarrow> 'a list res" where
  "mem_get off n xs = (if off + n \<le> length xs then Inr (segment off n xs) else Inl Out_Of_Bounds)"

definition mem_put :: "nat \<Rightarrow> 'a list \<Rightarrow> 'a list \<Rightarrow> 'a list res" where
  "mem_put off bs xs =
     (if off + length bs \<le> length xs then Inr (blit off bs xs) else Inl Out_Of_Bounds)"

lemma length_segment [simp]: "off + n \<le> length xs \<Longrightarrow> length (segment off n xs) = n"
  by (simp add: segment_def)

lemma nth_segment [simp]: "off + n \<le> length xs \<Longrightarrow> i < n \<Longrightarrow> segment off n xs ! i = xs ! (off + i)"
  by (simp add: segment_def)

lemma segment_0_length [simp]: "segment 0 (length xs) xs = xs"
  by (simp add: segment_def)

lemma length_blit [simp]: "off + length bs \<le> length xs \<Longrightarrow> length (blit off bs xs) = length xs"
  by (simp add: blit_def)

lemma nth_blit:
  assumes "off + length bs \<le> length xs" and "i < length xs"
  shows "blit off bs xs ! i =
    (if off \<le> i \<and> i < off + length bs then bs ! (i - off) else xs ! i)"
  using assms by (auto simp: blit_def nth_append min_def)

lemma segment_blit_same:
  assumes "off + length bs \<le> length xs"
  shows "segment off (length bs) (blit off bs xs) = bs"
  using assms by (simp add: segment_def blit_def)

lemma segment_blit_disjoint:
  assumes "off + length bs \<le> length xs" and "o' + n \<le> length xs"
    and "o' + n \<le> off \<or> off + length bs \<le> o'"
  shows "segment o' n (blit off bs xs) = segment o' n xs"
  using assms by (intro nth_equalityI) (auto simp: nth_blit)

lemma segment_segment:
  assumes "o' + m \<le> n" and "off + n \<le> length xs"
  shows "segment o' m (segment off n xs) = segment (off + o') m xs"
  using assms by (intro nth_equalityI) (auto simp: add.assoc)

lemma mem_get_in [simp]: "off + n \<le> length xs \<Longrightarrow> mem_get off n xs = Inr (segment off n xs)"
  by (simp add: mem_get_def)

lemma mem_put_in [simp]: "off + length bs \<le> length xs \<Longrightarrow> mem_put off bs xs = Inr (blit off bs xs)"
  by (simp add: mem_put_def)

text \<open>
  The two loops the code runs over arrays. \<open>upd_range i n f xs\<close> is
  \<^verbatim>\<open>for(k = i; k < i+n; k++) xs[k] = f(xs[k]);\<close> and \<open>all_range i n ok xs\<close> is
  \<^verbatim>\<open>for(k = i; k < i+n; k++) if(!ok(xs[k])) return false; return true;\<close>
  Either leaves the array when it reaches an index that is not there.
\<close>

fun upd_range :: "nat \<Rightarrow> nat \<Rightarrow> ('a \<Rightarrow> 'a) \<Rightarrow> 'a list \<Rightarrow> 'a list res" where
  "upd_range i 0 f xs = Inr xs"
| "upd_range i (Suc n) f xs =
     (if i < length xs then upd_range (Suc i) n f (xs[i := f (xs ! i)]) else Inl Out_Of_Bounds)"

fun all_range :: "nat \<Rightarrow> nat \<Rightarrow> ('a \<Rightarrow> bool) \<Rightarrow> 'a list \<Rightarrow> bool res" where
  "all_range i 0 ok xs = Inr True"
| "all_range i (Suc n) ok xs =
     (if i < length xs then (if ok (xs ! i) then all_range (Suc i) n ok xs else Inr False)
      else Inl Out_Of_Bounds)"

definition map_range :: "nat \<Rightarrow> nat \<Rightarrow> ('a \<Rightarrow> 'a) \<Rightarrow> 'a list \<Rightarrow> 'a list" where
  "map_range i n f xs = take i xs @ map f (segment i n xs) @ drop (i + n) xs"

lemma length_map_range [simp]: "i + n \<le> length xs \<Longrightarrow> length (map_range i n f xs) = length xs"
  by (simp add: map_range_def)

lemma nth_map_range:
  assumes "i + n \<le> length xs" and "k < length xs"
  shows "map_range i n f xs ! k = (if i \<le> k \<and> k < i + n then f (xs ! k) else xs ! k)"
  using assms by (auto simp: map_range_def nth_append min_def)

lemma map_range_0 [simp]: "map_range i 0 f xs = xs"
  by (simp add: map_range_def segment_def)

lemma upd_range_map_range:
  "i + n \<le> length xs \<Longrightarrow> upd_range i n f xs = Inr (map_range i n f xs)"
proof (induction n arbitrary: i xs)
  case 0
  then show ?case by simp
next
  case (Suc n)
  have "map_range (Suc i) n f (xs[i := f (xs ! i)]) = map_range i (Suc n) f xs"
    using Suc.prems by (intro nth_equalityI) (auto simp: nth_map_range nth_list_update)
  with Suc show ?case by simp
qed

lemma upd_range_out:
  "length xs < i + n \<Longrightarrow> 0 < n \<Longrightarrow> upd_range i n f xs = Inl Out_Of_Bounds"
proof (induction n arbitrary: i xs)
  case 0
  then show ?case by simp
next
  case (Suc n)
  then show ?case
  proof (cases n)
    case 0
    with Suc.prems show ?thesis by simp
  next
    case (Suc m)
    with Suc.IH [of "xs[i := f (xs ! i)]" "Suc i"] Suc.prems show ?thesis
      by (subst \<open>n = Suc m\<close>, subst upd_range.simps(2)) (simp del: upd_range.simps(2))
  qed
qed

lemma upd_range_Inr_iff:
  "upd_range i n f xs = Inr ys \<longleftrightarrow>
     (n = 0 \<and> ys = xs) \<or> (i + n \<le> length xs \<and> ys = map_range i n f xs)"
proof (cases "i + n \<le> length xs")
  case True
  then show ?thesis by (auto simp: upd_range_map_range)
next
  case False
  then show ?thesis by (cases n) (auto simp: upd_range_out)
qed

lemma all_range_forall:
  "i + n \<le> length xs \<Longrightarrow> all_range i n ok xs = Inr (\<forall>k. i \<le> k \<and> k < i + n \<longrightarrow> ok (xs ! k))"
proof (induction n arbitrary: i)
  case 0
  then show ?case by auto
next
  case (Suc n)
  have "(\<forall>k. i \<le> k \<and> k < i + Suc n \<longrightarrow> ok (xs ! k)) \<longleftrightarrow>
        ok (xs ! i) \<and> (\<forall>k. Suc i \<le> k \<and> k < Suc i + n \<longrightarrow> ok (xs ! k))"
    by (metis add_Suc_right add_Suc le_eq_less_or_eq less_add_Suc1 Suc_le_eq)
  with Suc show ?case by auto
qed

section \<open>Little-endian bytes\<close>

fun bytes_of_word :: "nat \<Rightarrow> u32 \<Rightarrow> u8 list" where
  "bytes_of_word 0 w = []"
| "bytes_of_word (Suc n) w = ucast w # bytes_of_word n (drop_bit 8 w)"

fun word_of_bytes :: "u8 list \<Rightarrow> u32" where
  "word_of_bytes [] = 0"
| "word_of_bytes (b # bs) = ucast b OR push_bit 8 (word_of_bytes bs)"

lemma length_bytes_of_word [simp]: "length (bytes_of_word n w) = n"
  by (induction n arbitrary: w) simp_all

lemma word_of_bytes_of_word:
  "word_of_bytes (bytes_of_word n w) = take_bit (8 * n) w"
proof (induction n arbitrary: w)
  case 0
  then show ?case by simp
next
  case (Suc n)
  have "(ucast (ucast w :: u8) OR push_bit 8 (take_bit (8 * n) (drop_bit 8 w)) :: u32)
      = take_bit (8 * Suc n) w"
    by (rule bit_word_eqI) (auto simp: bit_simps)
  with Suc show ?case by simp
qed

lemma word_of_bytes_of_word4 [simp]: "word_of_bytes (bytes_of_word 4 w) = w"
  by (simp add: word_of_bytes_of_word take_bit_length_eq [where 'a = 32, simplified])

section \<open>Sign extension\<close>

text \<open>
  The C code extends a bit-field of \<open>n\<close> bits by shifting it to the top of an
  \<open>int\<close> and back (arithmetically), or by \<open>(x ^ m) - m\<close> with \<open>m\<close> its sign
  bit. Both are the sign-preserving cast.
\<close>

lemma sext12_shift:
  "signed_drop_bit 20 (push_bit 20 (ucast (x :: 12 word) :: u32)) = scast x"
proof (rule bit_word_eqI)
  fix n assume "n < LENGTH(32)"
  then show "bit (signed_drop_bit 20 (push_bit 20 (ucast x :: u32))) n = bit (scast x :: u32) n"
    by (cases "n = 11") (auto simp: bit_simps min_def not_less not_le dest: bit_imp_le_length)
qed

lemma sext13_shift:
  "signed_drop_bit 19 (push_bit 20 (ucast (x :: 12 word) :: u32)) = 2 * scast x"
proof (rule bit_word_eqI)
  fix n assume "n < LENGTH(32)"
  then show "bit (signed_drop_bit 19 (push_bit 20 (ucast x :: u32))) n = bit (2 * scast x :: u32) n"
    by (cases "n = 12") (auto simp: bit_simps min_def not_less not_le dest: bit_imp_le_length)
qed

lemma sext_xor:
  fixes x :: "20 word"
  assumes k: "k = 19"
  shows "(ucast x XOR (2 ^ k :: u32)) - 2 ^ k = scast x"
proof -
  have le: "n \<le> k" if "bit x n" for n
    using bit_imp_le_length [OF that] k by simp
  have sc: "bit (scast x :: u32) n = (if n < k then bit x n else bit x k)" if "n < 32" for n
    using that k
    by (cases "n = 19") (auto simp: bit_simps min_def not_less not_le dest: bit_imp_le_length)
  show ?thesis
  proof (cases "bit x k")
    case False
    let ?u = "ucast x :: u32"
    have "?u AND 2 ^ k = 0"
      using False by (intro bit_word_eqI) (auto simp: bit_simps)
    then have "?u XOR 2 ^ k = ?u + 2 ^ k"
      by (simp add: disjunctive_add_eq_xor)
    moreover have "n < k" if "bit x n" for n
      using le [OF that] that False by (cases "n = k") auto
    then have "?u = scast x"
      using False by (intro bit_word_eqI) (auto simp: bit_unsigned_iff sc)
    ultimately show ?thesis by simp
  next
    case True
    let ?y = "ucast x XOR 2 ^ k :: u32"
    have "?y AND NOT (mask k) = 0"
      using True by (intro bit_word_eqI) (auto simp: bit_simps dest: le)
    then have "?y + NOT (mask k) = ?y OR NOT (mask k)"
      by (rule disjunctive_add_eq_or)
    moreover have "?y OR NOT (mask k) = scast x"
      using True by (intro bit_word_eqI) (auto simp: bit_unsigned_iff bit_or_iff bit_xor_iff bit_not_iff
          bit_mask_iff bit_exp_iff sc not_less dest: le)
    moreover have "?y - 2 ^ k = ?y + NOT (mask k)"
      by (simp add: minus_exp_eq_not_mask [symmetric])
    ultimately show ?thesis by simp
  qed
qed

lemma sext20_xor: "(ucast (x :: 20 word) XOR (0x80000 :: u32)) - 0x80000 = scast x"
  using sext_xor [OF refl, of x] by simp

end
