(* ===== verification/Store_Interface.thy ===== *)
theory Store_Interface
  imports Prelude
begin

text \<open>
  The interface between a component that holds guest bytes and one that uses them: the
  bus and the core see the memory only through reads and writes of byte ranges that can
  be refused. The locale \<open>byte_store\<close> states what such a component promises, over the
  byte stored at an address (\<open>byte\<close>) and whether it can be read (\<open>readable\<close>); its
  lemmas are what a client may conclude. The memory management unit provides it, and so
  do the RAM device on top of it and the bus on top of that.
\<close>

definition span :: "u32 \<Rightarrow> nat \<Rightarrow> nat list" where
  "span a n = [unat a ..< unat a + n]"

lemma span_simps [simp]:
  "set (span a n) = {unat a ..< unat a + n}" "length (span a n) = n"
  by (simp_all add: span_def)

lemma nth_span [simp]: "k < n \<Longrightarrow> span a n ! k = unat a + k"
  by (simp add: span_def)

locale byte_store =
  fixes rd :: "'s \<Rightarrow> u32 \<Rightarrow> nat \<Rightarrow> u8 list option"
    and wr :: "'s \<Rightarrow> u32 \<Rightarrow> u8 list \<Rightarrow> 's option"
    and invar :: "'s \<Rightarrow> bool"
    and byte :: "'s \<Rightarrow> nat \<Rightarrow> u8"
    and readable :: "'s \<Rightarrow> nat \<Rightarrow> bool"
  assumes invar_wr: "\<lbrakk> invar s; wr s a bs = Some s' \<rbrakk> \<Longrightarrow> invar s'"
    and rd_Some: "\<lbrakk> invar s; rd s a n = Some bs \<rbrakk> \<Longrightarrow> bs = map (byte s) (span a n)"
    and rd_readable: "\<lbrakk> invar s; rd s a n = Some bs; x \<in> set (span a n) \<rbrakk> \<Longrightarrow> readable s x"
    and readable_rd:
      "\<lbrakk> invar s; 0 < n; n < 2 ^ 32; \<And>x. x \<in> set (span a n) \<Longrightarrow> readable s x \<rbrakk>
       \<Longrightarrow> rd s a n \<noteq> None"
    and byte_wr: "\<lbrakk> invar s; wr s a bs = Some s' \<rbrakk> \<Longrightarrow>
      byte s' x = (if x \<in> set (span a (length bs)) then bs ! (x - unat a) else byte s x)"
    and readable_wr: "\<lbrakk> invar s; wr s a bs = Some s'; readable s x \<rbrakk> \<Longrightarrow> readable s' x"
begin

lemma map_byte_wr:
  assumes "invar s" and "wr s a bs = Some s'"
  shows "map (byte s') (span a (length bs)) = bs"
  by (rule nth_equalityI) (simp_all add: byte_wr [OF assms])

text \<open>What was written is what is read.\<close>

lemma rd_wr_same:
  assumes "invar s" and "wr s a bs = Some s'" and "rd s' a (length bs) = Some bs'"
  shows "bs' = bs"
  using rd_Some [OF invar_wr [OF assms(1,2)] assms(3)] map_byte_wr [OF assms(1,2)] by simp

text \<open>A write leaves every range it does not touch readable, with the bytes it had.\<close>

lemma rd_wr_disjoint:
  assumes s: "invar s" and w: "wr s a bs = Some s'" and r: "rd s b n = Some cs"
    and n: "n < 2 ^ 32" and dis: "set (span a (length bs)) \<inter> set (span b n) = {}"
  shows "n = 0 \<or> rd s' b n = Some cs"
proof (cases "n = 0")
  case False
  have "\<And>x. x \<in> set (span b n) \<Longrightarrow> readable s' x"
    using readable_wr [OF s w] rd_readable [OF s r] by blast
  then obtain ds where ds: "rd s' b n = Some ds"
    using readable_rd [OF invar_wr [OF s w], of n b] False n by blast
  have "ds = map (byte s') (span b n)"
    by (rule rd_Some [OF invar_wr [OF s w] ds])
  also have "\<dots> = map (byte s) (span b n)"
    using dis by (intro map_cong) (auto simp: byte_wr [OF s w])
  also have "\<dots> = cs" by (simp add: rd_Some [OF s r])
  finally show ?thesis using ds by simp
qed simp

text \<open>A word stored in \<open>k\<close> bytes is loaded back, cut to \<open>k\<close> bytes.\<close>

lemma load_store_word:
  assumes "invar s" and "wr s a (bytes_of_word k w) = Some s'" and "rd s' a k = Some bs"
  shows "word_of_bytes bs = take_bit (8 * k) w"
  using rd_wr_same [OF assms(1,2), of bs] assms(3) by (simp add: word_of_bytes_of_word)

text \<open>
  A sequence of writes, as the loader and the set-up of the stack do them: all succeed or
  the sequence fails, the invariant is kept, and a byte holds what the last write to it
  put there.
\<close>

lemma wr_wr_byte:
  assumes "invar s" and "wr s a bs = Some s1" and "wr s1 b cs = Some s2"
  shows "byte s2 x =
    (if x \<in> set (span b (length cs)) then cs ! (x - unat b)
     else if x \<in> set (span a (length bs)) then bs ! (x - unat a) else byte s x)"
  using byte_wr [OF invar_wr [OF assms(1,2)] assms(3)] byte_wr [OF assms(1,2)] by simp

end

end
