(* ===== verification/Mmu.thy ===== *)
theory Mmu
  imports Store_Interface
begin

text \<open>
  The guest memory of \<^verbatim>\<open>src/mmu.c\<close> and \<^verbatim>\<open>src/mmu.h\<close>: one block of bytes
  from a base address, a permission for every byte (with a read-after-write state for
  memory that nobody has written yet), dirty flags per page, and a bump pointer from which
  blocks are allocated.

  The heap is a parameter: \<open>alloc_env\<close> says which \<open>malloc\<close> or \<open>realloc\<close> of
  a call succeeds and what bytes a fresh block holds. A pointer to a buffer is the list of
  the bytes behind it.
\<close>

section \<open>Data\<close>

type_synonym vaddr_t = u32
type_synonym mperm_t = u32

definition MPERM_EXEC :: mperm_t where [simp]: "MPERM_EXEC = 1"
definition MPERM_WRITE :: mperm_t where [simp]: "MPERM_WRITE = 2"
definition MPERM_READ :: mperm_t where [simp]: "MPERM_READ = 4"
definition MPERM_RAW :: mperm_t where [simp]: "MPERM_RAW = 8"

datatype mmu_state_t = MMU_OK | READ_PAGE_FAULT | WRITE_PAGE_FAULT | ACCESS_DENIED

record mmu_t =
  mmu_size :: u64
  mmu_base :: vaddr_t
  mmu_curr_vaddr :: u64
  mmu_data :: "u8 list"
  mmu_perm :: "mperm_t list"
  mmu_dirty :: "bool list"
  mmu_state :: mmu_state_t

definition DIRTY_PAGE_SIZE :: nat where [simp]: "DIRTY_PAGE_SIZE = 64"

text \<open>\<open>sizeof(mperm_t)\<close>: the enum is not packed, so it has the size of an \<open>int\<close>.\<close>

definition sizeof_mperm :: nat where [simp]: "sizeof_mperm = 4"

record alloc_env =
  alloc_ok :: "nat \<Rightarrow> bool"
  junk :: "nat \<Rightarrow> u32"
  junk_state :: mmu_state_t

definition malloc_bytes :: "alloc_env \<Rightarrow> nat \<Rightarrow> u8 list" where
  "malloc_bytes h n = map (\<lambda>i. ucast (junk h i)) [0..<n]"

definition malloc_bools :: "alloc_env \<Rightarrow> nat \<Rightarrow> bool list" where
  "malloc_bools h n = map (\<lambda>i. junk h i \<noteq> 0) [0..<n]"

definition malloc_perms :: "alloc_env \<Rightarrow> nat \<Rightarrow> mperm_t list" where
  "malloc_perms h n = map (junk h) [0..<n]"

text \<open>\<open>realloc\<close> keeps what fits of the old contents; the rest of the block is not set.\<close>

definition realloc_to :: "nat \<Rightarrow> 'a list \<Rightarrow> 'a list \<Rightarrow> 'a list" where
  "realloc_to n xs fresh = take n xs @ drop (length xs) (take n fresh)"

section \<open>Operations\<close>

definition mmu_setperm :: "mmu_t \<Rightarrow> vaddr_t \<Rightarrow> u64 \<Rightarrow> mperm_t \<Rightarrow> mmu_t res" where
  "mmu_setperm m vaddr sz perm =
     rbind (c_assert (mmu_base m \<le> vaddr)) (\<lambda>_.
     rbind (c_assert (ucast vaddr + sz \<le> ucast (mmu_base m) + mmu_size m)) (\<lambda>_.
     let i = ucast (vaddr - mmu_base m) :: u64;
         e = ucast (vaddr - mmu_base m) + sz
     in rbind (upd_range (unat i) (unat e - unat i) (\<lambda>_. perm) (mmu_perm m)) (\<lambda>p.
        Inr (m\<lparr>mmu_perm := p\<rparr>))))"

definition mmu_init :: "alloc_env \<Rightarrow> vaddr_t \<Rightarrow> u64 \<Rightarrow> mmu_t option res" where
  "mmu_init h base sz =
     (if \<not> alloc_ok h 0 then Inr None
      else if \<not> alloc_ok h 1 then Inr None
      else
        let data = replicate (unat sz) 0;
            dirty_size = sz div of_nat DIRTY_PAGE_SIZE + 1
        in
        if \<not> alloc_ok h 2 then Inr None
        else
          let dirty = replicate (unat dirty_size) False in
          if \<not> alloc_ok h 3 then Inr None
          else
            let perm = malloc_perms h (unat (of_nat sizeof_mperm * sz) div sizeof_mperm);
                m = \<lparr>mmu_size = sz, mmu_base = base, mmu_curr_vaddr = ucast base,
                     mmu_data = data, mmu_perm = perm, mmu_dirty = dirty,
                     mmu_state = junk_state h\<rparr>
            in rbind (mmu_setperm m base sz (MPERM_WRITE OR MPERM_RAW)) (\<lambda>m'. Inr (Some m')))"

text \<open>
  \<open>mmu_add_memory\<close> gives \<open>realloc\<close> the new size in bytes for all three arrays, so
  the permission array gets \<open>new_size / sizeof(mperm_t)\<close> elements.
\<close>

definition mmu_add_memory ::
    "alloc_env \<Rightarrow> mmu_t \<Rightarrow> vaddr_t \<Rightarrow> u64 \<Rightarrow> mperm_t \<Rightarrow> (bool \<times> mmu_t) res" where
  "mmu_add_memory h m addr sz perm =
     (if addr < mmu_base m then Inl Assert_Failed
      else if ucast addr + sz > ucast (mmu_base m) + mmu_size m then
        let new_size = (ucast addr + sz) - ucast (mmu_base m);
            n = unat new_size
        in
        if \<not> alloc_ok h 0 then Inr (False, m)
        else
          let m1 = m\<lparr>mmu_data := realloc_to n (mmu_data m) (malloc_bytes h n)\<rparr> in
          if \<not> alloc_ok h 1 then Inr (False, m1)
          else
            let np = n div sizeof_mperm;
                m2 = m1\<lparr>mmu_perm := realloc_to np (mmu_perm m) (malloc_perms h np)\<rparr> in
            if \<not> alloc_ok h 2 then Inr (False, m2)
            else
              let m3 = m2\<lparr>mmu_dirty := realloc_to n (mmu_dirty m) (malloc_bools h n),
                          mmu_size := new_size\<rparr>
              in rbind (mmu_setperm m3 addr sz perm) (\<lambda>m4. Inr (True, m4))
      else
        let m1 = m\<lparr>mmu_curr_vaddr := ucast addr + sz\<rparr>
        in rbind (mmu_setperm m1 addr sz perm) (\<lambda>m4. Inr (True, m4)))"

definition mmu_allocate :: "mmu_t \<Rightarrow> u64 \<Rightarrow> mperm_t \<Rightarrow> (vaddr_t \<times> mmu_t) res" where
  "mmu_allocate m sz perm =
     (let aligned_size = (sz + 0x0f) AND 0xfffffff0;
          curr_vaddr = ucast (mmu_curr_vaddr m) :: u32
      in
      if ucast curr_vaddr + aligned_size \<ge> ucast (mmu_base m) + mmu_size m then Inr (0, m)
      else
        let m1 = m\<lparr>mmu_curr_vaddr := ucast curr_vaddr + aligned_size\<rparr> in
        rbind (c_assert (mmu_curr_vaddr m1 > aligned_size)) (\<lambda>_.
        rbind (mmu_setperm m1 curr_vaddr sz perm) (\<lambda>m2.
        Inr (curr_vaddr, m2))))"

definition mmu_allocate_raw :: "mmu_t \<Rightarrow> u64 \<Rightarrow> (vaddr_t \<times> mmu_t) res" where
  "mmu_allocate_raw m sz = mmu_allocate m sz (MPERM_WRITE OR MPERM_RAW)"

text \<open>The test one byte's permission \<open>p\<close> has to pass for a request \<open>perm\<close>.\<close>

definition perm_allows :: "mperm_t \<Rightarrow> mperm_t \<Rightarrow> bool" where
  "perm_allows perm p =
     (if p AND MPERM_READ = perm \<or> p AND MPERM_WRITE = perm \<or> p AND MPERM_EXEC = perm then True
      else if p AND MPERM_RAW = MPERM_RAW \<and> perm = MPERM_WRITE then True
      else False)"

definition mmu_check_access :: "mmu_t \<Rightarrow> vaddr_t \<Rightarrow> u64 \<Rightarrow> mperm_t \<Rightarrow> bool res" where
  "mmu_check_access m vaddr size_in_bytes perm =
     (let i = ucast (vaddr - mmu_base m) :: u64;
          e = ucast (vaddr - mmu_base m) + size_in_bytes
      in all_range (unat i) (unat e - unat i) (perm_allows perm) (mmu_perm m))"

text \<open>What a write does to the permission of a byte.\<close>

definition perm_written :: "mperm_t \<Rightarrow> mperm_t" where
  "perm_written p =
     (if p AND MPERM_RAW = MPERM_RAW then MPERM_READ OR MPERM_WRITE OR (p AND MPERM_EXEC) else p)"

definition mmu_write_from ::
    "mmu_t \<Rightarrow> u8 list \<Rightarrow> vaddr_t \<Rightarrow> u64 \<Rightarrow> (u64 \<times> mmu_t) res" where
  "mmu_write_from m src vaddr size_in_bytes =
     (if vaddr < mmu_base m \<or> ucast vaddr + size_in_bytes > ucast (mmu_base m) + mmu_size m then
        Inr (0, m\<lparr>mmu_state := READ_PAGE_FAULT\<rparr>)
      else
        rbind (c_assert (mmu_base m \<le> vaddr)) (\<lambda>_.
        rbind (c_assert (ucast vaddr \<le> ucast (mmu_base m) + mmu_size m)) (\<lambda>_.
        rbind (mmu_check_access m vaddr size_in_bytes MPERM_WRITE) (\<lambda>ok.
        if \<not> ok then Inr (0, m\<lparr>mmu_state := ACCESS_DENIED\<rparr>)
        else
          let off = ucast (vaddr - mmu_base m) :: u64;
              dbi = off div of_nat DIRTY_PAGE_SIZE;
              dbe = (off + size_in_bytes) div of_nat DIRTY_PAGE_SIZE
          in
          rbind (mem_get 0 (unat size_in_bytes) src) (\<lambda>bs.
          rbind (mem_put (unat off) bs (mmu_data m)) (\<lambda>d.
          rbind (upd_range (unat off) (unat (off + size_in_bytes) - unat off) perm_written
                   (mmu_perm m)) (\<lambda>p.
          rbind (upd_range (unat dbi) (unat dbe - unat dbi) (\<lambda>_. True) (mmu_dirty m)) (\<lambda>dy.
          Inr (size_in_bytes,
               m\<lparr>mmu_state := MMU_OK, mmu_data := d, mmu_perm := p, mmu_dirty := dy\<rparr>)))))))))"

text \<open>
  The bytes \<open>mmu_read_into\<close> copies to \<open>dst\<close>, or \<open>None\<close> where it leaves
  \<open>dst\<close> as it is.
\<close>

definition mmu_read_into ::
    "mmu_t \<Rightarrow> vaddr_t \<Rightarrow> u64 \<Rightarrow> (u64 \<times> u8 list option \<times> mmu_t) res" where
  "mmu_read_into m vaddr size_in_bytes =
     (if vaddr < mmu_base m \<or> ucast vaddr + size_in_bytes > ucast (mmu_base m) + mmu_size m then
        Inr (0, None, m\<lparr>mmu_state := WRITE_PAGE_FAULT\<rparr>)
      else
        rbind (mmu_check_access m vaddr size_in_bytes MPERM_READ) (\<lambda>ok.
        if ok then
          rbind (mem_get (unat (vaddr - mmu_base m)) (unat size_in_bytes) (mmu_data m)) (\<lambda>bs.
          Inr (size_in_bytes, Some bs, m\<lparr>mmu_state := MMU_OK\<rparr>))
        else Inr (0, None, m\<lparr>mmu_state := ACCESS_DENIED\<rparr>)))"

section \<open>Well-formed memories\<close>

text \<open>
  What \<open>mmu_init\<close> establishes and what every operation but the extending branch of
  \<open>mmu_add_memory\<close> keeps: the arrays have the lengths their sizes say, the block lies in
  the 32-bit address space, and the bump pointer lies in the block.
\<close>

definition mmu_wf :: "mmu_t \<Rightarrow> bool" where
  "mmu_wf m \<longleftrightarrow>
     length (mmu_data m) = unat (mmu_size m) \<and>
     length (mmu_perm m) = unat (mmu_size m) \<and>
     length (mmu_dirty m) = unat (mmu_size m) div 64 + 1 \<and>
     unat (mmu_base m) + unat (mmu_size m) < 2 ^ 32 \<and>
     unat (mmu_base m) \<le> unat (mmu_curr_vaddr m) \<and>
     unat (mmu_curr_vaddr m) \<le> unat (mmu_base m) + unat (mmu_size m)"

definition in_block :: "mmu_t \<Rightarrow> vaddr_t \<Rightarrow> nat \<Rightarrow> bool" where
  "in_block m a n \<longleftrightarrow>
     unat (mmu_base m) \<le> unat a \<and> unat a + n \<le> unat (mmu_base m) + unat (mmu_size m)"

definition offset :: "mmu_t \<Rightarrow> vaddr_t \<Rightarrow> nat" where
  "offset m a = unat a - unat (mmu_base m)"

text \<open>Every byte of a range has a permission that allows the request.\<close>

definition allowed :: "mmu_t \<Rightarrow> vaddr_t \<Rightarrow> nat \<Rightarrow> mperm_t \<Rightarrow> bool" where
  "allowed m a n perm \<longleftrightarrow> (\<forall>k<n. perm_allows perm (mmu_perm m ! (offset m a + k)))"

lemma unat_lt_32 [simp]: "unat (a :: u32) < 4294967296"
  using unsigned_less [of a, where 'a = nat] by simp

lemma unat_ucast_vaddr [simp]: "unat (ucast (a :: u32) :: u64) = unat a"
proof -
  have "unat a < 2 ^ 64" by (rule less_trans [OF unat_lt_32]) simp
  then show ?thesis by (simp add: unsigned_ucast_eq take_bit_nat_eq_self_iff)
qed

lemma unat_of_nat_64: "n < 2 ^ 64 \<Longrightarrow> unat (of_nat n :: u64) = n"
  by (simp add: unsigned_of_nat take_bit_nat_eq_self)

lemma unat_of_nat_32: "n < 2 ^ 32 \<Longrightarrow> unat (of_nat n :: u32) = n"
  by (simp add: unsigned_of_nat take_bit_nat_eq_self)

lemma unat_sub_vaddr: "b \<le> a \<Longrightarrow> unat (a - b :: u32) = unat a - unat b"
  by (simp add: unat_sub)

lemma unat_add_64:
  "unat x + unat y < 2 ^ 64 \<Longrightarrow> unat (x + y :: u64) = unat x + unat y"
  by (simp add: unat_add_lem [THEN iffD1])

lemma unat_end:
  assumes "mmu_wf m"
  shows "unat (ucast (mmu_base m) + mmu_size m) = unat (mmu_base m) + unat (mmu_size m)"
  using assms by (subst unat_add_64) (auto simp: mmu_wf_def)

lemma unat_vaddr_plus:
  assumes "unat n < 2 ^ 63"
  shows "unat (ucast (a :: u32) + n :: u64) = unat a + unat n"
proof -
  have "unat a + unat n < 2 ^ 64" using assms unat_lt_32 [of a] by (simp del: unat_lt_32)
  then show ?thesis by (subst unat_add_64) simp_all
qed

lemma in_block_iff:
  assumes "mmu_wf m" and "unat n < 2 ^ 63"
  shows "a < mmu_base m \<or> ucast a + n > ucast (mmu_base m) + mmu_size m
         \<longleftrightarrow> \<not> in_block m a (unat n)"
  using unat_end [OF assms(1)] unat_vaddr_plus [OF assms(2), of a]
  by (auto simp: in_block_def word_less_nat_alt)

lemma in_block_base: "in_block m a n \<Longrightarrow> mmu_base m \<le> a"
  by (simp add: in_block_def word_le_nat_alt)

lemma in_block_offset:
  assumes "mmu_wf m" and "in_block m a n"
  shows "offset m a + n \<le> length (mmu_data m)" "offset m a + n \<le> length (mmu_perm m)"
    "unat (a - mmu_base m) = offset m a"
  using assms in_block_base [OF assms(2)]
  by (auto simp: mmu_wf_def in_block_def offset_def unat_sub_vaddr)

lemma unat_range_end:
  assumes "in_block m a (unat n)" and "unat n < 2 ^ 63"
  shows "unat (ucast (a - mmu_base m) + n :: u64) = offset m a + unat n"
  using unat_vaddr_plus [OF assms(2), of "a - mmu_base m"] in_block_base [OF assms(1)]
  by (simp add: offset_def unat_sub_vaddr)

section \<open>What the operations compute\<close>

lemma mmu_check_access_allowed:
  assumes "mmu_wf m" and "unat n < 2 ^ 63" and "in_block m a (unat n)"
  shows "mmu_check_access m a n perm = Inr (allowed m a (unat n) perm)"
proof -
  note off = in_block_offset [OF assms(1,3)]
  have "(\<forall>k. offset m a \<le> k \<and> k < offset m a + unat n \<longrightarrow> perm_allows perm (mmu_perm m ! k))
        \<longleftrightarrow> allowed m a (unat n) perm"
    unfolding allowed_def by (metis le_add1 le_Suc_ex nat_add_left_cancel_less)
  then show ?thesis
    using off(2) by (simp add: mmu_check_access_def Let_def unat_range_end [OF assms(3,2)] off(3)
        all_range_forall)
qed

lemma mmu_setperm_in:
  assumes "mmu_wf m" and "unat n < 2 ^ 63" and "in_block m a (unat n)"
  shows "mmu_setperm m a n perm =
    Inr (m\<lparr>mmu_perm := map_range (offset m a) (unat n) (\<lambda>_. perm) (mmu_perm m)\<rparr>)"
proof -
  note off = in_block_offset [OF assms(1,3)]
  have "\<not> (a < mmu_base m \<or> ucast a + n > ucast (mmu_base m) + mmu_size m)"
    using in_block_iff [OF assms(1,2)] assms(3) by blast
  then show ?thesis
    using off(2) by (simp add: mmu_setperm_def not_less Let_def
        unat_range_end [OF assms(3,2)] off(3) upd_range_map_range)
qed

lemma mmu_setperm_outside:
  assumes "mmu_wf m" and "unat n < 2 ^ 63" and "\<not> in_block m a (unat n)"
  shows "mmu_setperm m a n perm = Inl Assert_Failed"
proof -
  have "a < mmu_base m \<or> ucast a + n > ucast (mmu_base m) + mmu_size m"
    using in_block_iff [OF assms(1,2)] assms(3) by blast
  then show ?thesis
    by (auto simp: mmu_setperm_def not_le [symmetric] c_assert_def)
qed

text \<open>The pages a write marks, by number: those whose end it reaches.\<close>

definition mark_dirty :: "nat \<Rightarrow> nat \<Rightarrow> bool list \<Rightarrow> bool list" where
  "mark_dirty off n dirty = map_range (off div 64) ((off + n) div 64 - off div 64) (\<lambda>_. True) dirty"

definition mmu_written :: "mmu_t \<Rightarrow> u8 list \<Rightarrow> vaddr_t \<Rightarrow> mmu_t" where
  "mmu_written m bs a =
     m\<lparr>mmu_state := MMU_OK, mmu_data := blit (offset m a) bs (mmu_data m),
       mmu_perm := map_range (offset m a) (length bs) perm_written (mmu_perm m),
       mmu_dirty := mark_dirty (offset m a) (length bs) (mmu_dirty m)\<rparr>"

lemma mmu_write_from_eq:
  assumes "mmu_wf m" and "unat n < 2 ^ 63"
  shows "mmu_write_from m src a n =
    (if \<not> in_block m a (unat n) then Inr (0, m\<lparr>mmu_state := READ_PAGE_FAULT\<rparr>)
     else if \<not> allowed m a (unat n) MPERM_WRITE then Inr (0, m\<lparr>mmu_state := ACCESS_DENIED\<rparr>)
     else if length src < unat n then Inl Out_Of_Bounds
     else Inr (n, mmu_written m (take (unat n) src) a))"
proof (cases "in_block m a (unat n)")
  case False
  with in_block_iff [OF assms] have "a < mmu_base m \<or> ucast a + n > ucast (mmu_base m) + mmu_size m"
    by blast
  with False show ?thesis by (simp add: mmu_write_from_def)
next
  case True
  note off = in_block_offset [OF assms(1) True]
  have guard: "\<not> (a < mmu_base m \<or> ucast a + n > ucast (mmu_base m) + mmu_size m)"
    using in_block_iff [OF assms] True by blast
  have le: "ucast a \<le> ucast (mmu_base m) + mmu_size m"
    using unat_end [OF assms(1)] True by (simp add: word_le_nat_alt in_block_def)
  have dirty: "offset m a div 64 + ((offset m a + unat n) div 64 - offset m a div 64)
      \<le> length (mmu_dirty m)"
    using off(1) assms(1) div_le_mono [of "offset m a + unat n" "unat (mmu_size m)" 64]
    by (auto simp: mmu_wf_def)
  show ?thesis
    unfolding mmu_write_from_def if_not_P [OF guard]
    using True off le dirty in_block_base [OF True]
    by (simp add: Let_def mmu_check_access_allowed [OF assms True]
        unat_range_end [OF True assms(2)] unat_div mem_get_def segment_def
        upd_range_map_range mmu_written_def mark_dirty_def not_less)
qed

lemma mmu_read_into_eq:
  assumes "mmu_wf m" and "unat n < 2 ^ 63"
  shows "mmu_read_into m a n =
    (if \<not> in_block m a (unat n) then Inr (0, None, m\<lparr>mmu_state := WRITE_PAGE_FAULT\<rparr>)
     else if \<not> allowed m a (unat n) MPERM_READ then
       Inr (0, None, m\<lparr>mmu_state := ACCESS_DENIED\<rparr>)
     else Inr (n, Some (segment (offset m a) (unat n) (mmu_data m)), m\<lparr>mmu_state := MMU_OK\<rparr>))"
proof (cases "in_block m a (unat n)")
  case False
  with in_block_iff [OF assms] have "a < mmu_base m \<or> ucast a + n > ucast (mmu_base m) + mmu_size m"
    by blast
  with False show ?thesis by (simp add: mmu_read_into_def)
next
  case True
  have guard: "\<not> (a < mmu_base m \<or> ucast a + n > ucast (mmu_base m) + mmu_size m)"
    using in_block_iff [OF assms] True by blast
  show ?thesis
    using True in_block_offset [OF assms(1) True] guard
    by (simp add: mmu_read_into_def mmu_check_access_allowed [OF assms True])
qed

section \<open>Permissions\<close>

lemma and_exp_eq_iff: "(p :: u32) AND 2 ^ k = 2 ^ k \<longleftrightarrow> bit p k \<or> 2 ^ k = (0 :: u32)"
proof -
  have "p AND 2 ^ k = (if bit p k then 2 ^ k else 0)"
    by (rule bit_word_eqI) (auto simp: bit_simps)
  then show ?thesis by auto
qed

lemma perm_bits:
  "(p :: u32) AND 1 = 1 \<longleftrightarrow> bit p 0" "p AND 2 = 2 \<longleftrightarrow> bit p 1"
  "p AND 4 = 4 \<longleftrightarrow> bit p 2" "p AND 8 = 8 \<longleftrightarrow> bit p 3"
  using and_exp_eq_iff [of p 0] and_exp_eq_iff [of p 1] and_exp_eq_iff [of p 2]
    and_exp_eq_iff [of p 3] by simp_all

lemma and_small_neq:
  fixes p :: u32
  shows "p AND 2 \<noteq> 4" "p AND 1 \<noteq> 4" "p AND 4 \<noteq> 2" "p AND 1 \<noteq> 2"
    "p AND 4 \<noteq> 1" "p AND 2 \<noteq> 1"
proof -
  have and_exp: "p AND 2 ^ k = 0 \<or> p AND 2 ^ k = 2 ^ k" for k
  proof -
    have "p AND 2 ^ k = (if bit p k then 2 ^ k else 0)"
      by (rule bit_word_eqI) (auto simp: bit_simps)
    then show ?thesis by simp
  qed
  show "p AND 2 \<noteq> 4" "p AND 1 \<noteq> 4" "p AND 4 \<noteq> 2" "p AND 1 \<noteq> 2"
    "p AND 4 \<noteq> 1" "p AND 2 \<noteq> 1"
    using and_exp [of 0] and_exp [of 1] and_exp [of 2] by auto
qed

lemma perm_allows_read: "perm_allows 4 p \<longleftrightarrow> bit p 2"
  by (simp add: perm_allows_def perm_bits and_small_neq)

lemma perm_allows_write: "perm_allows 2 p \<longleftrightarrow> bit p 1 \<or> bit p 3"
  by (simp add: perm_allows_def perm_bits and_small_neq)

lemma perm_allows_exec: "perm_allows 1 p \<longleftrightarrow> bit p 0"
  by (simp add: perm_allows_def perm_bits and_small_neq)

lemma bit_numeral_perms:
  "bit (2 :: u32) n \<longleftrightarrow> n = 1" "bit (4 :: u32) n \<longleftrightarrow> n = 2" "bit (8 :: u32) n \<longleftrightarrow> n = 3"
  using bit_exp_iff [of 1 n, where 'a = u32] bit_exp_iff [of 2 n, where 'a = u32]
    bit_exp_iff [of 3 n, where 'a = u32] by auto

lemma perm_written_read: "bit (perm_written p) 2 \<longleftrightarrow> bit p 2 \<or> bit p 3"
  by (simp add: perm_written_def perm_bits bit_simps bit_numeral_perms)

lemma perm_written_write: "bit p 1 \<or> bit p 3 \<Longrightarrow> bit (perm_written p) 1"
  by (auto simp: perm_written_def perm_bits bit_simps bit_numeral_perms)

lemma perm_written_exec: "bit (perm_written p) 0 \<longleftrightarrow> bit p 0"
  by (simp add: perm_written_def perm_bits bit_simps bit_numeral_perms)

lemma perm_written_idem: "perm_written (perm_written p) = perm_written p"
proof -
  have "\<not> bit (perm_written p) 3"
    by (simp add: perm_written_def perm_bits bit_simps bit_numeral_perms)
  then show ?thesis by (simp add: perm_written_def [of "perm_written p"] perm_bits)
qed

section \<open>Invariant\<close>

lemma length_mark_dirty [simp]:
  assumes "(off + n) div 64 \<le> length dirty"
  shows "length (mark_dirty off n dirty) = length dirty"
proof -
  have "off div 64 \<le> (off + n) div 64" by (simp add: div_le_mono)
  with assms show ?thesis by (simp add: mark_dirty_def)
qed

lemma mmu_written_simps [simp]:
  "mmu_size (mmu_written m bs a) = mmu_size m" "mmu_base (mmu_written m bs a) = mmu_base m"
  "mmu_curr_vaddr (mmu_written m bs a) = mmu_curr_vaddr m"
  "mmu_state (mmu_written m bs a) = MMU_OK"
  by (simp_all add: mmu_written_def)

lemma in_block_mono: "in_block m a n \<Longrightarrow> k \<le> n \<Longrightarrow> in_block m a k"
  by (simp add: in_block_def)

lemma in_block_update [simp]:
  "in_block (m\<lparr>mmu_state := s\<rparr>) a n = in_block m a n"
  "in_block (mmu_written m bs b) a n = in_block m a n"
  by (simp_all add: in_block_def)

lemma mmu_wf_state [simp]: "mmu_wf (m\<lparr>mmu_state := s\<rparr>) = mmu_wf m"
  by (simp add: mmu_wf_def)

lemma mmu_written_wf:
  assumes wf: "mmu_wf m" and blk: "in_block m a (length bs)"
  shows "mmu_wf (mmu_written m bs a)"
proof -
  have "offset m a + length bs \<le> unat (mmu_size m)"
    using in_block_offset(1) [OF wf blk] wf by (simp add: mmu_wf_def)
  then have "(offset m a + length bs) div 64 \<le> unat (mmu_size m) div 64"
    by (simp add: div_le_mono)
  then show ?thesis
    using in_block_offset [OF wf blk] wf by (simp add: mmu_wf_def mmu_written_def)
qed

section \<open>Allocation\<close>

lemma and_align:
  fixes x :: u64
  assumes "unat x < 2 ^ 32"
  shows "unat (x AND 0xfffffff0) = 16 * (unat x div 16)"
proof -
  have m: "(0xfffffff0 :: u64) = push_bit 4 (mask 28)"
    by (simp add: mask_eq_exp_minus_1)
  have x: "take_bit 32 x = x"
    using assms by (simp add: word_unat_eq_iff unsigned_take_bit_eq take_bit_nat_eq_self)
  have "bit x n \<Longrightarrow> n < 32" for n
    using arg_cong [OF x, of "\<lambda>w. bit w n"] by (simp add: bit_take_bit_iff)
  then have "x AND 0xfffffff0 = push_bit 4 (drop_bit 4 x)"
    unfolding m by (intro bit_word_eqI) (force simp: bit_simps)
  moreover have "unat (push_bit 4 (drop_bit 4 x)) = 16 * (unat x div 16)"
  proof -
    have "unat (push_bit 4 (drop_bit 4 x)) = take_bit 64 (push_bit 4 (drop_bit 4 (unat x)))"
      by (simp only: unsigned_push_bit_eq unat_drop_bit_eq) simp
    also have "\<dots> = push_bit 4 (drop_bit 4 (unat x))"
      using assms by (intro take_bit_nat_eq_self) (simp add: push_bit_eq_mult drop_bit_eq_div)
    finally show ?thesis by (simp add: push_bit_eq_mult drop_bit_eq_div)
  qed
  ultimately show ?thesis by simp
qed

text \<open>The rounding of \<open>mmu_allocate\<close>: up to a multiple of 16.\<close>

definition round16 :: "nat \<Rightarrow> nat" where
  "round16 n = 16 * ((n + 15) div 16)"

lemma round16_bounds: "n \<le> round16 n" "round16 n < n + 16" "round16 n mod 16 = 0"
  by (auto simp: round16_def)

lemma unat_aligned_size:
  assumes "unat (sz :: u64) + 15 < 2 ^ 32"
  shows "unat ((sz + 0x0f) AND 0xfffffff0) = round16 (unat sz)"
proof -
  have "unat (sz + 0x0f) = unat sz + 15"
    using assms by (subst unat_add_64) auto
  with assms show ?thesis by (subst and_align) (simp_all add: round16_def)
qed

text \<open>The memory after a block of \<open>n\<close> bytes has been taken at the bump pointer.\<close>

definition mmu_allocated :: "mmu_t \<Rightarrow> nat \<Rightarrow> mperm_t \<Rightarrow> mmu_t" where
  "mmu_allocated m n perm =
     m\<lparr>mmu_curr_vaddr := mmu_curr_vaddr m + of_nat (round16 n),
       mmu_perm := map_range (offset m (ucast (mmu_curr_vaddr m))) n (\<lambda>_. perm) (mmu_perm m)\<rparr>"

lemma mmu_allocate_eq:
  assumes wf: "mmu_wf m" and base: "mmu_base m \<noteq> 0" and sz: "unat sz + 15 < 2 ^ 32"
  shows "mmu_allocate m sz perm =
    (if unat (mmu_curr_vaddr m) + round16 (unat sz) \<ge> unat (mmu_base m) + unat (mmu_size m)
     then Inr (0, m)
     else Inr (ucast (mmu_curr_vaddr m), mmu_allocated m (unat sz) perm))"
proof -
  let ?c = "ucast (mmu_curr_vaddr m) :: u32"
  let ?al = "(sz + 0x0f) AND 0xfffffff0 :: u64"
  have al: "unat ?al = round16 (unat sz)" by (rule unat_aligned_size [OF sz])
  have c: "unat ?c = unat (mmu_curr_vaddr m)"
    using wf by (auto simp: mmu_wf_def unsigned_ucast_eq take_bit_nat_eq_self)
  have "round16 (unat sz) < 2 ^ 33"
    using round16_bounds(2) [of "unat sz"] sz by simp
  then have sum: "unat (ucast ?c + ?al) = unat (mmu_curr_vaddr m) + round16 (unat sz)"
    using unat_vaddr_plus [of ?al ?c] al c by simp
  have pos: "0 < unat (mmu_curr_vaddr m)"
    using wf base unat_gt_0 [of "mmu_base m"] by (simp add: mmu_wf_def)
  show ?thesis
  proof (cases "unat (mmu_curr_vaddr m) + round16 (unat sz) \<ge> unat (mmu_base m) + unat (mmu_size m)")
    case True
    then show ?thesis
      using sum unat_end [OF wf] by (simp add: mmu_allocate_def Let_def word_le_nat_alt)
  next
    case False
    let ?m1 = "m\<lparr>mmu_curr_vaddr := ucast ?c + ?al\<rparr>"
    have wf1: "mmu_wf ?m1"
      using wf False sum by (auto simp: mmu_wf_def)
    have blk: "in_block ?m1 ?c (unat sz)"
      using wf False c round16_bounds(1) [of "unat sz"] by (auto simp: mmu_wf_def in_block_def)
    have n: "unat sz < 2 ^ 63" using sz by simp
    have gt: "?al < ucast ?c + ?al"
      using sum al pos by (simp add: word_less_nat_alt)
    have off: "offset ?m1 ?c = offset m ?c" by (simp add: offset_def)
    have "of_nat (round16 (unat sz)) = ?al" by (simp only: al [symmetric]) simp
    moreover have "ucast ?c = mmu_curr_vaddr m" using c by (simp add: word_unat_eq_iff)
    ultimately have cv: "mmu_curr_vaddr m + of_nat (round16 (unat sz)) = ucast ?c + ?al" by simp
    have ge: "\<not> ucast (mmu_base m) + mmu_size m \<le> ucast ?c + ?al"
      using False sum unat_end [OF wf] by (simp add: word_le_nat_alt)
    have "mmu_allocate m sz perm = Inr (?c, mmu_allocated m (unat sz) perm)"
      unfolding mmu_allocate_def Let_def if_not_P [OF ge]
      using gt mmu_setperm_in [OF wf1 n blk, of perm]
      by (simp add: mmu_allocated_def off cv)
    with False show ?thesis by simp
  qed
qed

lemma mmu_allocated_wf:
  assumes wf: "mmu_wf m"
    and "unat (mmu_curr_vaddr m) + round16 n < unat (mmu_base m) + unat (mmu_size m)"
  shows "mmu_wf (mmu_allocated m n perm)"
proof -
  have c: "unat (ucast (mmu_curr_vaddr m) :: u32) = unat (mmu_curr_vaddr m)"
    using wf by (auto simp: mmu_wf_def unsigned_ucast_eq take_bit_nat_eq_self)
  have r: "unat (of_nat (round16 n) :: u64) = round16 n"
    using assms by (intro unat_of_nat_64) (auto simp: mmu_wf_def)
  have "unat (mmu_curr_vaddr m + of_nat (round16 n)) = unat (mmu_curr_vaddr m) + round16 n"
    using assms r by (subst unat_add_64) (auto simp: mmu_wf_def)
  with assms c round16_bounds(1) [of n] show ?thesis
    by (auto simp: mmu_wf_def mmu_allocated_def offset_def)
qed

end
