(* ===== verification/Mmu_Spec.thy ===== *)
theory Mmu_Spec
  imports Mmu
begin

text \<open>
  What the memory management unit promises: an abstract memory that maps an address to a
  byte and its permission, the refinement of its reads and writes by the code of
  \<^verbatim>\<open>src/mmu.c\<close>, the interface \<open>byte_store\<close> on that code, the invariant over every
  sequence of calls, and the behaviour of the allocator and of the loader's
  \<open>mmu_add_memory\<close>.
\<close>

section \<open>The abstract memory\<close>

type_synonym amem = "nat \<rightharpoonup> u8 \<times> mperm_t"

definition mmu_abs :: "mmu_t \<Rightarrow> amem" where
  "mmu_abs m = (\<lambda>x.
     if unat (mmu_base m) \<le> x \<and> x < unat (mmu_base m) + unat (mmu_size m)
     then Some (mmu_data m ! (x - unat (mmu_base m)), mmu_perm m ! (x - unat (mmu_base m)))
     else None)"

definition am_allows :: "amem \<Rightarrow> mperm_t \<Rightarrow> nat \<Rightarrow> bool" where
  "am_allows M perm x = (case M x of None \<Rightarrow> False | Some (b, p) \<Rightarrow> perm_allows perm p)"

definition am_read :: "amem \<Rightarrow> nat \<Rightarrow> nat \<Rightarrow> u8 list option" where
  "am_read M a n =
     (if list_all (am_allows M MPERM_READ) [a..<a + n]
      then Some (map (\<lambda>x. fst (the (M x))) [a..<a + n]) else None)"

definition am_write :: "amem \<Rightarrow> nat \<Rightarrow> u8 list \<Rightarrow> amem option" where
  "am_write M a bs =
     (if list_all (am_allows M MPERM_WRITE) [a..<a + length bs]
      then Some (\<lambda>x. if a \<le> x \<and> x < a + length bs
                     then map_option (\<lambda>(b, p). (bs ! (x - a), perm_written p)) (M x) else M x)
      else None)"

lemma am_allows_range:
  assumes wf: "mmu_wf m" and n: "0 < n"
  shows "list_all (am_allows (mmu_abs m) perm) [unat a..<unat a + n] \<longleftrightarrow>
         in_block m a n \<and> allowed m a n perm"
proof
  assume L: "list_all (am_allows (mmu_abs m) perm) [unat a..<unat a + n]"
  then have all: "am_allows (mmu_abs m) perm x" if "unat a \<le> x" "x < unat a + n" for x
    using that by (simp add: list_all_iff)
  have "am_allows (mmu_abs m) perm (unat a)" "am_allows (mmu_abs m) perm (unat a + (n - 1))"
    using all n by simp_all
  with n have blk: "in_block m a n"
    by (auto simp: am_allows_def mmu_abs_def in_block_def split: if_splits)
  moreover have "allowed m a n perm"
    unfolding allowed_def
  proof (intro allI impI)
    fix k assume "k < n"
    then show "perm_allows perm (mmu_perm m ! (offset m a + k))"
      using all [of "unat a + k"] blk
      by (auto simp: am_allows_def mmu_abs_def in_block_def offset_def split: if_splits)
  qed
  ultimately show "in_block m a n \<and> allowed m a n perm" by blast
next
  assume R: "in_block m a n \<and> allowed m a n perm"
  have "am_allows (mmu_abs m) perm x" if "unat a \<le> x" "x < unat a + n" for x
  proof -
    obtain k where k: "k < n" "x = unat a + k"
      using \<open>unat a \<le> x\<close> \<open>x < unat a + n\<close> by (metis le_Suc_ex nat_add_left_cancel_less)
    have "x - unat (mmu_base m) = offset m a + k"
      using R k by (simp add: in_block_def offset_def)
    moreover have "unat (mmu_base m) \<le> x \<and> x < unat (mmu_base m) + unat (mmu_size m)"
      using R k by (simp add: in_block_def)
    ultimately show ?thesis
      using R k by (simp add: am_allows_def mmu_abs_def allowed_def)
  qed
  then show "list_all (am_allows (mmu_abs m) perm) [unat a..<unat a + n]"
    by (simp add: list_all_iff)
qed

lemma mmu_abs_state [simp]: "mmu_abs (m\<lparr>mmu_state := s\<rparr>) = mmu_abs m"
  by (rule ext) (simp add: mmu_abs_def)

lemma in_block_abs:
  assumes "in_block m a n" and "unat a \<le> x" and "x < unat a + n"
  shows "\<exists>b p. mmu_abs m x = Some (b, p)"
  using assms by (simp add: in_block_def mmu_abs_def)

lemma mmu_abs_written:
  assumes wf: "mmu_wf m" and blk: "in_block m a (length bs)"
  shows "mmu_abs (mmu_written m bs a) x =
    (if unat a \<le> x \<and> x < unat a + length bs
     then map_option (\<lambda>(b, p). (bs ! (x - unat a), perm_written p)) (mmu_abs m x)
     else mmu_abs m x)"
proof (cases "unat (mmu_base m) \<le> x \<and> x < unat (mmu_base m) + unat (mmu_size m)")
  case True
  obtain k where k: "x = unat (mmu_base m) + k" "k < unat (mmu_size m)"
    using True by (metis le_Suc_ex nat_add_left_cancel_less)
  have "offset m a \<le> k \<and> k < offset m a + length bs
      \<longleftrightarrow> unat a \<le> x \<and> x < unat a + length bs"
    and "k - offset m a = x - unat a"
    using k blk by (auto simp: offset_def in_block_def)
  then show ?thesis
    using True k in_block_offset [OF wf blk] wf
    by (simp add: mmu_abs_def mmu_written_def nth_blit nth_map_range mmu_wf_def)
next
  case False
  then show ?thesis by (auto simp: mmu_abs_def)
qed

text \<open>
  C14. Refinement of the abstract memory by \<open>mmu_write_from\<close>: where the abstract write is
  defined, the code performs it, returns the number of bytes and sets \<open>MMU_OK\<close>; where it
  is not (an address outside of the block, a byte that may not be written), the code
  returns 0, sets a fault and leaves memory and permissions alone.
\<close>

theorem mmu_write_from_refines:
  assumes wf: "mmu_wf m" and n: "0 < unat n" "unat n < 2 ^ 63" and src: "unat n \<le> length src"
  shows "case am_write (mmu_abs m) (unat a) (take (unat n) src) of
      Some M \<Rightarrow> \<exists>m'. mmu_write_from m src a n = Inr (n, m') \<and> mmu_state m' = MMU_OK \<and> mmu_abs m' = M
    | None \<Rightarrow> \<exists>m'. mmu_write_from m src a n = Inr (0, m') \<and> mmu_state m' \<noteq> MMU_OK
                \<and> mmu_abs m' = mmu_abs m"
proof -
  let ?bs = "take (unat n) src"
  have len: "length ?bs = unat n" using src by simp
  show ?thesis
  proof (cases "in_block m a (unat n) \<and> allowed m a (unat n) MPERM_WRITE")
    case True
    then have "am_write (mmu_abs m) (unat a) ?bs = Some (mmu_abs (mmu_written m ?bs a))"
      using mmu_abs_written [OF wf, of a ?bs] am_allows_range [OF wf n(1)] len
      by (auto simp: am_write_def)
    then show ?thesis
      using True src by (simp add: mmu_write_from_eq [OF wf n(2)])
  next
    case False
    then have "am_write (mmu_abs m) (unat a) ?bs = None"
      using am_allows_range [OF wf n(1)] len by (auto simp: am_write_def)
    then show ?thesis
      using False by (auto simp: mmu_write_from_eq [OF wf n(2)])
  qed
qed

text \<open>A memory of 64 bytes at 0x100 with the same permission at every byte.\<close>

definition tiny_mmu :: "mperm_t \<Rightarrow> mmu_t" where
  "tiny_mmu p = \<lparr>mmu_size = 64, mmu_base = 0x100, mmu_curr_vaddr = 0x100,
     mmu_data = replicate 64 0, mmu_perm = replicate 64 p, mmu_dirty = replicate 2 False,
     mmu_state = MMU_OK\<rparr>"

lemma tiny_mmu_simps [simp]:
  "mmu_wf (tiny_mmu p)" "mmu_base (tiny_mmu p) = 0x100" "mmu_size (tiny_mmu p) = 64"
  "mmu_curr_vaddr (tiny_mmu p) = 0x100" "offset (tiny_mmu p) a = unat a - 256"
  "mmu_data (tiny_mmu p) = replicate 64 0" "mmu_state (tiny_mmu p) = MMU_OK"
  "in_block (tiny_mmu p) a n \<longleftrightarrow> 256 \<le> unat a \<and> unat a + n \<le> 320"
  by (simp_all add: tiny_mmu_def mmu_wf_def offset_def in_block_def)

lemma tiny_mmu_perm [simp]: "k < 64 \<Longrightarrow> mmu_perm (tiny_mmu p) ! k = p"
  by (simp add: tiny_mmu_def)

lemma tiny_mmu_allowed [simp]:
  "256 \<le> unat a \<Longrightarrow> unat a + n \<le> 320 \<Longrightarrow> allowed (tiny_mmu p) a n q = (n = 0 \<or> perm_allows q p)"
  by (auto simp: allowed_def)

lemma tiny_mmu_allows [simp]:
  "am_allows (mmu_abs (tiny_mmu p)) q x \<longleftrightarrow> 256 \<le> x \<and> x < 320 \<and> perm_allows q p"
  by (auto simp: am_allows_def mmu_abs_def)

lemma tiny_mmu_abs [simp]: "256 \<le> x \<Longrightarrow> x < 320 \<Longrightarrow> mmu_abs (tiny_mmu p) x = Some (0, p)"
  by (simp add: mmu_abs_def)

theorem mmu_write_from_refines_witness:
  "(\<exists>m'. mmu_write_from (tiny_mmu 10) [1, 2, 3, 4] 0x104 3 = Inr (3, m') \<and> mmu_state m' = MMU_OK \<and>
      am_write (mmu_abs (tiny_mmu 10)) 0x104 [1, 2, 3] = Some (mmu_abs m'))
   \<and> (\<exists>m'. mmu_write_from (tiny_mmu 4) [1, 2, 3, 4] 0x104 3 = Inr (0, m') \<and> mmu_state m' \<noteq> MMU_OK)"
  using mmu_write_from_refines [of "tiny_mmu 10" 3 "[1, 2, 3, 4]" "0x104"]
    mmu_write_from_refines [of "tiny_mmu 4" 3 "[1, 2, 3, 4]" "0x104"]
  by (auto simp: am_write_def perm_allows_def upt_rec)

text \<open>
  C15. Refinement of the abstract memory by \<open>mmu_read_into\<close>: it copies exactly the bytes the
  abstract read returns, or copies nothing, returns 0 and sets a fault; it never changes the
  memory.
\<close>

theorem mmu_read_into_refines:
  assumes wf: "mmu_wf m" and n: "0 < unat n" "unat n < 2 ^ 63"
  shows "\<exists>m'. mmu_abs m' = mmu_abs m \<and>
    (case am_read (mmu_abs m) (unat a) (unat n) of
       Some bs \<Rightarrow> mmu_read_into m a n = Inr (n, Some bs, m') \<and> mmu_state m' = MMU_OK
     | None \<Rightarrow> mmu_read_into m a n = Inr (0, None, m') \<and> mmu_state m' \<noteq> MMU_OK)"
proof (cases "in_block m a (unat n) \<and> allowed m a (unat n) MPERM_READ")
  case True
  then have blk: "in_block m a (unat n)" by blast
  have "map (\<lambda>x. fst (the (mmu_abs m x))) [unat a..<unat a + unat n]
      = segment (offset m a) (unat n) (mmu_data m)"
    using blk in_block_offset(1) [OF wf blk]
    by (intro nth_equalityI) (auto simp: mmu_abs_def offset_def in_block_def)
  then have "am_read (mmu_abs m) (unat a) (unat n) = Some (segment (offset m a) (unat n) (mmu_data m))"
    using True am_allows_range [OF wf n(1)] by (simp add: am_read_def)
  then show ?thesis
    using True by (intro exI [of _ "m\<lparr>mmu_state := MMU_OK\<rparr>"]) (simp add: mmu_read_into_eq [OF wf n(2)])
next
  case False
  then have "am_read (mmu_abs m) (unat a) (unat n) = None"
    using am_allows_range [OF wf n(1)] by (auto simp: am_read_def)
  then show ?thesis
    using False
    by (intro exI [of _ "m\<lparr>mmu_state := (if in_block m a (unat n) then ACCESS_DENIED
          else WRITE_PAGE_FAULT)\<rparr>"]) (auto simp: mmu_read_into_eq [OF wf n(2)])
qed

theorem mmu_read_into_refines_witness:
  "(\<exists>m'. mmu_read_into (tiny_mmu 6) 0x104 3 = Inr (3, Some [0, 0, 0], m'))
   \<and> (\<exists>m'. mmu_read_into (tiny_mmu 6) 0x13e 3 = Inr (0, None, m') \<and> mmu_state m' \<noteq> MMU_OK)"
  using mmu_read_into_refines [of "tiny_mmu 6" 3 "0x104"] mmu_read_into_refines [of "tiny_mmu 6" 3 "0x13e"]
  by (auto simp: am_read_def perm_allows_def upt_rec)

section \<open>The memory as a byte store\<close>

definition mmu_rd :: "mmu_t \<Rightarrow> vaddr_t \<Rightarrow> nat \<Rightarrow> u8 list option" where
  "mmu_rd m a n = (if 0 < n \<and> n < 2 ^ 32 then
     (case mmu_read_into m a (of_nat n) of Inr (r, bs, m') \<Rightarrow> bs | Inl e \<Rightarrow> None) else None)"

definition mmu_wr :: "mmu_t \<Rightarrow> vaddr_t \<Rightarrow> u8 list \<Rightarrow> mmu_t option" where
  "mmu_wr m a bs = (if length bs < 2 ^ 32 then
     (case mmu_write_from m bs a (of_nat (length bs)) of
        Inr (r, m') \<Rightarrow> if mmu_state m' = MMU_OK then Some m' else None | Inl e \<Rightarrow> None) else None)"

definition mmu_byte :: "mmu_t \<Rightarrow> nat \<Rightarrow> u8" where
  "mmu_byte m x = (case mmu_abs m x of Some (b, p) \<Rightarrow> b | None \<Rightarrow> 0)"

definition mmu_readable :: "mmu_t \<Rightarrow> nat \<Rightarrow> bool" where
  "mmu_readable m = am_allows (mmu_abs m) MPERM_READ"

lemma mmu_rd_eq:
  assumes wf: "mmu_wf m" and n: "0 < n" "n < 2 ^ 32"
  shows "mmu_rd m a n = (if in_block m a n \<and> allowed m a n MPERM_READ
    then Some (segment (offset m a) n (mmu_data m)) else None)"
proof -
  have "unat (of_nat n :: u64) = n" using n by (intro unat_of_nat_64) simp
  then show ?thesis
    using n mmu_read_into_eq [OF wf, of "of_nat n" a] by (simp add: mmu_rd_def)
qed

lemma mmu_wr_eq:
  assumes wf: "mmu_wf m" and n: "length bs < 2 ^ 32"
  shows "mmu_wr m a bs = (if in_block m a (length bs) \<and> allowed m a (length bs) MPERM_WRITE
    then Some (mmu_written m bs a) else None)"
proof -
  have "unat (of_nat (length bs) :: u64) = length bs" using n by (intro unat_of_nat_64) simp
  then show ?thesis
    using n mmu_write_from_eq [OF wf, of "of_nat (length bs)" bs a] by (simp add: mmu_wr_def)
qed

lemma mmu_wr_SomeD:
  assumes "mmu_wf m" and "mmu_wr m a bs = Some m'"
  shows "length bs < 2 ^ 32" "in_block m a (length bs)" "allowed m a (length bs) MPERM_WRITE"
    "m' = mmu_written m bs a"
proof -
  show n: "length bs < 2 ^ 32" using assms(2) by (simp add: mmu_wr_def split: if_splits)
  show "in_block m a (length bs)" "allowed m a (length bs) MPERM_WRITE" "m' = mmu_written m bs a"
    using assms(2) by (auto simp: mmu_wr_eq [OF assms(1) n] split: if_splits)
qed

lemma mmu_rd_SomeD:
  assumes "mmu_wf m" and "mmu_rd m a n = Some bs"
  shows "0 < n" "n < 2 ^ 32" "in_block m a n" "allowed m a n MPERM_READ"
    "bs = segment (offset m a) n (mmu_data m)"
proof -
  show n: "0 < n" "n < 2 ^ 32" using assms(2) by (auto simp: mmu_rd_def split: if_splits)
  show "in_block m a n" "allowed m a n MPERM_READ" "bs = segment (offset m a) n (mmu_data m)"
    using assms(2) by (auto simp: mmu_rd_eq [OF assms(1) n] split: if_splits)
qed

lemma segment_bytes:
  assumes wf: "mmu_wf m" and blk: "in_block m a n"
  shows "segment (offset m a) n (mmu_data m) = map (mmu_byte m) (span a n)"
  using blk in_block_offset(1) [OF wf blk]
  by (intro nth_equalityI) (auto simp: mmu_byte_def mmu_abs_def offset_def in_block_def)

interpretation mmu_store: byte_store mmu_rd mmu_wr mmu_wf mmu_byte mmu_readable
proof
  fix s s' :: mmu_t and a :: u32 and bs x
  assume s: "mmu_wf s" and w: "mmu_wr s a bs = Some s'"
  note wD = mmu_wr_SomeD [OF s w]
  show "mmu_wf s'"
    using wD mmu_written_wf [OF s] by simp
  show "mmu_byte s' x = (if x \<in> set (span a (length bs)) then bs ! (x - unat a) else mmu_byte s x)"
    using in_block_abs [OF wD(2), of x]
    by (auto simp: wD(4) mmu_byte_def mmu_abs_written [OF s wD(2)])
  show "mmu_readable s x \<Longrightarrow> mmu_readable s' x"
    by (auto simp: wD(4) mmu_readable_def am_allows_def mmu_abs_written [OF s wD(2)]
        perm_allows_read perm_written_read split: option.splits)
next
  fix s :: mmu_t and a :: u32 and n bs x
  assume s: "mmu_wf s" and r: "mmu_rd s a n = Some bs"
  note rD = mmu_rd_SomeD [OF s r]
  show "bs = map (mmu_byte s) (span a n)"
    using rD segment_bytes [OF s rD(3)] by simp
  show "x \<in> set (span a n) \<Longrightarrow> mmu_readable s x"
    using am_allows_range [OF s rD(1), where a = a and perm = MPERM_READ] rD
    by (simp add: mmu_readable_def list_all_iff)
next
  fix s :: mmu_t and a :: u32 and n :: nat
  assume "mmu_wf s" "0 < n" "n < 2 ^ 32" "\<And>x. x \<in> set (span a n) \<Longrightarrow> mmu_readable s x"
  then show "mmu_rd s a n \<noteq> None"
    using am_allows_range [where m = s and n = n and a = a and perm = MPERM_READ]
    by (simp add: mmu_rd_eq mmu_readable_def list_all_iff)
qed

text \<open>
  C19. Round trip: the bytes a successful \<open>mmu_write_from\<close> was given are the bytes
  \<open>mmu_read_into\<close> returns for the same range afterwards, provided that every byte of
  it was readable before or in the read-after-write state.
\<close>

theorem mmu_write_read_roundtrip:
  assumes wf: "mmu_wf m" and n: "unat n < 2 ^ 63"
    and w: "mmu_write_from m src a n = Inr (n, m')" "mmu_state m' = MMU_OK"
    and rw: "\<forall>k<unat n. perm_allows MPERM_READ (mmu_perm m ! (offset m a + k)) \<or>
      mmu_perm m ! (offset m a + k) AND MPERM_RAW = MPERM_RAW"
  shows "\<exists>m''. mmu_read_into m' a n = Inr (n, Some (take (unat n) src), m'')"
proof -
  have blk: "in_block m a (unat n)" and src: "unat n \<le> length src"
    and m': "m' = mmu_written m (take (unat n) src) a"
    using w by (auto simp: mmu_write_from_eq [OF wf n] split: if_splits)
  have len: "length (take (unat n) src) = unat n" using src by simp
  have blk': "in_block m a (length (take (unat n) src))" using blk len by simp
  have wf': "mmu_wf m'" using mmu_written_wf [OF wf blk'] m' by simp
  note off = in_block_offset [OF wf blk]
  have o: "offset m' a = offset m a" by (simp add: m' offset_def)
  have "allowed m' a (unat n) MPERM_READ"
    unfolding allowed_def o
  proof (intro allI impI)
    fix k assume k: "k < unat n"
    have "mmu_perm m' ! (offset m a + k) = perm_written (mmu_perm m ! (offset m a + k))"
      using off(2) len k by (simp add: m' mmu_written_def nth_map_range)
    then show "perm_allows MPERM_READ (mmu_perm m' ! (offset m a + k))"
      using rw k by (auto simp: perm_allows_read perm_written_read perm_bits)
  qed
  moreover have "in_block m' a (unat n)" using blk by (simp add: m')
  moreover have "segment (offset m' a) (unat n) (mmu_data m') = take (unat n) src"
    using segment_blit_same [of "offset m a" "take (unat n) src" "mmu_data m"] off(1) len
    unfolding o by (simp add: m' mmu_written_def)
  ultimately show ?thesis
    by (simp add: mmu_read_into_eq [OF wf' n])
qed

lemma tiny_mmu_write:
  "mmu_write_from (tiny_mmu 10) [7, 9] 0x108 2 = Inr (2, mmu_written (tiny_mmu 10) [7, 9] 0x108)"
  by (simp add: mmu_write_from_eq perm_allows_def)

theorem mmu_write_read_roundtrip_witness:
  "\<exists>m''. mmu_read_into (mmu_written (tiny_mmu 10) [7, 9] 0x108) 0x108 2 = Inr (2, Some [7, 9], m'')"
  using mmu_write_read_roundtrip [OF _ _ tiny_mmu_write]
  by simp

text \<open>
  Reading before writing is refused: one byte of the range that is in the
  read-after-write state and not readable makes \<open>mmu_read_into\<close> return 0 with
  \<open>ACCESS_DENIED\<close> and copy nothing.
\<close>

lemma mmu_read_before_write_denied:
  assumes wf: "mmu_wf m" and n: "unat n < 2 ^ 63" and blk: "in_block m a (unat n)"
    and k: "k < unat n" and raw: "mmu_perm m ! (offset m a + k) = MPERM_WRITE OR MPERM_RAW"
  shows "mmu_read_into m a n = Inr (0, None, m\<lparr>mmu_state := ACCESS_DENIED\<rparr>)"
proof -
  have "\<not> bit (10 :: u32) 2"
    using bit_numeral_perms by (simp add: bit_iff_odd drop_bit_eq_div)
  then have "\<not> perm_allows MPERM_READ (mmu_perm m ! (offset m a + k))"
    by (simp add: raw perm_allows_read bit_simps bit_numeral_perms)
  then have "\<not> allowed m a (unat n) MPERM_READ"
    using k by (auto simp: allowed_def)
  then show ?thesis using blk by (simp add: mmu_read_into_eq [OF wf n])
qed

section \<open>Allocation\<close>

text \<open>A sequence of calls of \<open>mmu_allocate_raw\<close>: the addresses it returned.\<close>

fun alloc_seq :: "mmu_t \<Rightarrow> u64 list \<Rightarrow> (vaddr_t list \<times> mmu_t) res" where
  "alloc_seq m [] = Inr ([], m)"
| "alloc_seq m (n # ns) =
     rbind (mmu_allocate_raw m n) (\<lambda>(a, m1).
     rbind (alloc_seq m1 ns) (\<lambda>(as, m2). Inr (a # as, m2)))"

definition blocks_apart :: "(vaddr_t \<times> u64) list \<Rightarrow> bool" where
  "blocks_apart =
     sorted_wrt (\<lambda>(a, n) (b, k). a = 0 \<or> b = 0 \<or> unat a + unat n \<le> unat b)"

lemma alloc_step:
  assumes wf: "mmu_wf m" and base: "mmu_base m \<noteq> 0" and n: "unat n + 15 < 2 ^ 32"
    and res: "mmu_allocate m n perm = Inr (a, m')"
  shows "mmu_wf m'" "mmu_base m' = mmu_base m" "mmu_size m' = mmu_size m" "mmu_data m' = mmu_data m"
    "a \<noteq> 0 \<Longrightarrow> unat a = unat (mmu_curr_vaddr m) \<and> unat a + unat n \<le> unat (mmu_curr_vaddr m')"
    "unat (mmu_curr_vaddr m) \<le> unat (mmu_curr_vaddr m')"
proof -
  let ?full = "unat (mmu_curr_vaddr m) + round16 (unat n) \<ge> unat (mmu_base m) + unat (mmu_size m)"
  have c: "unat (ucast (mmu_curr_vaddr m) :: u32) = unat (mmu_curr_vaddr m)"
    using wf by (auto simp: mmu_wf_def unsigned_ucast_eq take_bit_nat_eq_self)
  have cv: "unat (mmu_curr_vaddr m + of_nat (round16 (unat n)))
      = unat (mmu_curr_vaddr m) + round16 (unat n)" if "\<not> ?full"
  proof -
    have "unat (of_nat (round16 (unat n)) :: u64) = round16 (unat n)"
      using that wf by (intro unat_of_nat_64) (auto simp: mmu_wf_def)
    then show ?thesis using that wf by (subst unat_add_64) (auto simp: mmu_wf_def)
  qed
  have eq: "?full \<and> a = 0 \<and> m' = m \<or>
      \<not> ?full \<and> a = ucast (mmu_curr_vaddr m) \<and> m' = mmu_allocated m (unat n) perm"
    using res by (auto simp: mmu_allocate_eq [OF wf base n] split: if_splits)
  show "mmu_wf m'"
    using eq wf mmu_allocated_wf [OF wf, of "unat n" perm] by auto
  show "mmu_base m' = mmu_base m" "mmu_size m' = mmu_size m" "mmu_data m' = mmu_data m"
    using eq by (auto simp: mmu_allocated_def)
  show "a \<noteq> 0 \<Longrightarrow> unat a = unat (mmu_curr_vaddr m) \<and> unat a + unat n \<le> unat (mmu_curr_vaddr m')"
    using eq c cv round16_bounds(1) [of "unat n"] by (auto simp: mmu_allocated_def)
  show "unat (mmu_curr_vaddr m) \<le> unat (mmu_curr_vaddr m')"
    using eq cv by (auto simp: mmu_allocated_def)
qed

text \<open>What an allocation does to the memory: new permissions, the same bytes.\<close>

lemma mmu_abs_allocated:
  assumes wf: "mmu_wf m"
    and room: "unat (mmu_curr_vaddr m) + round16 n < unat (mmu_base m) + unat (mmu_size m)"
  shows "mmu_abs (mmu_allocated m n p) = (\<lambda>x.
    if unat (mmu_curr_vaddr m) \<le> x \<and> x < unat (mmu_curr_vaddr m) + n
    then Some (mmu_byte m x, p) else mmu_abs m x)"
proof
  fix x
  have c: "unat (ucast (mmu_curr_vaddr m) :: u32) = unat (mmu_curr_vaddr m)"
    using wf by (auto simp: mmu_wf_def unsigned_ucast_eq take_bit_nat_eq_self)
  have off: "offset m (ucast (mmu_curr_vaddr m)) = unat (mmu_curr_vaddr m) - unat (mmu_base m)"
    by (simp add: offset_def c)
  have n: "unat (mmu_curr_vaddr m) - unat (mmu_base m) + n \<le> length (mmu_perm m)"
    "unat (mmu_base m) \<le> unat (mmu_curr_vaddr m)" "unat (mmu_curr_vaddr m) + n \<le> unat (mmu_base m) + unat (mmu_size m)"
    using wf room round16_bounds(1) [of n] by (auto simp: mmu_wf_def)
  show "mmu_abs (mmu_allocated m n p) x = (if unat (mmu_curr_vaddr m) \<le> x \<and> x < unat (mmu_curr_vaddr m) + n
      then Some (mmu_byte m x, p) else mmu_abs m x)"
    using n wf by (auto simp: mmu_abs_def mmu_allocated_def mmu_byte_def off nth_map_range mmu_wf_def)
qed

lemma alloc_seq_facts:
  assumes "mmu_wf m" and "mmu_base m \<noteq> 0" and "\<forall>n\<in>set ns. unat n + 15 < 2 ^ 32"
    and "alloc_seq m ns = Inr (as, m')"
  shows "blocks_apart (zip as ns) \<and> length as = length ns \<and> mmu_wf m' \<and> mmu_data m' = mmu_data m \<and>
    (\<forall>(a, n) \<in> set (zip as ns). a = 0 \<or> unat (mmu_curr_vaddr m) \<le> unat a \<and>
       in_block m a (unat n))"
  using assms
proof (induction ns arbitrary: m as)
  case Nil
  then show ?case by (auto simp: blocks_apart_def)
next
  case (Cons n ns)
  from Cons.prems obtain a m1 as' where
    r1: "mmu_allocate m n (MPERM_WRITE OR MPERM_RAW) = Inr (a, m1)"
    and r2: "alloc_seq m1 ns = Inr (as', m')" and as: "as = a # as'"
    by (auto simp: rbind_Inr_iff mmu_allocate_raw_def)
  have n: "unat n + 15 < 2 ^ 32" using Cons.prems by simp
  note st = alloc_step [OF Cons.prems(1,2) n r1]
  have IH: "blocks_apart (zip as' ns) \<and> length as' = length ns \<and> mmu_wf m' \<and> mmu_data m' = mmu_data m1 \<and>
    (\<forall>(b, k) \<in> set (zip as' ns). b = 0 \<or> unat (mmu_curr_vaddr m1) \<le> unat b \<and> in_block m1 b (unat k))"
    using Cons.IH [OF st(1) _ _ r2] Cons.prems st(2) by simp
  have a_in: "a = 0 \<or> unat (mmu_curr_vaddr m) \<le> unat a \<and> in_block m a (unat n)"
    using st(1,5) st(2,3) Cons.prems(1) by (auto simp: in_block_def mmu_wf_def)
  have "\<forall>(b, k) \<in> set (zip as' ns). a = 0 \<or> b = 0 \<or> unat a + unat n \<le> unat b"
    using IH st(5) by fastforce
  moreover have "\<forall>(b, k) \<in> set (zip as' ns). b = 0 \<or> unat (mmu_curr_vaddr m) \<le> unat b \<and> in_block m b (unat k)"
    using IH st(2,3,6) by (fastforce simp: in_block_def)
  ultimately show ?case
    using IH a_in st(4) by (auto simp: as blocks_apart_def)
qed


lemma tiny_mmu_alloc:
  "alloc_seq (tiny_mmu 0) [5, 32, 16] = Inr ([0x100, 0x110, 0],
     (tiny_mmu 0)\<lparr>mmu_curr_vaddr := 0x130, mmu_perm := replicate 5 10 @ replicate 11 0 @ replicate 32 10
       @ replicate 16 0\<rparr>)"
  by code_simp


section \<open>Initialisation and the invariant\<close>

lemma map_range_const: "map_range 0 (length xs) (\<lambda>_. c) xs = replicate (length xs) c"
  by (simp add: map_range_def map_replicate_const)

lemma unat_dirty_size: "unat (sz div 64 + 1 :: u64) = unat sz div 64 + 1"
proof -
  have "unat (sz div 64) = unat sz div 64" by (simp add: unat_div)
  moreover have "unat sz div 64 < 2 ^ 63"
    using unsigned_less [of sz, where 'a = nat] by simp
  ultimately show ?thesis by (subst unat_add_64) auto
qed

lemma unat_perm_bytes:
  assumes "unat (sz :: u64) < 2 ^ 32"
  shows "unat (4 * sz) div 4 = unat sz"
proof -
  have "unat (4 * sz) = 4 * unat sz"
    using assms by (subst unat_mult_lem [THEN iffD1]) simp_all
  then show ?thesis by simp
qed

text \<open>
  When every allocation succeeds, the new memory is well-formed, holds zeros, is writable but
  not yet readable at every byte, has no dirty page, and its bump pointer is the base address;
  a failed allocation gives \<open>NULL\<close>.
\<close>

lemma mmu_init_eq:
  assumes "unat base + unat sz < 2 ^ 32"
  shows "if \<forall>i<4. alloc_ok h i then
      \<exists>m. mmu_init h base sz = Inr (Some m) \<and> mmu_wf m \<and> mmu_base m = base \<and> mmu_size m = sz \<and>
        mmu_curr_vaddr m = ucast base \<and> mmu_data m = replicate (unat sz) 0 \<and>
        mmu_perm m = replicate (unat sz) (MPERM_WRITE OR MPERM_RAW) \<and>
        set (mmu_dirty m) = {False}
    else mmu_init h base sz = Inr None"
proof (cases "\<forall>i<4. alloc_ok h i")
  case False
  then have "\<not> (alloc_ok h 0 \<and> alloc_ok h 1 \<and> alloc_ok h 2 \<and> alloc_ok h 3)"
    by (auto simp: numeral_eq_Suc less_Suc_eq)
  with False show ?thesis by (auto simp: mmu_init_def)
next
  case True
  then have ok: "alloc_ok h 0" "alloc_ok h 1" "alloc_ok h 2" "alloc_ok h 3" by simp_all
  have small: "unat sz < 2 ^ 32" using assms by simp
  let ?m = "\<lparr>mmu_size = sz, mmu_base = base, mmu_curr_vaddr = ucast base,
      mmu_data = replicate (unat sz) 0, mmu_perm = malloc_perms h (unat sz),
      mmu_dirty = replicate (unat sz div 64 + 1) False, mmu_state = junk_state h\<rparr>"
  have wf: "mmu_wf ?m" using assms by (simp add: mmu_wf_def malloc_perms_def)
  have blk: "in_block ?m base (unat sz)" by (simp add: in_block_def)
  have n: "unat sz < 2 ^ 63" using small by simp
  have off: "offset ?m base = 0" by (simp add: offset_def)
  have len: "length (malloc_perms h (unat sz)) = unat sz" by (simp add: malloc_perms_def)
  have "mmu_setperm ?m base sz 10 = Inr (?m\<lparr>mmu_perm := replicate (unat sz) 10\<rparr>)"
    using map_range_const [of "malloc_perms h (unat sz)" 10]
    unfolding mmu_setperm_in [OF wf n blk] off by (simp add: len)
  then have "mmu_init h base sz = Inr (Some (?m\<lparr>mmu_perm := replicate (unat sz) 10\<rparr>))"
    using ok unat_perm_bytes [OF small] unat_dirty_size [of sz]
    by (simp add: mmu_init_def Let_def)
  moreover have "mmu_wf (?m\<lparr>mmu_perm := replicate (unat sz) 10\<rparr>)"
    using assms by (simp add: mmu_wf_def)
  ultimately show ?thesis using True by (simp add: set_replicate_conv_if)
qed

text \<open>A heap on which every allocation succeeds.\<close>

definition plenty :: alloc_env where
  "plenty = \<lparr>alloc_ok = \<lambda>_. True, junk = \<lambda>_. 0xcd, junk_state = ACCESS_DENIED\<rparr>"

text \<open>
  The calls on a memory, as steps, with any arguments and any outcome that lets the program go
  on, but for some of \<open>mmu_add_memory\<close>: an empty or huge segment, and a second or third
  reallocation that fails, leave arrays that do not go with the size
  (\<open>add_memory_breaks\<close> below).
\<close>

inductive mmu_call :: "mmu_t \<Rightarrow> mmu_t \<Rightarrow> bool" where
  call_setperm: "mmu_setperm m a n p = Inr m' \<Longrightarrow> mmu_call m m'"
| call_allocate: "mmu_allocate m n p = Inr (a, m') \<Longrightarrow> mmu_call m m'"
| call_write: "mmu_write_from m src a n = Inr (r, m') \<Longrightarrow> mmu_call m m'"
| call_read: "mmu_read_into m a n = Inr (r, bs, m') \<Longrightarrow> mmu_call m m'"
| call_add: "mmu_add_memory h m a n p = Inr (b, m') \<Longrightarrow> 0 < unat n \<Longrightarrow> unat n < 2 ^ 63 \<Longrightarrow>
    b \<or> \<not> alloc_ok h 0 \<Longrightarrow> mmu_call m m'"

inductive mmu_reachable :: "mmu_t \<Rightarrow> bool" where
  reach_init: "mmu_init h base sz = Inr (Some m) \<Longrightarrow> unat base + unat sz < 2 ^ 32 \<Longrightarrow> mmu_reachable m"
| reach_call: "mmu_reachable m \<Longrightarrow> mmu_call m m' \<Longrightarrow> mmu_reachable m'"

lemma length_realloc_to [simp]: "length fresh = n \<Longrightarrow> length (realloc_to n xs fresh) = n"
  by (simp add: realloc_to_def)

text \<open>The extending branch of \<open>mmu_add_memory\<close>.\<close>

lemma add_memory_extends:
  assumes wf: "mmu_wf m" and base: "mmu_base m \<le> a" and n: "0 < unat n" "unat n < 2 ^ 63"
    and ext: "unat (mmu_base m) + unat (mmu_size m) < unat a + unat n"
    and ok: "\<forall>i<3. alloc_ok h i"
  shows "mmu_add_memory h m a n p = Inl Out_Of_Bounds"
proof -
  have sum: "unat (ucast a + n) = unat a + unat n" by (rule unat_vaddr_plus [OF n(2)])
  have grow: "ucast (mmu_base m) + mmu_size m < ucast a + n"
    using sum unat_end [OF wf] ext by (simp add: word_less_nat_alt)
  let ?new = "ucast a + n - ucast (mmu_base m) :: u64"
  have new: "unat ?new = unat a + unat n - unat (mmu_base m)"
    using sum base n by (subst unat_sub) (auto simp: word_le_nat_alt)
  have top: "ucast (mmu_base m) + ?new = ucast a + n" by simp
  have i: "unat (ucast (a - mmu_base m) :: u64) = unat a - unat (mmu_base m)"
    using base by (simp add: unat_sub_vaddr)
  have e: "unat (ucast (a - mmu_base m) + n) = unat a - unat (mmu_base m) + unat n"
    using unat_vaddr_plus [OF n(2), of "a - mmu_base m"] base by (simp add: unat_sub_vaddr)
  let ?np = "unat ?new div 4"
  let ?perms = "realloc_to ?np (mmu_perm m) (malloc_perms h ?np)"
  have "length ?perms < (unat a - unat (mmu_base m)) + unat n"
    using new base n(1) by (simp add: malloc_perms_def word_le_nat_alt)
  then have "upd_range (unat a - unat (mmu_base m)) (unat n) (\<lambda>_. p) ?perms = Inl Out_Of_Bounds"
    using n(1) by (rule upd_range_out)
  then show ?thesis
    using ok base grow top i e by (simp add: mmu_add_memory_def mmu_setperm_def Let_def not_less)
qed

lemma mmu_add_memory_in:
  assumes wf: "mmu_wf m" and n: "unat n < 2 ^ 63" and blk: "in_block m a (unat n)"
  shows "mmu_add_memory h m a n p =
    Inr (True, m\<lparr>mmu_curr_vaddr := ucast a + n,
      mmu_perm := map_range (offset m a) (unat n) (\<lambda>_. p) (mmu_perm m)\<rparr>)"
proof -
  let ?m = "m\<lparr>mmu_curr_vaddr := ucast a + n\<rparr>"
  have "unat (ucast a + n) = unat a + unat n" by (rule unat_vaddr_plus [OF n])
  then have wf': "mmu_wf ?m" using wf blk by (simp add: mmu_wf_def in_block_def)
  have blk': "in_block ?m a (unat n)" using blk by (simp add: in_block_def)
  have off: "offset ?m a = offset m a" by (simp add: offset_def)
  have "\<not> a < mmu_base m" "\<not> ucast a + n > ucast (mmu_base m) + mmu_size m"
    using in_block_iff [OF wf n, of a] blk by blast+
  then show ?thesis
    unfolding mmu_add_memory_def
    using mmu_setperm_in [OF wf' n blk', of p] by (simp only: if_False Let_def) (simp add: off)
qed

lemma mem_put_length: "mem_put i bs xs = Inr ys \<Longrightarrow> length ys = length xs"
  by (auto simp: mem_put_def blit_def split: if_splits)

text \<open>A size may be larger than the block: what an operation lets through keeps the lengths.\<close>

lemma upd_range_length: "upd_range i n f xs = Inr ys \<Longrightarrow> length ys = length xs"
  by (auto simp: upd_range_Inr_iff)

lemma setperm_shape:
  assumes "mmu_setperm m a n p = Inr m'"
  obtains ps where "m' = m\<lparr>mmu_perm := ps\<rparr>" "length ps = length (mmu_perm m)"
  using assms upd_range_length by (fastforce simp: mmu_setperm_def rbind_Inr_iff Let_def)

lemma setperm_keeps_wf: "mmu_setperm m a n p = Inr m' \<Longrightarrow> mmu_wf m \<Longrightarrow> mmu_wf m'"
  by (erule setperm_shape) (simp add: mmu_wf_def)

lemma write_from_keeps_wf:
  assumes w: "mmu_write_from m src a n = Inr (r, m')" and wf: "mmu_wf m"
  shows "mmu_wf m'"
proof -
  have "(\<exists>st. m' = m\<lparr>mmu_state := st\<rparr>) \<or> (\<exists>d ps dy. m' = m\<lparr>mmu_state := MMU_OK, mmu_data := d, mmu_perm := ps,
      mmu_dirty := dy\<rparr> \<and> length d = length (mmu_data m) \<and> length ps = length (mmu_perm m)
      \<and> length dy = length (mmu_dirty m))"
    using w unfolding mmu_write_from_def Let_def
    by (auto simp: rbind_Inr_iff split: if_splits dest!: upd_range_length mem_put_length)
  then show ?thesis using wf by (auto simp: mmu_wf_def)
qed

lemma read_into_keeps_wf:
  assumes "mmu_read_into m a n = Inr (r, bs, m')" and "mmu_wf m"
  shows "mmu_wf m'"
  using assms by (auto simp: mmu_read_into_def rbind_Inr_iff mmu_wf_def split: if_splits)

lemma allocate_keeps_wf:
  assumes al: "mmu_allocate m n p = Inr (a, m')" and wf: "mmu_wf m"
  shows "mmu_wf m'"
proof -
  let ?al = "(n + 0x0f) AND 0xfffffff0 :: u64" and ?c = "ucast (mmu_curr_vaddr m) :: u32"
  have c: "unat ?c = unat (mmu_curr_vaddr m)"
    using wf by (auto simp: mmu_wf_def unsigned_ucast_eq take_bit_nat_eq_self)
  have "?al \<le> 0xfffffff0" by (rule word_and_le1)
  then have "unat ?al < 2 ^ 63" by (simp add: word_le_nat_alt)
  then have sum: "unat (ucast ?c + ?al) = unat (mmu_curr_vaddr m) + unat ?al"
    using unat_vaddr_plus [of ?al ?c] c by simp
  show ?thesis
  proof (cases "ucast ?c + ?al \<ge> ucast (mmu_base m) + mmu_size m")
    case True
    then show ?thesis using al wf by (simp add: mmu_allocate_def Let_def)
  next
    case False
    then have "unat (mmu_curr_vaddr m) + unat ?al < unat (mmu_base m) + unat (mmu_size m)"
      using sum unat_end [OF wf] by (simp add: not_le word_less_nat_alt)
    then have "mmu_wf (m\<lparr>mmu_curr_vaddr := ucast ?c + ?al\<rparr>)" using wf sum by (simp add: mmu_wf_def)
    moreover have "\<exists>v. mmu_setperm (m\<lparr>mmu_curr_vaddr := ucast ?c + ?al\<rparr>) v n p = Inr m'"
      using al False by (auto simp: mmu_allocate_def Let_def rbind_Inr_iff)
    ultimately show ?thesis using setperm_keeps_wf by blast
  qed
qed

lemma add_memory_keeps_wf:
  assumes add: "mmu_add_memory h m a n p = Inr (b, m')" and wf: "mmu_wf m"
    and n: "0 < unat n" "unat n < 2 ^ 63" and b: "b \<or> \<not> alloc_ok h 0"
  shows "mmu_wf m'"
proof (cases "in_block m a (unat n)")
  case True
  have "unat (ucast a + n) = unat a + unat n" by (rule unat_vaddr_plus [OF n(2)])
  moreover have "m' = m\<lparr>mmu_curr_vaddr := ucast a + n,
      mmu_perm := map_range (offset m a) (unat n) (\<lambda>_. p) (mmu_perm m)\<rparr>"
    using add by (simp add: mmu_add_memory_in [OF wf n(2) True])
  ultimately show ?thesis using wf True in_block_offset [OF wf True] by (simp add: mmu_wf_def in_block_def)
next
  case False
  have base: "mmu_base m \<le> a" using add by (auto simp: mmu_add_memory_def split: if_splits)
  then have ext: "unat (mmu_base m) + unat (mmu_size m) < unat a + unat n"
    using False by (auto simp: in_block_def word_le_nat_alt)
  have grow: "ucast (mmu_base m) + mmu_size m < ucast a + n"
    using unat_vaddr_plus [OF n(2), of a] unat_end [OF wf] ext by (simp add: word_less_nat_alt)
  have "\<not> alloc_ok h 0"
  proof
    assume 0: "alloc_ok h 0"
    then have "alloc_ok h 1" "alloc_ok h 2"
      using add b base grow by (auto simp: mmu_add_memory_def Let_def rbind_Inr_iff split: if_splits)
    with 0 have "\<forall>i<3. alloc_ok h i" by (auto simp: numeral_eq_Suc less_Suc_eq)
    from add_memory_extends [OF wf base n ext this] add show False by simp
  qed
  moreover have "\<not> a < mmu_base m" using base by simp
  ultimately have "mmu_add_memory h m a n p = Inr (False, m)" using grow by (simp add: mmu_add_memory_def)
  then show ?thesis using add wf by simp
qed

lemma mmu_call_wf: "mmu_call m m' \<Longrightarrow> mmu_wf m \<Longrightarrow> mmu_wf m'"
  by (induction rule: mmu_call.induct)
    (blast intro: setperm_keeps_wf allocate_keeps_wf write_from_keeps_wf read_into_keeps_wf add_memory_keeps_wf)+

text \<open>
  C20. The invariant of the memory. After a successful \<open>mmu_init\<close> of a block in the 32-bit
  address space, and any sequence of calls of \<open>mmu_setperm\<close>, \<open>mmu_allocate\<close>,
  \<open>mmu_write_from\<close> and \<open>mmu_read_into\<close> with any arguments that let the program go on, and
  of \<open>mmu_add_memory\<close> with a segment of at least one and less than \<open>2 ^ 63\<close> bytes that it
  adds, or that it refuses because its first \<open>realloc\<close> fails, the three arrays have the
  lengths that go with the size, the block is in the 32-bit address space, and the bump pointer
  is in the block. (\<open>mmu_add_memory\<close> does break this with an empty segment behind the block,
  or when its second or third \<open>realloc\<close> fails.)
\<close>

theorem mmu_reachable_wf:
  assumes "mmu_reachable m"
  shows "length (mmu_data m) = unat (mmu_size m) \<and> length (mmu_perm m) = unat (mmu_size m)
    \<and> length (mmu_dirty m) = unat (mmu_size m) div DIRTY_PAGE_SIZE + 1
    \<and> unat (mmu_base m) + unat (mmu_size m) < 2 ^ 32 \<and> unat (mmu_base m) \<le> unat (mmu_curr_vaddr m)
    \<and> unat (mmu_curr_vaddr m) \<le> unat (mmu_base m) + unat (mmu_size m)"
proof -
  have "mmu_wf m"
    using assms
  proof (induction rule: mmu_reachable.induct)
    case (reach_init h base sz m)
    then show ?case using mmu_init_eq [of base sz h] by (auto split: if_splits)
  next
    case (reach_call m m')
    then show ?case using mmu_call_wf by blast
  qed
  then show ?thesis by (simp add: mmu_wf_def)
qed

text \<open>A block of 64 bytes, with an allocation and a segment added at its end.\<close>

definition grown_mmu :: mmu_t where
  "grown_mmu = (tiny_mmu 10)\<lparr>mmu_state := ACCESS_DENIED, mmu_curr_vaddr := 0x140,
     mmu_perm := replicate 48 10 @ replicate 16 5\<rparr>"

lemma grown_reachable: "mmu_reachable grown_mmu"
proof -
  have "mmu_init plenty 0x100 64 = Inr (Some (tiny_mmu 10\<lparr>mmu_state := ACCESS_DENIED\<rparr>))"
    by code_simp
  then have 1: "mmu_reachable (tiny_mmu 10\<lparr>mmu_state := ACCESS_DENIED\<rparr>)" by (rule reach_init) simp
  have "mmu_allocate (tiny_mmu 10\<lparr>mmu_state := ACCESS_DENIED\<rparr>) 4 10
      = Inr (0x100, tiny_mmu 10\<lparr>mmu_state := ACCESS_DENIED, mmu_curr_vaddr := 0x110\<rparr>)"
    by code_simp
  from reach_call [OF 1 call_allocate [OF this]]
  have 2: "mmu_reachable (tiny_mmu 10\<lparr>mmu_state := ACCESS_DENIED, mmu_curr_vaddr := 0x110\<rparr>)" .
  have "mmu_add_memory plenty (tiny_mmu 10\<lparr>mmu_state := ACCESS_DENIED, mmu_curr_vaddr := 0x110\<rparr>) 0x130 16 5
      = Inr (True, grown_mmu)"
    by code_simp
  from call_add [OF this] have "mmu_call (tiny_mmu 10\<lparr>mmu_state := ACCESS_DENIED, mmu_curr_vaddr := 0x110\<rparr>) grown_mmu"
    by simp
  with 2 show ?thesis by (rule reach_call)
qed

theorem mmu_reachable_wf_witness: "length (mmu_perm grown_mmu) = unat (mmu_size grown_mmu)"
  using mmu_reachable_wf [OF grown_reachable] by blast

section \<open>Where the code falls short\<close>

text \<open>
  An empty segment behind the block, and a heap whose second allocation fails, after which
  the arrays do not go with the size.
\<close>

lemma add_memory_breaks:
  "\<exists>m. mmu_add_memory plenty (tiny_mmu 10) 0x200 0 5 = Inr (True, m) \<and> \<not> mmu_wf m"
  "\<exists>m. mmu_add_memory (plenty\<lparr>alloc_ok := \<lambda>i. i = 0\<rparr>) (tiny_mmu 10) 0x130 0x20 5 = Inr (False, m) \<and> \<not> mmu_wf m"
proof -
  have "case mmu_add_memory plenty (tiny_mmu 10) 0x200 0 5 of Inr (True, m) \<Rightarrow> length (mmu_perm m) \<noteq> unat (mmu_size m) | _ \<Rightarrow> False"
    by code_simp
  then show "\<exists>m. mmu_add_memory plenty (tiny_mmu 10) 0x200 0 5 = Inr (True, m) \<and> \<not> mmu_wf m"
    by (auto simp: mmu_wf_def split: sum.splits prod.splits bool.splits)
  have "case mmu_add_memory (plenty\<lparr>alloc_ok := \<lambda>i. i = 0\<rparr>) (tiny_mmu 10) 0x130 0x20 5 of
      Inr (False, m) \<Rightarrow> length (mmu_data m) \<noteq> unat (mmu_size m) | _ \<Rightarrow> False"
    by code_simp
  then show "\<exists>m. mmu_add_memory (plenty\<lparr>alloc_ok := \<lambda>i. i = 0\<rparr>) (tiny_mmu 10) 0x130 0x20 5 = Inr (False, m) \<and> \<not> mmu_wf m"
    by (auto simp: mmu_wf_def split: sum.splits prod.splits bool.splits)
qed

text \<open>
  C40. Extending the memory leaves the permission array: when \<open>mmu_add_memory\<close> is given a
  segment of at least one byte that ends behind the block, and every \<open>realloc\<close> succeeds,
  the permission array is reallocated to as many bytes as there are entries of four bytes
  each, and setting the permissions of the segment runs off its end.
\<close>

theorem mmu_add_memory_overruns:
  assumes wf: "mmu_wf m" and base: "mmu_base m \<le> a" and n: "0 < unat n" "unat n < 2 ^ 32"
    and ext: "unat (mmu_base m) + unat (mmu_size m) < unat a + unat n"
    and ok: "\<forall>i<3. alloc_ok h i"
  shows "mmu_add_memory h m a n p = Inl Out_Of_Bounds"
  using add_memory_extends [OF wf base n(1) _ ext ok] n(2) by simp

theorem mmu_add_memory_overruns_witness:
  "mmu_add_memory plenty (tiny_mmu 10) 0x130 0x20 5 = Inl Out_Of_Bounds"
  using mmu_add_memory_overruns [of "tiny_mmu 10" "0x130" "0x20" plenty 5] by (simp add: plenty_def)

text \<open>
  A write that ends in the page it began in marks no page dirty, although it changes
  bytes of that page.
\<close>

lemma mmu_write_leaves_dirty:
  assumes wf: "mmu_wf m" and n: "unat n < 2 ^ 63"
    and w: "mmu_write_from m src a n = Inr (n, m')"
    and page: "(offset m a + unat n) div DIRTY_PAGE_SIZE = offset m a div DIRTY_PAGE_SIZE"
  shows "mmu_dirty m' = mmu_dirty m"
  using w page
  by (auto simp: mmu_write_from_eq [OF wf n] mmu_written_def mark_dirty_def min_def split: if_splits)

end
