(* ===== verification/Mmio.thy ===== *)
theory Mmio
  imports Mmu_Spec
begin

text \<open>
  The constants of \<^verbatim>\<open>src/config.h\<close>, the devices of \<^verbatim>\<open>src/mmio.h\<close>, and the RAM
  device of \<^verbatim>\<open>src/memory.c\<close>, which turns accesses of a width into reads and writes of
  the memory management unit.

  A device's function pointers are one of two tables in the source (RAM and CSR); the
  record names the table. The \<open>user\<close> pointer of the RAM device is the memory that the
  operations take and return.
\<close>

section \<open>Configuration\<close>

definition PREFETCH_SIZE :: nat where [simp]: "PREFETCH_SIZE = 8"
definition NUMCORES :: nat where [simp]: "NUMCORES = 1"
definition RAM_START :: u32 where [simp]: "RAM_START = 0x10000"
definition RAM_END :: u32 where [simp]: "RAM_END = 0x7ffff"
definition RAM_SIZE :: u32 where [simp]: "RAM_SIZE = RAM_END - RAM_START"
definition VIDEO_RAM_START :: u64 where [simp]: "VIDEO_RAM_START = ucast RAM_END"
definition VIDEO_RAM_SIZE :: u64 where [simp]: "VIDEO_RAM_SIZE = 640 * 480 * 4"
definition VIDEO_RAM_END :: u64 where [simp]: "VIDEO_RAM_END = VIDEO_RAM_START + VIDEO_RAM_SIZE"
definition CSR_MMAP_BASE_ADDR :: u64 where [simp]: "CSR_MMAP_BASE_ADDR = VIDEO_RAM_END"
definition STACK_SIZE :: u32 where [simp]: "STACK_SIZE = push_bit 12 1"

section \<open>Devices\<close>

datatype memory_access_width_t = BYTE | HALFWORD | WORD

type_synonym mmio_perm_t = u32

definition READ :: mmio_perm_t where [simp]: "READ = push_bit 0 1"
definition WRITE :: mmio_perm_t where [simp]: "WRITE = push_bit 1 1"

datatype device_state_t = READY | BUSY | ERROR

datatype driver_t = Ram_Driver | Csr_Driver

record mmio_device_t =
  base_address :: u32
  dev_size :: u32
  dev_perm :: mmio_perm_t
  dev_state :: device_state_t
  dev_driver :: driver_t

text \<open>\<open>const size_t mult\<close> of \<open>read_ram\<close> and \<open>write_ram\<close>.\<close>

definition width_mult :: "memory_access_width_t \<Rightarrow> u64" where
  "width_mult aw = (if aw = WORD then 4 else if aw = HALFWORD then 2 else 1)"

section \<open>The RAM device\<close>

definition init_ram :: "mmio_device_t \<Rightarrow> mmio_device_t" where
  "init_ram ram = ram\<lparr>dev_state := READY\<rparr>"

definition write_ram ::
    "mmio_device_t \<Rightarrow> mmu_t \<Rightarrow> u32 \<Rightarrow> u8 list \<Rightarrow> u64 \<Rightarrow> memory_access_width_t
     \<Rightarrow> (u64 \<times> mmio_device_t \<times> mmu_t) res" where
  "write_ram ram mmu offs buf count aw =
     (let mult = width_mult aw in
      rbind (mmu_write_from mmu buf offs (count * mult)) (\<lambda>(ret, mmu').
      if mmu_state mmu' = MMU_OK then Inr (ret, ram\<lparr>dev_state := READY\<rparr>, mmu')
      else Inr (0, ram\<lparr>dev_state := ERROR\<rparr>, mmu')))"

definition read_ram ::
    "mmio_device_t \<Rightarrow> mmu_t \<Rightarrow> u32 \<Rightarrow> u64 \<Rightarrow> memory_access_width_t
     \<Rightarrow> (u64 \<times> u8 list option \<times> mmio_device_t \<times> mmu_t) res" where
  "read_ram ram mmu offs count aw =
     (let mult = width_mult aw in
      rbind (mmu_read_into mmu offs (count * mult)) (\<lambda>(ret, bs, mmu').
      if mmu_state mmu' = MMU_OK \<and> ret = count * mult
      then Inr (count, bs, ram\<lparr>dev_state := READY\<rparr>, mmu')
      else Inr (0, bs, ram\<lparr>dev_state := ERROR\<rparr>, mmu')))"

text \<open>
  \<open>buf_word old bs\<close> is the \<open>uint32_t\<close> whose bytes were \<open>old\<close> before \<open>bs\<close> was
  copied to its address, or \<open>old\<close> itself when nothing was copied.
\<close>

definition buf_word :: "u8 list \<Rightarrow> u8 list option \<Rightarrow> u32" where
  "buf_word old bs = word_of_bytes (case bs of None \<Rightarrow> old | Some b \<Rightarrow> blit 0 b old)"

text \<open>
  The local \<open>uint8_t ret\<close> of the byte case is not initialised: the argument
  \<open>indet\<close> is the value it happens to have.
\<close>

definition read_ram_single ::
    "u8 \<Rightarrow> mmio_device_t \<Rightarrow> mmu_t \<Rightarrow> u32 \<Rightarrow> memory_access_width_t
     \<Rightarrow> (u32 \<times> mmio_device_t \<times> mmu_t) res" where
  "read_ram_single indet ram mmu offs aw =
     (if aw = WORD then
        rbind (read_ram ram mmu offs 1 aw) (\<lambda>(_, bs, ram', mmu').
        Inr (buf_word [0, 0, 0, 0] bs, ram', mmu'))
      else if aw = HALFWORD then
        rbind (read_ram ram mmu offs 1 aw) (\<lambda>(_, bs, ram', mmu').
        Inr (buf_word [0, 0, 0, 0] bs, ram', mmu'))
      else if aw = BYTE then
        rbind (read_ram ram mmu offs 1 aw) (\<lambda>(_, bs, ram', mmu').
        Inr (buf_word [indet] bs, ram', mmu'))
      else Inl Assert_Failed)"

definition write_ram_single ::
    "mmio_device_t \<Rightarrow> mmu_t \<Rightarrow> u32 \<Rightarrow> u32 \<Rightarrow> memory_access_width_t
     \<Rightarrow> (mmio_device_t \<times> mmu_t) res" where
  "write_ram_single ram mmu offs v aw =
     (if aw = WORD then
        rbind (write_ram ram mmu offs (bytes_of_word 4 v) 1 aw) (\<lambda>(_, ram', mmu'). Inr (ram', mmu'))
      else if aw = HALFWORD then
        rbind (write_ram ram mmu offs (bytes_of_word 2 (v AND 0xffff)) 1 aw)
          (\<lambda>(_, ram', mmu'). Inr (ram', mmu'))
      else
        rbind (write_ram ram mmu offs (bytes_of_word 1 (v AND 0xff)) 1 aw)
          (\<lambda>(_, ram', mmu'). Inr (ram', mmu')))"

section \<open>What the RAM device does\<close>

definition width_bytes :: "memory_access_width_t \<Rightarrow> nat" where
  "width_bytes aw = (case aw of BYTE \<Rightarrow> 1 | HALFWORD \<Rightarrow> 2 | WORD \<Rightarrow> 4)"

lemma unat_width_mult: "unat (width_mult aw) = width_bytes aw"
  by (cases aw) (simp_all add: width_mult_def width_bytes_def)

text \<open>Accesses are ordered by their width.\<close>

instantiation memory_access_width_t :: linorder
begin

definition less_eq_memory_access_width_t :: "memory_access_width_t \<Rightarrow> memory_access_width_t \<Rightarrow> bool" where
  "aw \<le> bw \<longleftrightarrow> width_bytes aw \<le> width_bytes bw"

definition less_memory_access_width_t :: "memory_access_width_t \<Rightarrow> memory_access_width_t \<Rightarrow> bool" where
  "aw < bw \<longleftrightarrow> width_bytes aw < width_bytes bw"

instance
proof
  fix aw bw :: memory_access_width_t
  show "aw \<le> bw \<Longrightarrow> bw \<le> aw \<Longrightarrow> aw = bw"
    by (cases aw; cases bw) (simp_all add: less_eq_memory_access_width_t_def width_bytes_def)
qed (auto simp: less_eq_memory_access_width_t_def less_memory_access_width_t_def)

end

lemma width_order: "BYTE < HALFWORD" "HALFWORD < WORD" "BYTE \<le> aw" "aw \<le> WORD"
  by (cases aw; simp add: less_memory_access_width_t_def less_eq_memory_access_width_t_def width_bytes_def)+

lemma width_bytes_mono: "aw \<le> bw \<Longrightarrow> width_bytes aw \<le> width_bytes bw"
  by (simp add: less_eq_memory_access_width_t_def)

lemma width_bytes_bounds: "0 < width_bytes aw" "width_bytes aw \<le> 4"
  by (cases aw; simp add: width_bytes_def)+

lemma ucast_and_mask:
  "ucast (v AND 0xffff :: u32) = (ucast v :: u8)"
  "ucast (drop_bit 8 (v AND 0xffff) :: u32) = (ucast (drop_bit 8 v) :: u8)"
  "ucast (v AND 0xff :: u32) = (ucast v :: u8)"
proof -
  have m: "(0xffff :: u32) = mask 16" "(0xff :: u32) = mask 8"
    by (simp_all add: mask_eq_exp_minus_1)
  show "ucast (v AND 0xffff :: u32) = (ucast v :: u8)"
    "ucast (drop_bit 8 (v AND 0xffff) :: u32) = (ucast (drop_bit 8 v) :: u8)"
    "ucast (v AND 0xff :: u32) = (ucast v :: u8)"
    unfolding m by (intro bit_word_eqI; simp add: bit_simps)+
qed

lemma bytes_of_word_12:
  "bytes_of_word 1 v = [ucast v]" "bytes_of_word 2 v = [ucast v, ucast (drop_bit 8 v)]"
  by (simp_all add: numeral_2_eq_2)

lemma bytes_of_word_and:
  "bytes_of_word 2 (v AND 0xffff) = bytes_of_word 2 v"
  "bytes_of_word 1 (v AND 0xff) = bytes_of_word 1 v"
  by (simp_all only: bytes_of_word_12 ucast_and_mask)

lemma unat_mult_width:
  assumes "unat count < 2 ^ 33"
  shows "unat (count * width_mult aw) = unat count * width_bytes aw"
proof -
  have "unat count * width_bytes aw < 2 ^ 64"
    using assms by (cases aw) (simp_all add: width_bytes_def)
  then show ?thesis
    using unat_mult_lem [of count "width_mult aw"] by (simp add: unat_width_mult)
qed

lemma write_ram_single_eq:
  "write_ram_single ram m a v aw =
     rbind (write_ram ram m a (bytes_of_word (width_bytes aw) v) 1 aw) (\<lambda>(_, r). Inr r)"
  by (cases aw) (simp_all add: write_ram_single_def width_bytes_def bytes_of_word_and ucast_and_mask
      split_def)

end
