(* ===== verification/Csr.thy ===== *)
theory Csr
  imports Mmio
begin

text \<open>
  The control and status registers of \<^verbatim>\<open>src/csr.c\<close> and \<^verbatim>\<open>src/csr.h\<close>: an array of
  4096 registers of 64 bits with read-and-write, read-and-set and read-and-clear
  operations of 32 and of 64 bits, and the memory-mapped CSR device, which refuses
  everything. The array is a function from the index with the bound written out; its six
  operations share the contract \<open>csr_op\<close>.
\<close>

section \<open>Registers\<close>

record csr_t =
  csr_state :: "nat \<Rightarrow> u64"

definition csr_mmode_max :: nat where [simp]: "csr_mmode_max = 0x1000"

definition mstatus :: u32 where [simp]: "mstatus = 0x300"
definition misa :: u32 where [simp]: "misa = 0x301"
definition mie :: u32 where [simp]: "mie = 0x304"
definition mtvec :: u32 where [simp]: "mtvec = 0x305"
definition mscratch :: u32 where [simp]: "mscratch = 0x340"
definition mepc :: u32 where [simp]: "mepc = 0x341"
definition mcause :: u32 where [simp]: "mcause = 0x342"
definition mtval :: u32 where [simp]: "mtval = 0x343"
definition mip :: u32 where [simp]: "mip = 0x344"
definition mvendorid :: u32 where [simp]: "mvendorid = 0xF11"
definition marchid :: u32 where [simp]: "marchid = 0xF12"
definition mimpid :: u32 where [simp]: "mimpid = 0xF13"
definition mhartid :: u32 where [simp]: "mhartid = 0xF14"

text \<open>An interrupt has bit 5 set (\<open>TRAP_CAUSE_INTERRUPT\<close>); the code raises none of them.\<close>

datatype trap_cause_t =
    SSI | MSI | UTI | STI | MTI | SEI
  | INSTRUCTION_ADDR_MISALIGN | INSTRUCTION_ACCESS_FAULT | ILLEGAL_INSTRUCTION | BREAKPOINT
  | LOAD_ADDR_MISALIGNED | LOAD_ACCESS_FAULT | STORE_ADDR_MISALIGNED | STORE_ACCESS_FAULT
  | ENV_CALL_UMODE | ENV_CALL_SMODE | ENV_CALL_MMODE
  | INSTRUCTION_PAGE_FAULT | LOAD_PAGE_FAULT | STORE_PAGE_FAULT

fun cause_code :: "trap_cause_t \<Rightarrow> u32" where
  "cause_code SSI = 1 OR push_bit 5 1"
| "cause_code MSI = 3 OR push_bit 5 1"
| "cause_code UTI = 4 OR push_bit 5 1"
| "cause_code STI = 5 OR push_bit 5 1"
| "cause_code MTI = 7 OR push_bit 5 1"
| "cause_code SEI = 9 OR push_bit 5 1"
| "cause_code INSTRUCTION_ADDR_MISALIGN = 0"
| "cause_code INSTRUCTION_ACCESS_FAULT = 1"
| "cause_code ILLEGAL_INSTRUCTION = 2"
| "cause_code BREAKPOINT = 3"
| "cause_code LOAD_ADDR_MISALIGNED = 4"
| "cause_code LOAD_ACCESS_FAULT = 5"
| "cause_code STORE_ADDR_MISALIGNED = 6"
| "cause_code STORE_ACCESS_FAULT = 7"
| "cause_code ENV_CALL_UMODE = 8"
| "cause_code ENV_CALL_SMODE = 9"
| "cause_code ENV_CALL_MMODE = 11"
| "cause_code INSTRUCTION_PAGE_FAULT = 12"
| "cause_code LOAD_PAGE_FAULT = 13"
| "cause_code STORE_PAGE_FAULT = 15"

text \<open>An element of \<open>csr->state\<close>.\<close>

definition csr_get :: "csr_t \<Rightarrow> u32 \<Rightarrow> u64 res" where
  "csr_get csr addr =
     (if unat addr < csr_mmode_max then Inr (csr_state csr (unat addr)) else Inl Out_Of_Bounds)"

definition csr_put :: "csr_t \<Rightarrow> u32 \<Rightarrow> u64 \<Rightarrow> csr_t res" where
  "csr_put csr addr v =
     (if unat addr < csr_mmode_max
      then Inr (csr\<lparr>csr_state := (csr_state csr)(unat addr := v)\<rparr>) else Inl Out_Of_Bounds)"

definition csr_read_write32 :: "csr_t \<Rightarrow> u32 \<Rightarrow> u32 \<Rightarrow> (u32 \<times> csr_t) res" where
  "csr_read_write32 csr addr val =
     rbind (csr_get csr addr) (\<lambda>x. let ret = ucast x :: u32 in
     rbind (csr_put csr addr (ucast val)) (\<lambda>csr'. Inr (ret, csr')))"

definition csr_read_set32 :: "csr_t \<Rightarrow> u32 \<Rightarrow> u32 \<Rightarrow> (u32 \<times> csr_t) res" where
  "csr_read_set32 csr addr msk =
     rbind (csr_get csr addr) (\<lambda>x. let ret = ucast x :: u32 in
     rbind (csr_put csr addr (x OR ucast msk)) (\<lambda>csr'. Inr (ret, csr')))"

text \<open>\<open>~mask\<close> is a \<open>uint32_t\<close>, extended with zeros to the width of the register.\<close>

definition csr_read_clear32 :: "csr_t \<Rightarrow> u32 \<Rightarrow> u32 \<Rightarrow> (u32 \<times> csr_t) res" where
  "csr_read_clear32 csr addr msk =
     rbind (csr_get csr addr) (\<lambda>x. let ret = ucast x :: u32 in
     rbind (csr_put csr addr (x AND ucast (NOT msk))) (\<lambda>csr'. Inr (ret, csr')))"

definition csr_read_write64 :: "csr_t \<Rightarrow> u32 \<Rightarrow> u64 \<Rightarrow> (u64 \<times> csr_t) res" where
  "csr_read_write64 csr addr val =
     rbind (csr_get csr addr) (\<lambda>ret.
     rbind (csr_put csr addr val) (\<lambda>csr'. Inr (ret, csr')))"

definition csr_read_set64 :: "csr_t \<Rightarrow> u32 \<Rightarrow> u64 \<Rightarrow> (u64 \<times> csr_t) res" where
  "csr_read_set64 csr addr msk =
     rbind (csr_get csr addr) (\<lambda>ret.
     rbind (csr_put csr addr (ret OR msk)) (\<lambda>csr'. Inr (ret, csr')))"

definition csr_read_clear64 :: "csr_t \<Rightarrow> u32 \<Rightarrow> u64 \<Rightarrow> (u64 \<times> csr_t) res" where
  "csr_read_clear64 csr addr msk =
     rbind (csr_get csr addr) (\<lambda>ret.
     rbind (csr_put csr addr (ret AND NOT msk)) (\<lambda>csr'. Inr (ret, csr')))"

definition csr_init :: "csr_t \<Rightarrow> csr_t" where
  "csr_init csr = csr\<lparr>csr_state := (csr_state csr)
     (unat misa := 0x40000100,
      unat mvendorid := 0x1337,
      unat marchid := 0x6502,
      unat mimpid := 0x777,
      unat mhartid := 0,
      unat mstatus := 0,
      unat mtvec := ucast (RAM_START - 4),
      unat mie := 0x888,
      unat mip := 0,
      unat mcause := 0,
      unat mepc := 0,
      unat mscratch := 0,
      unat mtval := 0)\<rparr>"

section \<open>The CSR device\<close>

definition csr_mmio_device :: mmio_device_t where
  "csr_mmio_device =
     \<lparr>base_address = ucast CSR_MMAP_BASE_ADDR, dev_size = 0x1000, dev_perm = READ OR WRITE,
      dev_state = READY, dev_driver = Csr_Driver\<rparr>"

definition csr_mmio_init :: "mmio_device_t \<Rightarrow> mmio_device_t" where
  "csr_mmio_init dev = dev\<lparr>dev_state := READY\<rparr>"

definition csr_mmio_read_single ::
    "mmio_device_t \<Rightarrow> u32 \<Rightarrow> memory_access_width_t \<Rightarrow> u32 \<times> mmio_device_t" where
  "csr_mmio_read_single dev offs aw = (0, dev\<lparr>dev_state := ERROR\<rparr>)"

definition csr_mmio_write_single ::
    "mmio_device_t \<Rightarrow> u32 \<Rightarrow> u32 \<Rightarrow> memory_access_width_t \<Rightarrow> mmio_device_t" where
  "csr_mmio_write_single dev offs v aw = dev\<lparr>dev_state := ERROR\<rparr>"

text \<open>The two block operations exist but no device table refers to them.\<close>

definition csr_mmio_read ::
    "mmio_device_t \<Rightarrow> u32 \<Rightarrow> u64 \<Rightarrow> memory_access_width_t \<Rightarrow> u32 \<times> mmio_device_t" where
  "csr_mmio_read dev offs sz aw = (0, dev\<lparr>dev_state := ERROR\<rparr>)"

definition csr_mmio_write ::
    "mmio_device_t \<Rightarrow> u32 \<Rightarrow> u8 list \<Rightarrow> u64 \<Rightarrow> memory_access_width_t \<Rightarrow> u32 \<times> mmio_device_t" where
  "csr_mmio_write dev offs buf count aw = (0, dev\<lparr>dev_state := ERROR\<rparr>)"

section \<open>The contract of the register operations\<close>

locale csr_op =
  fixes opr :: "csr_t \<Rightarrow> u32 \<Rightarrow> 'v::len word \<Rightarrow> ('v word \<times> csr_t) res"
    and upd :: "u64 \<Rightarrow> 'v word \<Rightarrow> u64"
  assumes opr_in: "unat addr < csr_mmode_max \<Longrightarrow> opr csr addr v =
      Inr (ucast (csr_state csr (unat addr)),
           csr\<lparr>csr_state := (csr_state csr)(unat addr := upd (csr_state csr (unat addr)) v)\<rparr>)"
    and opr_out: "\<not> unat addr < csr_mmode_max \<Longrightarrow> opr csr addr v = Inl Out_Of_Bounds"
begin

lemma opr_old: "opr csr addr v = Inr (r, csr') \<Longrightarrow> r = ucast (csr_state csr (unat addr))"
  by (cases "unat addr < csr_mmode_max") (auto simp: opr_in opr_out)

lemma opr_new:
  "opr csr addr v = Inr (r, csr') \<Longrightarrow>
   csr_state csr' k = (if k = unat addr then upd (csr_state csr k) v else csr_state csr k)"
  by (cases "unat addr < csr_mmode_max") (auto simp: opr_in opr_out)

lemma opr_total: "(\<exists>r csr'. opr csr addr v = Inr (r, csr')) \<longleftrightarrow> unat addr < csr_mmode_max"
  by (cases "unat addr < csr_mmode_max") (auto simp: opr_in opr_out)

text \<open>A register that is written and read again.\<close>

lemma opr_then_read:
  assumes "opr csr addr v = Inr (r, csr')"
  shows "csr_get csr' addr = Inr (upd (csr_state csr (unat addr)) v)"
proof -
  have "unat addr < csr_mmode_max" using assms opr_total by blast
  then show ?thesis using opr_new [OF assms, of "unat addr"] by (simp add: csr_get_def)
qed

end

interpretation csr_rw32: csr_op csr_read_write32 "\<lambda>x v. ucast v"
  by unfold_locales (simp_all add: csr_read_write32_def csr_get_def csr_put_def)

interpretation csr_rs32: csr_op csr_read_set32 "\<lambda>x v. x OR ucast v"
  by unfold_locales (simp_all add: csr_read_set32_def csr_get_def csr_put_def)

interpretation csr_rc32: csr_op csr_read_clear32 "\<lambda>x v. x AND ucast (NOT v)"
  by unfold_locales (simp_all add: csr_read_clear32_def csr_get_def csr_put_def)

interpretation csr_rw64: csr_op csr_read_write64 "\<lambda>x v. v"
  by unfold_locales (simp_all add: csr_read_write64_def csr_get_def csr_put_def)

interpretation csr_rs64: csr_op csr_read_set64 "\<lambda>x v. x OR v"
  by unfold_locales (simp_all add: csr_read_set64_def csr_get_def csr_put_def)

interpretation csr_rc64: csr_op csr_read_clear64 "\<lambda>x v. x AND NOT v"
  by unfold_locales (simp_all add: csr_read_clear64_def csr_get_def csr_put_def)

lemma and_ucast_not_low:
  "ucast (x AND ucast (NOT m) :: u64) = (ucast x AND NOT m :: u32)"
  by (rule bit_word_eqI) (auto simp: bit_simps)

lemma and_ucast_not_high: "n \<ge> 32 \<Longrightarrow> \<not> bit (x AND ucast (NOT (m :: u32)) :: u64) n"
  by (auto simp: bit_simps dest: bit_imp_le_length)

text \<open>
  C29. The 32-bit register operations return the low half of the register and change no
  other register. Writing and setting update the low half as a RISC-V CSR instruction does;
  \<open>csr_read_write32\<close> and \<open>csr_read_clear32\<close> clear the high half, so clearing with an
  empty mask, which the trap code uses to read, destroys the upper 32 bits.
\<close>

theorem csr_ops32:
  assumes "unat addr < csr_mmode_max"
  shows "\<exists>c1 c2 c3. csr_read_write32 csr addr v = Inr (ucast (csr_state csr (unat addr)), c1)
    \<and> csr_read_set32 csr addr v = Inr (ucast (csr_state csr (unat addr)), c2)
    \<and> csr_read_clear32 csr addr v = Inr (ucast (csr_state csr (unat addr)), c3)
    \<and> csr_state c1 (unat addr) = ucast v
    \<and> ucast (csr_state c2 (unat addr)) = (ucast (csr_state csr (unat addr)) OR v)
    \<and> ucast (csr_state c3 (unat addr)) = (ucast (csr_state csr (unat addr)) AND NOT v)
    \<and> drop_bit 32 (csr_state c2 (unat addr)) = drop_bit 32 (csr_state csr (unat addr))
    \<and> drop_bit 32 (csr_state c3 (unat addr)) = 0
    \<and> (\<forall>k. k \<noteq> unat addr \<longrightarrow> csr_state c1 k = csr_state csr k \<and> csr_state c2 k = csr_state csr k
          \<and> csr_state c3 k = csr_state csr k)"
proof -
  have lo: "ucast (x OR ucast v :: u64) = (ucast x OR v :: u32)" for x
    by (rule bit_word_eqI) (auto simp: bit_simps)
  have hi: "drop_bit 32 (ucast (w :: u32) :: u64) = 0" for w
    by (rule bit_word_eqI) (auto simp: bit_simps dest: bit_imp_le_length)
  show ?thesis
    unfolding csr_rw32.opr_in [OF assms] csr_rs32.opr_in [OF assms] csr_rc32.opr_in [OF assms]
    by (intro exI conjI) (rule refl | simp add: lo hi and_ucast_not_low)+
qed

theorem csr_ops32_witness:
  "\<exists>c. csr_read_clear32 \<lparr>csr_state = \<lambda>_. 0x500000008\<rparr> mcause 0 = Inr (8, c) \<and>
    drop_bit 32 (csr_state c 0x342) = 0 \<and> csr_state c 0x341 = 0x500000008"
  using csr_ops32 [of mcause "\<lparr>csr_state = \<lambda>_. 0x500000008\<rparr>" 0] by auto

end
