(* ===== verification/Bus.thy ===== *)
theory Bus
  imports Csr
begin

text \<open>
  The system bus of \<^verbatim>\<open>src/bus.c\<close> and \<^verbatim>\<open>src/bus.h\<close>: a list of devices, a mutex and
  a status. An access finds the first device whose address range holds the address and
  hands the access to it under the mutex.

  The linked list is a list, a pointer into it is an index. Locking a mutex that is held
  blocks for ever (\<open>Deadlock\<close>): one core runs, and the thread that set the machine up
  only waits for it. The memory behind the RAM device's \<open>user\<close> pointer, which is also
  \<open>emu->mmu\<close>, is the field \<open>ram_mmu\<close>.
\<close>

section \<open>State\<close>

datatype bus_status_t =
    BUS_OK | BUS_READ_MISALIGNED | BUS_WRITE_MISALIGNED | BUS_ADDRESS_NOT_FOUND
  | BUS_ACCESS_DENIED | BUS_DEVICE_FAILURE

record bus_t =
  mmio_devices :: "mmio_device_t list"
  mutex_held :: bool
  bus_status :: bus_status_t
  ram_mmu :: mmu_t

section \<open>Calls through the device tables\<close>

fun dev_init :: "mmio_device_t \<Rightarrow> mmio_device_t" where
  "dev_init d = (case dev_driver d of Ram_Driver \<Rightarrow> init_ram d | Csr_Driver \<Rightarrow> csr_mmio_init d)"

fun dev_read_single ::
    "u8 \<Rightarrow> mmio_device_t \<Rightarrow> mmu_t \<Rightarrow> u32 \<Rightarrow> memory_access_width_t
     \<Rightarrow> (u32 \<times> mmio_device_t \<times> mmu_t) res" where
  "dev_read_single indet d m offs aw =
     (case dev_driver d of
        Ram_Driver \<Rightarrow> read_ram_single indet d m offs aw
      | Csr_Driver \<Rightarrow> (case csr_mmio_read_single d offs aw of (r, d') \<Rightarrow> Inr (r, d', m)))"

fun dev_write_single ::
    "mmio_device_t \<Rightarrow> mmu_t \<Rightarrow> u32 \<Rightarrow> u32 \<Rightarrow> memory_access_width_t
     \<Rightarrow> (mmio_device_t \<times> mmu_t) res" where
  "dev_write_single d m offs v aw =
     (case dev_driver d of
        Ram_Driver \<Rightarrow> write_ram_single d m offs v aw
      | Csr_Driver \<Rightarrow> Inr (csr_mmio_write_single d offs v aw, m))"

text \<open>The CSR device's table leaves \<open>read\<close> and \<open>write\<close> null.\<close>

fun dev_read ::
    "mmio_device_t \<Rightarrow> mmu_t \<Rightarrow> u32 \<Rightarrow> u64 \<Rightarrow> memory_access_width_t
     \<Rightarrow> (u64 \<times> u8 list option \<times> mmio_device_t \<times> mmu_t) res" where
  "dev_read d m offs count aw =
     (case dev_driver d of
        Ram_Driver \<Rightarrow> read_ram d m offs count aw
      | Csr_Driver \<Rightarrow> Inl Null_Deref)"

fun dev_write ::
    "mmio_device_t \<Rightarrow> mmu_t \<Rightarrow> u32 \<Rightarrow> u8 list \<Rightarrow> u64 \<Rightarrow> memory_access_width_t
     \<Rightarrow> (u64 \<times> mmio_device_t \<times> mmu_t) res" where
  "dev_write d m offs buf count aw =
     (case dev_driver d of
        Ram_Driver \<Rightarrow> write_ram d m offs buf count aw
      | Csr_Driver \<Rightarrow> Inl Null_Deref)"

section \<open>Operations\<close>

definition bus_init :: "bus_t \<Rightarrow> bus_t" where
  "bus_init b = b\<lparr>mmio_devices := map dev_init (mmio_devices b), mutex_held := False\<rparr>"

definition bus_lock :: "bus_t \<Rightarrow> bus_t res" where
  "bus_lock b = (if mutex_held b then Inl Deadlock else Inr (b\<lparr>mutex_held := True\<rparr>))"

definition bus_unlock :: "bus_t \<Rightarrow> bus_t" where
  "bus_unlock b = b\<lparr>mutex_held := False\<rparr>"

definition bus_begin_write :: "bus_t \<Rightarrow> bus_t res" where
  "bus_begin_write b = bus_lock b"

definition bus_end_write :: "bus_t \<Rightarrow> bus_t" where
  "bus_end_write b = bus_unlock b"

definition bus_begin_read :: "bus_t \<Rightarrow> bus_t res" where
  "bus_begin_read b = bus_lock b"

definition bus_end_read :: "bus_t \<Rightarrow> bus_t" where
  "bus_end_read b = bus_unlock b"

definition covers :: "mmio_device_t \<Rightarrow> u64 \<Rightarrow> bool" where
  "covers d offs \<longleftrightarrow> ucast (base_address d) \<le> offs \<and> offs < ucast (base_address d + dev_size d)"

fun find_dev :: "mmio_device_t list \<Rightarrow> u64 \<Rightarrow> nat option" where
  "find_dev [] offs = None"
| "find_dev (d # ds) offs = (if covers d offs then Some 0 else map_option Suc (find_dev ds offs))"

definition bus_find_device :: "bus_t \<Rightarrow> u64 \<Rightarrow> nat option \<times> bus_t" where
  "bus_find_device b offs =
     (case find_dev (mmio_devices b) offs of
        Some k \<Rightarrow> (Some k, b\<lparr>bus_status := BUS_OK\<rparr>)
      | None \<Rightarrow> (None, b\<lparr>bus_status := BUS_ADDRESS_NOT_FOUND\<rparr>))"

text \<open>The device object behind a pointer, and the objects after a call has changed them.\<close>

definition the_dev :: "bus_t \<Rightarrow> nat option \<Rightarrow> mmio_device_t res" where
  "the_dev b k = (case k of None \<Rightarrow> Inl Null_Deref | Some i \<Rightarrow> arr_get (mmio_devices b) i)"

definition put_dev :: "bus_t \<Rightarrow> nat option \<Rightarrow> mmio_device_t \<Rightarrow> mmu_t \<Rightarrow> bus_t" where
  "put_dev b k d m =
     (case k of None \<Rightarrow> b
      | Some i \<Rightarrow> b\<lparr>mmio_devices := (mmio_devices b)[i := d], ram_mmu := m\<rparr>)"

definition bus_read_single ::
    "u8 \<Rightarrow> bus_t \<Rightarrow> u64 \<Rightarrow> memory_access_width_t \<Rightarrow> (u32 \<times> bus_t) res" where
  "bus_read_single indet b offs aw =
     rbind (bus_begin_read b) (\<lambda>b1.
     let (dev, b2) = bus_find_device b1 offs in
     if bus_status b2 \<noteq> BUS_OK then Inr (0x0badc0de, bus_end_read b2)
     else
       rbind (the_dev b2 dev) (\<lambda>d.
       rbind (dev_read_single indet d (ram_mmu b2) (ucast offs) aw) (\<lambda>(r, d', m').
       Inr (r, bus_end_read (put_dev b2 dev d' m')))))"

definition bus_read_multiple ::
    "bus_t \<Rightarrow> u64 \<Rightarrow> u64 \<Rightarrow> memory_access_width_t \<Rightarrow> (u64 \<times> u8 list option \<times> bus_t) res" where
  "bus_read_multiple b offs count aw =
     rbind (bus_begin_read b) (\<lambda>b1.
     let (dev, b2) = bus_find_device b1 offs in
     if bus_status b2 \<noteq> BUS_OK then Inr (0, None, bus_end_read b2)
     else
       let b3 = b2\<lparr>bus_status := BUS_OK\<rparr> in
       rbind (the_dev b3 dev) (\<lambda>d.
       rbind (dev_read d (ram_mmu b3) (ucast offs) count aw) (\<lambda>(n, bs, d', m').
       let b4 = put_dev b3 dev d' m' in
       if n \<noteq> count then Inr (0, bs, bus_end_read (b4\<lparr>bus_status := BUS_DEVICE_FAILURE\<rparr>))
       else Inr (count, bs, bus_end_read b4))))"

definition bus_write_single ::
    "bus_t \<Rightarrow> u64 \<Rightarrow> u32 \<Rightarrow> memory_access_width_t \<Rightarrow> bus_t res" where
  "bus_write_single b offs v aw =
     rbind (bus_begin_write b) (\<lambda>b1.
     let (dev, b2) = bus_find_device b1 offs in
     if bus_status b2 \<noteq> BUS_OK then Inr (bus_end_write b2)
     else
       rbind (the_dev b2 dev) (\<lambda>d.
       if dev_perm d AND WRITE \<noteq> WRITE then
         rbind (c_assert (dev_perm d AND WRITE = WRITE)) (\<lambda>_. Inr b2)
       else
         rbind (dev_write_single d (ram_mmu b2) (ucast offs) v aw) (\<lambda>(d', m').
         Inr (bus_end_write (put_dev b2 dev d' m')))))"

text \<open>
  When the device accepts fewer units than asked for, \<open>bus_write_multiple\<close> returns without
  \<open>bus_end_write\<close>, and the mutex stays held.
\<close>

definition bus_write_multiple ::
    "bus_t \<Rightarrow> u64 \<Rightarrow> u8 list \<Rightarrow> u64 \<Rightarrow> memory_access_width_t \<Rightarrow> (u64 \<times> bus_t) res" where
  "bus_write_multiple b offs src count aw =
     rbind (bus_begin_write b) (\<lambda>b1.
     let (dev, b2) = bus_find_device b1 offs in
     if bus_status b2 \<noteq> BUS_OK \<or> dev = None then Inr (0, bus_end_write b2)
     else
       rbind (the_dev b2 dev) (\<lambda>d.
       if dev_perm d AND WRITE \<noteq> WRITE then
         let b3 = b2\<lparr>bus_status := BUS_ACCESS_DENIED\<rparr> in
         rbind (c_assert (dev_perm d AND WRITE = WRITE)) (\<lambda>_. Inr (0, b3))
       else
         rbind (c_assert (dev_state d = READY)) (\<lambda>_.
         rbind (dev_write d (ram_mmu b2) (ucast offs) src count aw) (\<lambda>(n, d', m').
         let b4 = put_dev b2 dev d' m' in
         if n \<noteq> count then Inr (0, b4\<lparr>bus_status := BUS_DEVICE_FAILURE\<rparr>)
         else Inr (count, bus_end_write (b4\<lparr>bus_status := BUS_OK\<rparr>))))))"

text \<open>
  \<open>bus_read_string\<close> stores into \<open>dst\<close> without knowing its size: \<open>cap\<close> is the
  size of the object behind \<open>dst\<close>, and a store at index \<open>cap\<close> leaves it. The loop
  ends because it runs off the buffer if nothing else ends it. The result is the number of
  bytes stored and the bytes. Iteration \<open>i\<close> may see the indeterminate byte
  \<open>indet i\<close>. A \<open>char\<close> is the low byte of the word that was read.
\<close>

function read_string_loop ::
    "(nat \<Rightarrow> u8) \<Rightarrow> bus_t \<Rightarrow> u64 \<Rightarrow> nat \<Rightarrow> nat \<Rightarrow> u8 list \<Rightarrow> (u8 list \<times> bus_t) res" where
  "read_string_loop indet b offs cap i acc =
     rbind (bus_read_single (indet i) b (offs + of_nat i) BYTE) (\<lambda>(w, b').
     let c = ucast w :: u8 in
     if i < cap then
       (if c \<noteq> 0 \<and> bus_status b' = BUS_OK
        then read_string_loop indet b' offs cap (Suc i) (acc @ [c])
        else Inr (acc @ [c], b'))
     else Inl Out_Of_Bounds)"
  by pat_completeness auto
termination
  by (relation "measure (\<lambda>(indet, b, offs, cap, i, acc). cap - i)") auto

declare read_string_loop.simps [simp del]

definition bus_read_string ::
    "(nat \<Rightarrow> u8) \<Rightarrow> bus_t \<Rightarrow> u64 \<Rightarrow> nat \<Rightarrow> (u64 \<times> u8 list \<times> bus_t) res" where
  "bus_read_string indet b offs cap =
     (if cap = 0 then Inl Out_Of_Bounds
      else rbind (read_string_loop indet b offs cap 0 []) (\<lambda>(bs, b').
           Inr (of_nat (length bs), bs, b')))"

end
