(* ===== verification/Bus_Spec.thy ===== *)
theory Bus_Spec
  imports Bus
begin

text \<open>
  What the RAM device and the bus promise: the interface \<open>mmio_driver\<close> that both device
  tables and the dispatch over them provide, the invariant of the bus, the bus as a
  \<open>byte_store\<close>, and the behaviour of its error paths.
\<close>

section \<open>The RAM device over the memory\<close>

definition rd_fault :: "mmu_t \<Rightarrow> vaddr_t \<Rightarrow> nat \<Rightarrow> mmu_state_t" where
  "rd_fault m a n = (if in_block m a n then ACCESS_DENIED else WRITE_PAGE_FAULT)"

definition wr_fault :: "mmu_t \<Rightarrow> vaddr_t \<Rightarrow> nat \<Rightarrow> mmu_state_t" where
  "wr_fault m a n = (if in_block m a n then ACCESS_DENIED else READ_PAGE_FAULT)"

lemma rd_fault_not_ok [simp]: "rd_fault m a n \<noteq> MMU_OK" "wr_fault m a n \<noteq> MMU_OK"
  by (simp_all add: rd_fault_def wr_fault_def)

lemma mmu_read_into_rd:
  assumes wf: "mmu_wf m" and n: "0 < unat n" "unat n < 2 ^ 32"
  shows "mmu_read_into m a n =
    (case mmu_rd m a (unat n) of
       Some bs \<Rightarrow> Inr (n, Some bs, m\<lparr>mmu_state := MMU_OK\<rparr>)
     | None \<Rightarrow> Inr (0, None, m\<lparr>mmu_state := rd_fault m a (unat n)\<rparr>))"
  using n by (auto simp: mmu_read_into_eq [OF wf] mmu_rd_eq [OF wf n] rd_fault_def)

lemma mmu_write_from_wr:
  assumes wf: "mmu_wf m" and n: "unat n < 2 ^ 32" and len: "length src = unat n"
  shows "mmu_write_from m src a n =
    (case mmu_wr m a src of
       Some m' \<Rightarrow> Inr (n, m')
     | None \<Rightarrow> Inr (0, m\<lparr>mmu_state := wr_fault m a (unat n)\<rparr>))"
  using n len by (auto simp: mmu_write_from_eq [OF wf] mmu_wr_eq [OF wf] wr_fault_def)

lemma mmu_wr_state: "mmu_wr m a bs = Some m' \<Longrightarrow> mmu_state m' = MMU_OK"
  by (auto simp: mmu_wr_def split: if_splits sum.splits)

lemma unat_count_width:
  assumes "unat count * width_bytes aw < 2 ^ 32"
  shows "unat (count * width_mult aw) = unat count * width_bytes aw"
proof -
  have "unat count < 2 ^ 33"
    using assms by (cases aw) (simp_all add: width_bytes_def)
  then show ?thesis by (rule unat_mult_width)
qed

lemma read_ram_eq:
  assumes wf: "mmu_wf m" and n: "0 < unat count" "unat count * width_bytes aw < 2 ^ 32"
  shows "read_ram d m a count aw =
    (case mmu_rd m a (unat count * width_bytes aw) of
       Some bs \<Rightarrow> Inr (count, Some bs, d\<lparr>dev_state := READY\<rparr>, m\<lparr>mmu_state := MMU_OK\<rparr>)
     | None \<Rightarrow> Inr (0, None, d\<lparr>dev_state := ERROR\<rparr>,
                m\<lparr>mmu_state := rd_fault m a (unat count * width_bytes aw)\<rparr>))"
proof -
  have u: "unat (count * width_mult aw) = unat count * width_bytes aw"
    using n(2) by (rule unat_count_width)
  have "0 < unat (count * width_mult aw)"
    using u n(1) width_bytes_bounds(1) [of aw] by simp
  then show ?thesis
    using mmu_read_into_rd [OF wf, of "count * width_mult aw" a] n(2) u
    by (simp add: read_ram_def Let_def split: option.split)
qed

lemma write_ram_eq:
  assumes wf: "mmu_wf m" and n: "unat count * width_bytes aw < 2 ^ 32"
    and len: "length buf = unat count * width_bytes aw"
  shows "write_ram d m a buf count aw =
    (case mmu_wr m a buf of
       Some m' \<Rightarrow> Inr (count * width_mult aw, d\<lparr>dev_state := READY\<rparr>, m')
     | None \<Rightarrow> Inr (0, d\<lparr>dev_state := ERROR\<rparr>, m\<lparr>mmu_state := wr_fault m a (length buf)\<rparr>))"
proof -
  have u: "unat (count * width_mult aw) = length buf"
    using unat_count_width [OF n] len by simp
  have w: "mmu_write_from m buf a (count * width_mult aw) =
    (case mmu_wr m a buf of
       Some m' \<Rightarrow> Inr (count * width_mult aw, m')
     | None \<Rightarrow> Inr (0, m\<lparr>mmu_state := wr_fault m a (length buf)\<rparr>))"
    using mmu_write_from_wr [OF wf, of "count * width_mult aw" buf a] n len u
    by (simp split: option.split)
  show ?thesis
  proof (cases "mmu_wr m a buf")
    case None
    with w show ?thesis by (simp add: write_ram_def)
  next
    case (Some m')
    with w mmu_wr_state [OF Some] show ?thesis by (simp add: write_ram_def)
  qed
qed

lemma word_of_bytes_zeros: "word_of_bytes (bs @ replicate k 0) = word_of_bytes bs"
proof (induction bs)
  case Nil
  then show ?case by (induction k) simp_all
qed simp

lemma blit_0: "length b \<le> length old \<Longrightarrow> blit 0 b old = b @ drop (length b) old"
  by (simp add: blit_def)

lemma read_ram_single_eq:
  assumes wf: "mmu_wf m"
  shows "read_ram_single indet d m a aw =
    (case mmu_rd m a (width_bytes aw) of
       Some bs \<Rightarrow> Inr (word_of_bytes bs, d\<lparr>dev_state := READY\<rparr>, m\<lparr>mmu_state := MMU_OK\<rparr>)
     | None \<Rightarrow> Inr (if aw = BYTE then ucast indet else 0, d\<lparr>dev_state := ERROR\<rparr>,
                m\<lparr>mmu_state := rd_fault m a (width_bytes aw)\<rparr>))"
proof -
  have one: "read_ram d m a 1 aw =
    (case mmu_rd m a (width_bytes aw) of
       Some bs \<Rightarrow> Inr (1, Some bs, d\<lparr>dev_state := READY\<rparr>, m\<lparr>mmu_state := MMU_OK\<rparr>)
     | None \<Rightarrow> Inr (0, None, d\<lparr>dev_state := ERROR\<rparr>, m\<lparr>mmu_state := rd_fault m a (width_bytes aw)\<rparr>))"
    using read_ram_eq [OF wf, of 1 aw d a] width_bytes_bounds(2) [of aw]
    by (simp split: option.split)
  show ?thesis
  proof (cases "mmu_rd m a (width_bytes aw)")
    case None
    then show ?thesis using one by (cases aw) (simp_all add: read_ram_single_def buf_word_def)
  next
    case (Some bs)
    have len: "length bs = width_bytes aw"
      using mmu_store.rd_Some [OF wf Some] by simp
    have "word_of_bytes (bs @ [0, 0]) = word_of_bytes bs"
      using word_of_bytes_zeros [of bs 2] by (simp add: numeral_2_eq_2)
    then show ?thesis
      using one Some len
      by (cases aw) (simp_all add: read_ram_single_def buf_word_def blit_0 width_bytes_def)
  qed
qed

lemma write_ram_single_mmu:
  assumes wf: "mmu_wf m"
  shows "write_ram_single d m a v aw =
    (case mmu_wr m a (bytes_of_word (width_bytes aw) v) of
       Some m' \<Rightarrow> Inr (d\<lparr>dev_state := READY\<rparr>, m')
     | None \<Rightarrow> Inr (d\<lparr>dev_state := ERROR\<rparr>, m\<lparr>mmu_state := wr_fault m a (width_bytes aw)\<rparr>))"
  using write_ram_eq [OF wf, of 1 aw "bytes_of_word (width_bytes aw) v" d a]
    width_bytes_bounds(2) [of aw]
  by (simp add: write_ram_single_eq split: option.split)

section \<open>The interface of a device table\<close>

text \<open>
  A device may change its state field and what is behind its \<open>user\<close> pointer, never its
  place on the bus; a single read changes no byte and no permission of the memory.
\<close>

definition same_slot :: "mmio_device_t \<Rightarrow> mmio_device_t \<Rightarrow> bool" where
  "same_slot d' d \<longleftrightarrow> base_address d' = base_address d \<and> dev_size d' = dev_size d
     \<and> dev_perm d' = dev_perm d \<and> dev_driver d' = dev_driver d"

definition same_block :: "mmu_t \<Rightarrow> mmu_t \<Rightarrow> bool" where
  "same_block m' m \<longleftrightarrow> mmu_base m' = mmu_base m \<and> mmu_size m' = mmu_size m
     \<and> mmu_curr_vaddr m' = mmu_curr_vaddr m"

definition same_memory :: "mmu_t \<Rightarrow> mmu_t \<Rightarrow> bool" where
  "same_memory m' m \<longleftrightarrow> same_block m' m \<and> mmu_data m' = mmu_data m \<and> mmu_perm m' = mmu_perm m
     \<and> mmu_dirty m' = mmu_dirty m"

lemma same_slot_simps [simp]:
  "same_slot (d\<lparr>dev_state := st\<rparr>) d" "same_slot d d"
  by (simp_all add: same_slot_def)

lemma same_memory_simps [simp]:
  "same_memory (m\<lparr>mmu_state := st\<rparr>) m" "same_memory m m" "same_block m m"
  "same_block (m\<lparr>mmu_state := st\<rparr>) m" "same_block (mmu_written m bs a) m"
  by (simp_all add: same_memory_def same_block_def)

lemma same_memoryD:
  assumes "same_memory m' m"
  shows "mmu_wf m' = mmu_wf m" "mmu_abs m' = mmu_abs m" "mmu_rd m' a n = mmu_rd m a n"
    "same_block m' m" "in_block m' a n = in_block m a n" "allowed m' a n p = allowed m a n p"
proof -
  have m: "mmu_base m' = mmu_base m" "mmu_size m' = mmu_size m" "mmu_data m' = mmu_data m"
    "mmu_perm m' = mmu_perm m" "mmu_dirty m' = mmu_dirty m" "mmu_curr_vaddr m' = mmu_curr_vaddr m"
    using assms by (simp_all add: same_memory_def same_block_def)
  show "mmu_wf m' = mmu_wf m" by (simp add: mmu_wf_def m)
  show "mmu_abs m' = mmu_abs m" by (rule ext) (simp add: mmu_abs_def m)
  show "same_block m' m" by (simp add: same_block_def m)
  show "in_block m' a n = in_block m a n" by (simp add: in_block_def m)
  show "allowed m' a n p = allowed m a n p" by (simp add: allowed_def offset_def m)
  show "mmu_rd m' a n = mmu_rd m a n"
    by (cases "mmu_check_access m a (of_nat n) MPERM_READ"; cases "mem_get (unat (a - mmu_base m)) (unat (of_nat n :: u64)) (mmu_data m)")
      (simp_all add: mmu_rd_def mmu_read_into_def mmu_check_access_def Let_def m)
qed

locale mmio_driver =
  fixes ini :: "mmio_device_t \<Rightarrow> mmio_device_t"
    and rd1 :: "u8 \<Rightarrow> mmio_device_t \<Rightarrow> mmu_t \<Rightarrow> u32 \<Rightarrow> memory_access_width_t
                \<Rightarrow> (u32 \<times> mmio_device_t \<times> mmu_t) res"
    and wr1 :: "mmio_device_t \<Rightarrow> mmu_t \<Rightarrow> u32 \<Rightarrow> u32 \<Rightarrow> memory_access_width_t
                \<Rightarrow> (mmio_device_t \<times> mmu_t) res"
  assumes ini_ready: "same_slot (ini d) d \<and> dev_state (ini d) = READY"
    and rd1_total: "mmu_wf m \<Longrightarrow> \<exists>r d' m'. rd1 j d m a aw = Inr (r, d', m') \<and> same_slot d' d
      \<and> same_memory m' m"
    and wr1_total: "mmu_wf m \<Longrightarrow> \<exists>d' m'. wr1 d m a v aw = Inr (d', m') \<and> same_slot d' d
      \<and> mmu_wf m' \<and> same_block m' m"
begin

lemma rd1_keeps:
  assumes "mmu_wf m" and "rd1 j d m a aw = Inr (r, d', m')"
  shows "same_slot d' d" "same_memory m' m" "mmu_wf m'"
  using rd1_total [OF assms(1), of j d a aw] assms same_memoryD(1) by auto

lemma wr1_keeps:
  assumes "mmu_wf m" and "wr1 d m a v aw = Inr (d', m')"
  shows "same_slot d' d" "mmu_wf m'" "same_block m' m"
  using wr1_total [OF assms(1), of d a v aw] assms(2) by auto

text \<open>No access moves a device on the bus.\<close>

lemma rd1_covers:
  "mmu_wf m \<Longrightarrow> rd1 j d m a aw = Inr (r, d', m') \<Longrightarrow> covers d' x = covers d x"
  using rd1_keeps(1) by (auto simp: covers_def same_slot_def)

lemma wr1_covers:
  "mmu_wf m \<Longrightarrow> wr1 d m a v aw = Inr (d', m') \<Longrightarrow> covers d' x = covers d x"
  using wr1_keeps(1) by (auto simp: covers_def same_slot_def)

end

interpretation ram_driver: mmio_driver init_ram read_ram_single write_ram_single
proof
  fix m d j a aw v
  show "same_slot (init_ram d) d \<and> dev_state (init_ram d) = READY"
    by (simp add: init_ram_def)
  assume wf: "mmu_wf m"
  show "\<exists>r d' m'. read_ram_single j d m a aw = Inr (r, d', m') \<and> same_slot d' d \<and> same_memory m' m"
    by (auto simp: read_ram_single_eq [OF wf] split: option.split)
  show "\<exists>d' m'. write_ram_single d m a v aw = Inr (d', m') \<and> same_slot d' d \<and> mmu_wf m'
      \<and> same_block m' m"
    using mmu_store.invar_wr [OF wf] mmu_wr_SomeD(4) [OF wf] wf
    by (fastforce simp: write_ram_single_mmu [OF wf] split: option.split)
qed

interpretation csr_driver: mmio_driver csr_mmio_init
  "\<lambda>j d m a aw. case csr_mmio_read_single d a aw of (r, d') \<Rightarrow> Inr (r, d', m)"
  "\<lambda>d m a v aw. Inr (csr_mmio_write_single d a v aw, m)"
  by unfold_locales
    (simp_all add: csr_mmio_init_def csr_mmio_read_single_def csr_mmio_write_single_def)

interpretation any_driver: mmio_driver dev_init dev_read_single dev_write_single
proof
  fix m d j a aw v
  show "same_slot (dev_init d) d \<and> dev_state (dev_init d) = READY"
    using ram_driver.ini_ready csr_driver.ini_ready by (simp split: driver_t.split)
  assume wf: "mmu_wf m"
  show "\<exists>r d' m'. dev_read_single j d m a aw = Inr (r, d', m') \<and> same_slot d' d \<and> same_memory m' m"
    using ram_driver.rd1_total [OF wf] csr_driver.rd1_total [OF wf] by (simp split: driver_t.split)
  show "\<exists>d' m'. dev_write_single d m a v aw = Inr (d', m') \<and> same_slot d' d \<and> mmu_wf m'
      \<and> same_block m' m"
    using ram_driver.wr1_total [OF wf] csr_driver.wr1_total [OF wf] by (simp split: driver_t.split)
qed

section \<open>The invariant of the bus\<close>

text \<open>
  Between accesses the mutex is free, the memory is well-formed, and the list of devices
  starts with the writable RAM device over exactly that memory; the other devices are
  writable and not RAM.
\<close>

definition ram_slot :: "mmio_device_t \<Rightarrow> mmu_t \<Rightarrow> bool" where
  "ram_slot d m \<longleftrightarrow> dev_driver d = Ram_Driver \<and> base_address d = mmu_base m \<and>
     ucast (dev_size d) = mmu_size m \<and> dev_perm d AND WRITE = WRITE"

definition other_slot :: "mmio_device_t \<Rightarrow> bool" where
  "other_slot d \<longleftrightarrow> dev_driver d = Csr_Driver \<and> dev_perm d AND WRITE = WRITE"

definition bus_wf :: "bus_t \<Rightarrow> bool" where
  "bus_wf b \<longleftrightarrow> \<not> mutex_held b \<and> mmu_wf (ram_mmu b) \<and>
     (case mmio_devices b of [] \<Rightarrow> False
      | d # ds \<Rightarrow> ram_slot d (ram_mmu b) \<and> list_all other_slot ds)"

lemma bus_wfE:
  assumes "bus_wf b"
  obtains d ds where "mmio_devices b = d # ds" "ram_slot d (ram_mmu b)"
    "list_all other_slot ds" "mmu_wf (ram_mmu b)" "\<not> mutex_held b"
  using assms by (auto simp: bus_wf_def split: list.splits)

lemma bus_wf_status:
  "bus_wf b \<Longrightarrow> bus_wf (b\<lparr>bus_status := st\<rparr>)"
  "bus_wf b \<Longrightarrow> bus_wf (b\<lparr>bus_status := st, mutex_held := False\<rparr>)"
  by (cases "mmio_devices b"; simp add: bus_wf_def)+

lemma ram_slot_same:
  "same_slot d' d \<Longrightarrow> same_block m' m \<Longrightarrow> ram_slot d' m' = ram_slot d m"
  by (simp add: ram_slot_def same_slot_def same_block_def)

lemma ram_covers:
  assumes "ram_slot d m" and "mmu_wf m"
  shows "covers d (ucast a) \<longleftrightarrow> in_block m a 1"
proof -
  have sz: "unat (dev_size d) = unat (mmu_size m)"
    using assms(1) unat_ucast_vaddr [of "dev_size d"] by (simp add: ram_slot_def)
  have "unat (base_address d + dev_size d) = unat (mmu_base m) + unat (mmu_size m)"
    using assms sz unat_add_lem [of "base_address d" "dev_size d"]
    by (simp add: mmu_wf_def ram_slot_def)
  then show ?thesis
    using assms(1)
    by (auto simp: covers_def in_block_def word_le_nat_alt word_less_nat_alt ram_slot_def)
qed

lemma find_dev_Some:
  "find_dev ds x = Some k \<Longrightarrow> k < length ds \<and> covers (ds ! k) x \<and> (\<forall>j<k. \<not> covers (ds ! j) x)"
proof (induction ds arbitrary: k)
  case (Cons d ds)
  then show ?case
    by (cases "covers d x") (auto simp: less_Suc_eq_0_disj nth_Cons split: nat.splits)
qed simp

lemma find_dev_None: "find_dev ds x = None \<longleftrightarrow> (\<forall>d\<in>set ds. \<not> covers d x)"
  by (induction ds) auto

text \<open>
  \<open>bus_find_device\<close> returns the first device whose range, up to but not including
  \<open>base_address + size\<close> as a 32-bit sum, holds the address, with status \<open>BUS_OK\<close>; it
  returns no device exactly when no device covers the address, with status
  \<open>BUS_ADDRESS_NOT_FOUND\<close>. Nothing else changes.
\<close>

lemma bus_find_device_first:
  "case bus_find_device b x of
     (Some k, b') \<Rightarrow> b' = b\<lparr>bus_status := BUS_OK\<rparr> \<and> k < length (mmio_devices b)
        \<and> covers (mmio_devices b ! k) x \<and> (\<forall>j<k. \<not> covers (mmio_devices b ! j) x)
   | (None, b') \<Rightarrow> b' = b\<lparr>bus_status := BUS_ADDRESS_NOT_FOUND\<rparr>
        \<and> (\<forall>d\<in>set (mmio_devices b). \<not> covers d x)"
  using find_dev_Some [of "mmio_devices b" x] find_dev_None [of "mmio_devices b" x]
  by (auto simp: bus_find_device_def split: option.split)

text \<open>A bus with the RAM device over a given memory and the CSR device.\<close>

definition tiny_bus :: "mmu_t \<Rightarrow> bus_t" where
  "tiny_bus m = \<lparr>mmio_devices =
     [\<lparr>base_address = mmu_base m, dev_size = ucast (mmu_size m), dev_perm = READ OR WRITE,
       dev_state = READY, dev_driver = Ram_Driver\<rparr>, csr_mmio_device],
     mutex_held = False, bus_status = BUS_OK, ram_mmu = m\<rparr>"

lemma tiny_bus_simps [simp]:
  "ram_mmu (tiny_bus m) = m" "dev_state (hd (mmio_devices (tiny_bus m))) = READY"
  "\<not> mutex_held (tiny_bus m)" "length (mmio_devices (tiny_bus m)) = 2"
  by (simp_all add: tiny_bus_def)

lemma tiny_bus_wf [simp]: "mmu_wf m \<Longrightarrow> bus_wf (tiny_bus m)"
proof -
  assume wf: "mmu_wf m"
  then have "unat (mmu_size m) < 2 ^ 32" by (simp add: mmu_wf_def)
  then have "(ucast (ucast (mmu_size m) :: u32) :: u64) = mmu_size m"
    using take_bit_nat_eq_self [of "unat (mmu_size m)" 32]
    by (simp add: word_unat_eq_iff unsigned_ucast_eq unsigned_take_bit_eq)
  moreover have "(3 :: u32) AND 2 = 2" by code_simp
  ultimately show ?thesis
    using wf by (simp add: bus_wf_def tiny_bus_def ram_slot_def other_slot_def csr_mmio_device_def)
qed

section \<open>Accesses in RAM\<close>

text \<open>The bus after an access to the RAM device at the head of the list.\<close>

definition ram_after :: "bus_t \<Rightarrow> device_state_t \<Rightarrow> bus_status_t \<Rightarrow> mmu_t \<Rightarrow> bus_t" where
  "ram_after b st bst m =
     b\<lparr>mmio_devices := (hd (mmio_devices b))\<lparr>dev_state := st\<rparr> # tl (mmio_devices b),
       bus_status := bst, ram_mmu := m\<rparr>"

lemma ram_after_simps [simp]:
  "ram_mmu (ram_after b st bst m) = m" "bus_status (ram_after b st bst m) = bst"
  "mutex_held (ram_after b st bst m) = mutex_held b"
  by (simp_all add: ram_after_def)

text \<open>The RAM device's last access was granted.\<close>

definition bus_ready :: "bus_t \<Rightarrow> bool" where
  "bus_ready b \<longleftrightarrow> dev_state (hd (mmio_devices b)) = READY"

lemma bus_ready_ram_after [simp]: "bus_ready (ram_after b st bst m) \<longleftrightarrow> st = READY"
  by (simp add: bus_ready_def ram_after_def)

lemma bus_wf_ram_after:
  assumes "bus_wf b" and "mmu_wf m" and "same_block m (ram_mmu b)"
  shows "bus_wf (ram_after b st bst m)"
proof -
  from assms(1) obtain d ds where d: "mmio_devices b = d # ds" "ram_slot d (ram_mmu b)"
    "list_all other_slot ds" "\<not> mutex_held b"
    by (rule bus_wfE)
  have "ram_slot (d\<lparr>dev_state := st\<rparr>) m"
    using ram_slot_same [OF _ assms(3), of "d\<lparr>dev_state := st\<rparr>" d] d(2) by simp
  with d assms(2) show ?thesis by (simp add: bus_wf_def ram_after_def)
qed

text \<open>The address ranges of the devices, which no access changes.\<close>

definition dev_ranges :: "bus_t \<Rightarrow> (u32 \<times> u32) list" where
  "dev_ranges b = map (\<lambda>d. (base_address d, dev_size d)) (mmio_devices b)"

lemma dev_ranges_ram_after [simp]: "bus_wf b \<Longrightarrow> dev_ranges (ram_after b st bst m) = dev_ranges b"
  by (cases "mmio_devices b") (simp_all add: dev_ranges_def ram_after_def bus_wf_def)

lemma find_dev_ranges:
  assumes "dev_ranges b' = dev_ranges b"
  shows "find_dev (mmio_devices b') x = find_dev (mmio_devices b) x"
proof -
  have cov: "covers d x = covers e x" if "base_address d = base_address e" "dev_size d = dev_size e" for d e
    using that by (simp only: covers_def)
  have "find_dev ds x = find_dev es x" if "map (\<lambda>d. (base_address d, dev_size d)) ds
      = map (\<lambda>d. (base_address d, dev_size d)) es" for ds es
    using that
  proof (induction ds es rule: list_induct2')
    case (4 d ds e es)
    then show ?case using cov [of d e] by simp
  qed simp_all
  from this [OF assms [unfolded dev_ranges_def]] show ?thesis .
qed

lemma find_ram:
  assumes "bus_wf b" and "in_block (ram_mmu b) a 1"
  shows "find_dev (mmio_devices b) (ucast a) = Some 0"
  using assms ram_covers by (auto elim!: bus_wfE)

lemma bus_find_ram:
  assumes "bus_wf b" and "in_block (ram_mmu b) a 1"
  shows "bus_find_device (b\<lparr>mutex_held := h\<rparr>) (ucast a) = (Some 0, b\<lparr>mutex_held := h, bus_status := BUS_OK\<rparr>)"
  using find_ram [OF assms] by (simp add: bus_find_device_def)

lemmas bus_op_defs = bus_begin_read_def bus_begin_write_def bus_end_read_def bus_end_write_def
  bus_lock_def bus_unlock_def the_dev_def put_dev_def

lemma ucast_down_up [simp]: "ucast (ucast (a :: u32) :: u64) = a"
  by (rule bit_word_eqI) (simp add: bit_simps)

lemma bus_read_single_ram:
  assumes wf: "bus_wf b" and a: "in_block (ram_mmu b) a 1"
  shows "bus_read_single indet b (ucast a) aw =
    (case mmu_rd (ram_mmu b) a (width_bytes aw) of
       Some bs \<Rightarrow> Inr (word_of_bytes bs, ram_after b READY BUS_OK ((ram_mmu b)\<lparr>mmu_state := MMU_OK\<rparr>))
     | None \<Rightarrow> Inr (if aw = BYTE then ucast indet else 0,
         ram_after b ERROR BUS_OK
           ((ram_mmu b)\<lparr>mmu_state := rd_fault (ram_mmu b) a (width_bytes aw)\<rparr>)))"
proof -
  from wf obtain d ds where d: "mmio_devices b = d # ds" "ram_slot d (ram_mmu b)"
    "mmu_wf (ram_mmu b)" "\<not> mutex_held b" by (rule bus_wfE)
  then show ?thesis
    using bus_find_ram [OF wf a]
    by (simp add: bus_read_single_def bus_op_defs ram_slot_def read_ram_single_eq ram_after_def
        split: option.split)
qed

lemma bus_write_single_ram:
  assumes wf: "bus_wf b" and a: "in_block (ram_mmu b) a 1"
  shows "bus_write_single b (ucast a) v aw =
    (case mmu_wr (ram_mmu b) a (bytes_of_word (width_bytes aw) v) of
       Some m' \<Rightarrow> Inr (ram_after b READY BUS_OK m')
     | None \<Rightarrow> Inr (ram_after b ERROR BUS_OK
         ((ram_mmu b)\<lparr>mmu_state := wr_fault (ram_mmu b) a (width_bytes aw)\<rparr>)))"
proof -
  from wf obtain d ds where d: "mmio_devices b = d # ds" "ram_slot d (ram_mmu b)"
    "mmu_wf (ram_mmu b)" "\<not> mutex_held b" by (rule bus_wfE)
  then show ?thesis
    using bus_find_ram [OF wf a]
    by (simp add: bus_write_single_def bus_op_defs ram_slot_def write_ram_single_mmu ram_after_def
        split: option.split)
qed

lemma bus_read_multiple_ram:
  assumes wf: "bus_wf b" and a: "in_block (ram_mmu b) a 1"
    and n: "0 < unat count" "unat count * width_bytes aw < 2 ^ 32"
  shows "bus_read_multiple b (ucast a) count aw =
    (case mmu_rd (ram_mmu b) a (unat count * width_bytes aw) of
       Some bs \<Rightarrow> Inr (count, Some bs,
         ram_after b READY BUS_OK ((ram_mmu b)\<lparr>mmu_state := MMU_OK\<rparr>))
     | None \<Rightarrow> Inr (0, None, ram_after b ERROR BUS_DEVICE_FAILURE
         ((ram_mmu b)\<lparr>mmu_state := rd_fault (ram_mmu b) a (unat count * width_bytes aw)\<rparr>)))"
proof -
  from wf obtain d ds where d: "mmio_devices b = d # ds" "ram_slot d (ram_mmu b)"
    "mmu_wf (ram_mmu b)" "\<not> mutex_held b" by (rule bus_wfE)
  have "count \<noteq> 0" using n(1) by auto
  then show ?thesis
    using d bus_find_ram [OF wf a] n
    by (simp add: bus_read_multiple_def bus_op_defs ram_slot_def read_ram_eq ram_after_def
        split: option.split)
qed

lemma count_times_width:
  assumes "0 < unat count" and "unat count * width_bytes aw < 2 ^ 32"
  shows "count * width_mult aw = count \<longleftrightarrow> aw = BYTE"
proof
  assume "count * width_mult aw = count"
  then have "unat count * width_bytes aw = unat count"
    by (simp only: unat_count_width [OF assms(2), symmetric])
  then show "aw = BYTE"
    using assms(1) by (cases aw) (simp_all add: width_bytes_def)
next
  assume "aw = BYTE"
  then show "count * width_mult aw = count" by (simp add: width_mult_def)
qed

lemma bus_write_multiple_ram:
  assumes wf: "bus_wf b" and a: "in_block (ram_mmu b) a 1"
    and ready: "dev_state (hd (mmio_devices b)) = READY"
    and n: "0 < unat count" "unat count * width_bytes aw < 2 ^ 32"
    and len: "length src = unat count * width_bytes aw"
  shows "bus_write_multiple b (ucast a) src count aw =
    (case mmu_wr (ram_mmu b) a src of
       Some m' \<Rightarrow> if aw = BYTE then Inr (count, ram_after b READY BUS_OK m')
                  else Inr (0, (ram_after b READY BUS_DEVICE_FAILURE m')\<lparr>mutex_held := True\<rparr>)
     | None \<Rightarrow> Inr (0, (ram_after b ERROR BUS_DEVICE_FAILURE
         ((ram_mmu b)\<lparr>mmu_state := wr_fault (ram_mmu b) a (length src)\<rparr>))\<lparr>mutex_held := True\<rparr>))"
proof -
  from wf obtain d ds where d: "mmio_devices b = d # ds" "ram_slot d (ram_mmu b)"
    "mmu_wf (ram_mmu b)" "\<not> mutex_held b" by (rule bus_wfE)
  have "count \<noteq> 0" using n(1) by auto
  then show ?thesis
    using d bus_find_ram [OF wf a] n len ready count_times_width [OF n]
    by (simp add: bus_write_multiple_def bus_op_defs ram_slot_def write_ram_eq ram_after_def
        split: option.split)
qed

text \<open>While the device is not \<open>READY\<close>, a block transfer to RAM ends in the assertion.\<close>

lemma bus_write_multiple_not_ready:
  assumes wf: "bus_wf b" and a: "in_block (ram_mmu b) a 1" and not_ready: "\<not> bus_ready b"
  shows "bus_write_multiple b (ucast a) src count aw = Inl Assert_Failed"
proof -
  from wf obtain d ds where d: "mmio_devices b = d # ds" "ram_slot d (ram_mmu b)"
    "mmu_wf (ram_mmu b)" "\<not> mutex_held b" by (rule bus_wfE)
  then show ?thesis
    using bus_find_ram [OF wf a] not_ready
    by (simp add: bus_write_multiple_def bus_op_defs ram_slot_def bus_ready_def)
qed

text \<open>An access at any address: the device that answers, or none.\<close>

lemma covers_ram_ex:
  assumes "ram_slot d m" and "mmu_wf m" and "covers d x"
  shows "\<exists>a. x = ucast a \<and> in_block m a 1"
proof -
  have "x < ucast (base_address d + dev_size d)" using assms(3) by (simp add: covers_def)
  then have lt: "unat x < 2 ^ 32"
    using unat_lt_32 [of "base_address d + dev_size d"]
    by (simp add: word_less_nat_alt del: unat_lt_32)
  have "ucast (ucast x :: u32) = x"
    using lt
    by (simp add: word_unat_eq_iff unsigned_ucast_eq unsigned_take_bit_eq take_bit_nat_eq_self)
  then show ?thesis
    using ram_covers [OF assms(1,2), of "ucast x"] assms(3) by (metis (no_types))
qed

lemma bus_wf_put_dev:
  assumes wf: "bus_wf b" and k: "k < length (mmio_devices b)"
    and d: "same_slot d' (mmio_devices b ! k)" and m: "mmu_wf m'" "same_block m' (ram_mmu b)"
  shows "bus_wf (b\<lparr>bus_status := st, mmio_devices := (mmio_devices b)[k := d'], ram_mmu := m'\<rparr>)"
proof -
  from wf obtain r ds where b: "mmio_devices b = r # ds" "ram_slot r (ram_mmu b)"
    "list_all other_slot ds" "\<not> mutex_held b" by (rule bus_wfE)
  show ?thesis
  proof (cases k)
    case 0
    then show ?thesis
      using b d m ram_slot_same [OF _ m(2), of d' r] by (simp add: bus_wf_def)
  next
    case (Suc j)
    have "list_all other_slot (ds[j := d'])"
      using b(1,3) d k Suc
      by (auto simp: list_all_length nth_list_update other_slot_def same_slot_def)
    then show ?thesis
      using b m Suc ram_slot_same [OF _ m(2), of r r] by (simp add: bus_wf_def)
  qed
qed

lemma writable_dev:
  assumes "bus_wf b" and "k < length (mmio_devices b)"
  shows "dev_perm (mmio_devices b ! k) AND WRITE = WRITE"
proof -
  from assms(1) obtain d ds where b: "mmio_devices b = d # ds" "ram_slot d (ram_mmu b)"
    "list_all other_slot ds" by (rule bus_wfE)
  then show ?thesis
    using assms(2) by (cases k) (auto simp: ram_slot_def other_slot_def list_all_length)
qed

lemma bus_read_single_total:
  assumes wf: "bus_wf b"
  shows "\<exists>r b'. bus_read_single indet b x aw = Inr (r, b') \<and> bus_wf b'
    \<and> same_memory (ram_mmu b') (ram_mmu b)"
proof -
  have nb: "\<not> mutex_held b" and m: "mmu_wf (ram_mmu b)" using wf by (auto simp: bus_wf_def)
  show ?thesis
  proof (cases "find_dev (mmio_devices b) x")
    case None
    then show ?thesis
      using nb bus_wf_status(2) [OF wf]
      by (simp add: bus_read_single_def bus_op_defs bus_find_device_def)
  next
    case (Some k)
    then have k: "k < length (mmio_devices b)" using find_dev_Some by blast
    obtain r d' m' where rd: "dev_read_single indet (mmio_devices b ! k) (ram_mmu b) (ucast x) aw
        = Inr (r, d', m')" "same_slot d' (mmio_devices b ! k)" "same_memory m' (ram_mmu b)"
      using any_driver.rd1_total [OF m] by blast
    have m': "mmu_wf m'" "same_block m' (ram_mmu b)"
      using m rd(3) same_memoryD by auto
    have "bus_read_single indet b x aw = Inr (r, b\<lparr>bus_status := BUS_OK,
        mmio_devices := (mmio_devices b)[k := d'], ram_mmu := m'\<rparr>)"
      using Some k nb rd(1) by (simp add: bus_read_single_def bus_op_defs bus_find_device_def
          del: dev_read_single.simps)
    then show ?thesis
      using bus_wf_put_dev [OF wf k rd(2) m'] rd(3) by simp
  qed
qed

lemma bus_write_single_total:
  assumes wf: "bus_wf b"
  shows "\<exists>b'. bus_write_single b x v aw = Inr b' \<and> bus_wf b'
    \<and> same_block (ram_mmu b') (ram_mmu b)"
proof -
  have nb: "\<not> mutex_held b" and m: "mmu_wf (ram_mmu b)" using wf by (auto simp: bus_wf_def)
  show ?thesis
  proof (cases "find_dev (mmio_devices b) x")
    case None
    then show ?thesis
      using nb bus_wf_status(2) [OF wf]
      by (simp add: bus_write_single_def bus_op_defs bus_find_device_def)
  next
    case (Some k)
    then have k: "k < length (mmio_devices b)" using find_dev_Some by blast
    obtain d' m' where w: "dev_write_single (mmio_devices b ! k) (ram_mmu b) (ucast x) v aw
        = Inr (d', m')" "same_slot d' (mmio_devices b ! k)" "mmu_wf m'" "same_block m' (ram_mmu b)"
      using any_driver.wr1_total [OF m] by blast
    have "bus_write_single b x v aw = Inr (b\<lparr>bus_status := BUS_OK,
        mmio_devices := (mmio_devices b)[k := d'], ram_mmu := m'\<rparr>)"
      using Some k nb w(1) writable_dev [OF wf k]
      by (simp add: bus_write_single_def bus_op_defs bus_find_device_def del: dev_write_single.simps)
    then show ?thesis
      using bus_wf_put_dev [OF wf k w(2-4)] w(4) by simp
  qed
qed

text \<open>
  C24. A single access, at any 64-bit address and of any width, returns: it neither blocks on
  the mutex nor aborts, and it leaves the bus in its invariant with the mutex free. A read
  changes no byte, no permission and no dirty flag of the memory.
\<close>

theorem bus_single_accesses_total:
  assumes "bus_wf b"
  shows "(\<exists>r b'. bus_read_single indet b x aw = Inr (r, b') \<and> bus_wf b'
            \<and> same_memory (ram_mmu b') (ram_mmu b))
       \<and> (\<exists>b'. bus_write_single b x v aw = Inr b' \<and> bus_wf b' \<and> same_block (ram_mmu b') (ram_mmu b))"
  using bus_read_single_total [OF assms] bus_write_single_total [OF assms] by blast

theorem bus_single_accesses_total_witness:
  "\<exists>r b'. bus_read_single 0 (tiny_bus (tiny_mmu 6)) 7 WORD = Inr (r, b') \<and> bus_wf b'"
  using bus_single_accesses_total [of "tiny_bus (tiny_mmu 6)" 0 7 WORD 5] by auto

section \<open>The bus as a byte store\<close>

definition bus_rd :: "bus_t \<Rightarrow> vaddr_t \<Rightarrow> nat \<Rightarrow> u8 list option" where
  "bus_rd b a n = (if 0 < n \<and> n < 2 ^ 32 then
     (case bus_read_multiple b (ucast a) (of_nat n) BYTE of
        Inr (r, bs, b') \<Rightarrow> bs | Inl e \<Rightarrow> None) else None)"

definition bus_wr :: "bus_t \<Rightarrow> vaddr_t \<Rightarrow> u8 list \<Rightarrow> bus_t option" where
  "bus_wr b a bs = (if 0 < length bs \<and> length bs < 2 ^ 32 then
     (case bus_write_multiple b (ucast a) bs (of_nat (length bs)) BYTE of
        Inr (r, b') \<Rightarrow> if r = of_nat (length bs) then Some b' else None | Inl e \<Rightarrow> None) else None)"

definition bus_byte :: "bus_t \<Rightarrow> nat \<Rightarrow> u8" where
  "bus_byte b = mmu_byte (ram_mmu b)"

definition bus_readable :: "bus_t \<Rightarrow> nat \<Rightarrow> bool" where
  "bus_readable b = mmu_readable (ram_mmu b)"

lemma tiny_bus_byte [simp]: "256 \<le> x \<Longrightarrow> x < 320 \<Longrightarrow> bus_byte (tiny_bus (tiny_mmu p)) x = 0"
  by (simp add: bus_byte_def mmu_byte_def)

lemma tiny_bus_readable [simp]:
  "256 \<le> x \<Longrightarrow> x < 320 \<Longrightarrow> bus_readable (tiny_bus (tiny_mmu p)) x = perm_allows 4 p"
  by (simp add: bus_readable_def mmu_readable_def)

lemma other_dev_block:
  assumes wf: "bus_wf b" and out: "\<not> in_block (ram_mmu b) a 1"
    and k: "find_dev (mmio_devices b) (ucast a) = Some k"
  shows "k < length (mmio_devices b)" "dev_driver (mmio_devices b ! k) = Csr_Driver"
proof -
  show l: "k < length (mmio_devices b)" using find_dev_Some [OF k] by blast
  from wf obtain d ds where b: "mmio_devices b = d # ds" "ram_slot d (ram_mmu b)"
    "list_all other_slot ds" "mmu_wf (ram_mmu b)" by (rule bus_wfE)
  have "k \<noteq> 0"
    using find_dev_Some [OF k] b(1) ram_covers [OF b(2,4), of a] out by (cases k) auto
  then show "dev_driver (mmio_devices b ! k) = Csr_Driver"
    using l b(1,3) by (cases k) (auto simp: list_all_length other_slot_def)
qed

lemma bus_rd_eq:
  assumes wf: "bus_wf b" and n: "0 < n" "n < 2 ^ 32"
  shows "bus_rd b a n = mmu_rd (ram_mmu b) a n"
proof -
  have m: "mmu_wf (ram_mmu b)" and nb: "\<not> mutex_held b" using wf by (auto simp: bus_wf_def)
  have u: "unat (of_nat n :: u64) = n" using n by (intro unat_of_nat_64) simp
  show ?thesis
  proof (cases "in_block (ram_mmu b) a 1")
    case True
    then show ?thesis
      using bus_read_multiple_ram [OF wf True, of "of_nat n" BYTE] n u
      by (simp add: bus_rd_def width_bytes_def split: option.split)
  next
    case False
    then have none: "mmu_rd (ram_mmu b) a n = None"
      using n in_block_mono [of "ram_mmu b" a n 1] by (auto simp: mmu_rd_eq [OF m n])
    show ?thesis
    proof (cases "find_dev (mmio_devices b) (ucast a)")
      case None
      then show ?thesis
        using none nb by (simp add: bus_rd_def bus_read_multiple_def bus_op_defs bus_find_device_def)
    next
      case (Some k)
      from other_dev_block [OF wf False Some] show ?thesis
        using Some none nb
        by (simp add: bus_rd_def bus_read_multiple_def bus_op_defs bus_find_device_def)
    qed
  qed
qed

lemma bus_rd_SomeD:
  assumes "bus_wf b" and "bus_rd b a n = Some bs"
  shows "mmu_rd (ram_mmu b) a n = Some bs" "0 < n" "n < 2 ^ 32"
proof -
  show n: "0 < n" "n < 2 ^ 32" using assms(2) by (auto simp: bus_rd_def split: if_splits)
  show "mmu_rd (ram_mmu b) a n = Some bs" using assms bus_rd_eq [OF assms(1) n] by simp
qed

lemma bus_wr_SomeD:
  assumes wf: "bus_wf b" and w: "bus_wr b a bs = Some b'"
  shows "mmu_wr (ram_mmu b) a bs = Some (ram_mmu b')" "bus_wf b'"
proof -
  have m: "mmu_wf (ram_mmu b)" and nb: "\<not> mutex_held b" using wf by (auto simp: bus_wf_def)
  have n: "0 < length bs" "length bs < 2 ^ 32" using w by (auto simp: bus_wr_def split: if_splits)
  have u: "unat (of_nat (length bs) :: u64) = length bs" using n by (intro unat_of_nat_64) simp
  have nz: "of_nat (length bs) \<noteq> (0 :: u64)" using n u by (metis unsigned_0 less_irrefl)
  obtain r where r: "bus_write_multiple b (ucast a) bs (of_nat (length bs)) BYTE = Inr (r, b')"
    "r = of_nat (length bs)"
    using w by (auto simp: bus_wr_def split: if_splits sum.splits)
  have blk: "in_block (ram_mmu b) a 1"
  proof (rule ccontr)
    assume out: "\<not> in_block (ram_mmu b) a 1"
    show False
    proof (cases "find_dev (mmio_devices b) (ucast a)")
      case None
      then show False
        using r nb nz by (simp add: bus_write_multiple_def bus_op_defs bus_find_device_def)
    next
      case (Some k)
      from other_dev_block [OF wf out Some] show False
        using Some r nb
        by (auto simp: bus_write_multiple_def bus_op_defs bus_find_device_def rbind_Inr_iff
            split: if_splits)
    qed
  qed
  from wf obtain d ds where d: "mmio_devices b = d # ds" "ram_slot d (ram_mmu b)" by (rule bus_wfE)
  have ready: "dev_state (hd (mmio_devices b)) = READY"
    using r d nb bus_find_ram [OF wf blk]
    by (auto simp: bus_write_multiple_def bus_op_defs ram_slot_def rbind_Inr_iff split: if_splits)
  obtain m' where m': "mmu_wr (ram_mmu b) a bs = Some m'" "b' = ram_after b READY BUS_OK m'"
    using r nz bus_write_multiple_ram [OF wf blk ready, of "of_nat (length bs)" BYTE bs] n u
    by (auto simp: width_bytes_def split: option.splits)
  show "mmu_wr (ram_mmu b) a bs = Some (ram_mmu b')" using m' by simp
  show "bus_wf b'"
    using m' mmu_store.invar_wr [OF m m'(1)] mmu_wr_SomeD(4) [OF m m'(1)]
    by (simp add: bus_wf_ram_after [OF wf])
qed

interpretation bus_store: byte_store bus_rd bus_wr bus_wf bus_byte bus_readable
proof
  fix s s' :: bus_t and a bs x
  assume s: "bus_wf s" and w: "bus_wr s a bs = Some s'"
  have m: "mmu_wf (ram_mmu s)" using s by (simp add: bus_wf_def)
  note w' = bus_wr_SomeD [OF s w]
  show "bus_wf s'" by (rule w'(2))
  show "bus_byte s' x = (if x \<in> set (span a (length bs)) then bs ! (x - unat a) else bus_byte s x)"
    using mmu_store.byte_wr [OF m w'(1)] by (simp add: bus_byte_def)
  show "bus_readable s x \<Longrightarrow> bus_readable s' x"
    using mmu_store.readable_wr [OF m w'(1)] by (simp add: bus_readable_def)
next
  fix s :: bus_t and a n bs x
  assume s: "bus_wf s" and r: "bus_rd s a n = Some bs"
  have m: "mmu_wf (ram_mmu s)" using s by (simp add: bus_wf_def)
  note r' = bus_rd_SomeD [OF s r]
  show "bs = map (bus_byte s) (span a n)"
    using mmu_store.rd_Some [OF m r'(1)] by (simp add: bus_byte_def)
  show "x \<in> set (span a n) \<Longrightarrow> bus_readable s x"
    using mmu_store.rd_readable [OF m r'(1)] by (simp add: bus_readable_def)
next
  fix s :: bus_t and a :: u32 and n :: nat
  assume s: "bus_wf s" and n: "0 < n" "n < 2 ^ 32"
    and "\<And>x. x \<in> set (span a n) \<Longrightarrow> bus_readable s x"
  then show "bus_rd s a n \<noteq> None"
    using mmu_store.readable_rd [of "ram_mmu s" n a] bus_rd_eq [OF s n]
    by (simp add: bus_readable_def bus_wf_def)
qed

section \<open>Stores and loads\<close>

text \<open>Memory that takes a write and can be read after it.\<close>

definition rw_range :: "mmu_t \<Rightarrow> vaddr_t \<Rightarrow> nat \<Rightarrow> bool" where
  "rw_range m a n \<longleftrightarrow> in_block m a n \<and>
     (\<forall>k<n. perm_allows MPERM_WRITE (mmu_perm m ! (offset m a + k)) \<and>
        (perm_allows MPERM_READ (mmu_perm m ! (offset m a + k)) \<or>
         mmu_perm m ! (offset m a + k) AND MPERM_RAW = MPERM_RAW))"

lemma rw_range_wr:
  assumes "mmu_wf m" and "rw_range m a (length bs)" and "length bs < 2 ^ 32"
  shows "mmu_wr m a bs = Some (mmu_written m bs a)"
  using assms by (simp add: mmu_wr_eq rw_range_def allowed_def)

lemma rw_range_rd:
  assumes wf: "mmu_wf m" and rw: "rw_range m a (length bs)" and n: "0 < length bs" "length bs < 2 ^ 32"
  shows "mmu_rd (mmu_written m bs a) a (length bs) = Some bs"
proof -
  let ?m = "mmu_written m bs a"
  have w: "mmu_wr m a bs = Some ?m" by (rule rw_range_wr [OF wf rw n(2)])
  have blk: "in_block m a (length bs)" using rw by (simp add: rw_range_def)
  have wf': "mmu_wf ?m" by (rule mmu_written_wf [OF wf blk])
  have "allowed ?m a (length bs) MPERM_READ"
    using rw in_block_offset(2) [OF wf blk]
    by (auto simp: allowed_def rw_range_def mmu_written_def offset_def nth_map_range
        perm_allows_read perm_written_read perm_bits)
  then have "mmu_rd ?m a (length bs) \<noteq> None"
    using blk by (simp add: mmu_rd_eq [OF wf' n])
  then show ?thesis using mmu_store.rd_wr_same [OF wf w] by auto
qed

lemma in_block_1: "in_block m a n \<Longrightarrow> 0 < n \<Longrightarrow> in_block m a 1"
  by (rule in_block_mono) (simp_all add: Suc_le_eq)

text \<open>
  C23. Round trip over the bus: a store of any width to read-write memory (already readable,
  or allocated and not yet written) succeeds, and a load of that width from the same
  address then returns the stored value cut to the width, zero-extended, with status
  \<open>BUS_OK\<close>.
\<close>

theorem bus_store_load_roundtrip:
  assumes wf: "bus_wf b" and rw: "rw_range (ram_mmu b) a (width_bytes aw)"
  shows "\<exists>b1 b2. bus_write_single b (ucast a) v aw = Inr b1 \<and> bus_status b1 = BUS_OK \<and>
    bus_read_single indet b1 (ucast a) aw = Inr (take_bit (8 * width_bytes aw) v, b2) \<and>
    bus_status b2 = BUS_OK"
proof -
  let ?bs = "bytes_of_word (width_bytes aw) v"
  let ?m = "mmu_written (ram_mmu b) ?bs a"
  have m: "mmu_wf (ram_mmu b)" using wf by (simp add: bus_wf_def)
  have n: "0 < length ?bs" "length ?bs < 2 ^ 32" using width_bytes_bounds [of aw] by auto
  have blk: "in_block (ram_mmu b) a (width_bytes aw)" using rw by (simp add: rw_range_def)
  have a1: "in_block (ram_mmu b) a 1" using in_block_1 [OF blk] width_bytes_bounds by simp
  have w: "mmu_wr (ram_mmu b) a ?bs = Some ?m" using rw_range_wr [OF m _ n(2)] rw by simp
  have r: "mmu_rd ?m a (width_bytes aw) = Some ?bs" using rw_range_rd [OF m _ n] rw by simp
  have wf1: "bus_wf (ram_after b READY BUS_OK ?m)"
    using mmu_written_wf [OF m] blk by (simp add: bus_wf_ram_after [OF wf])
  have "bus_write_single b (ucast a) v aw = Inr (ram_after b READY BUS_OK ?m)"
    using bus_write_single_ram [OF wf a1] w by simp
  moreover have "\<exists>b2. bus_read_single indet (ram_after b READY BUS_OK ?m) (ucast a) aw
      = Inr (word_of_bytes ?bs, b2) \<and> bus_status b2 = BUS_OK"
    using bus_read_single_ram [OF wf1, of a indet aw] a1 r by simp
  ultimately show ?thesis by (auto simp: word_of_bytes_of_word)
qed

theorem bus_store_load_roundtrip_witness:
  "\<exists>b1 b2. bus_write_single (tiny_bus (tiny_mmu 10)) 0x104 0xdeadbeef HALFWORD = Inr b1 \<and>
    bus_read_single 0 b1 0x104 HALFWORD = Inr (0xbeef, b2)"
  using bus_store_load_roundtrip [of "tiny_bus (tiny_mmu 10)" "0x104" HALFWORD "0xdeadbeef" 0]
  by (auto simp: rw_range_def width_bytes_def perm_allows_def)

text \<open>
  A load that the memory refuses (no read permission, never written, or running off the
  end of the block) is not reported on the bus: the status is \<open>BUS_OK\<close> and a word or a
  half-word reads as 0. Only the device's own state records the error.
\<close>

lemma bus_denied_load_unreported:
  assumes wf: "bus_wf b" and a: "in_block (ram_mmu b) a 1"
    and den: "\<not> (in_block (ram_mmu b) a (width_bytes aw) \<and>
      allowed (ram_mmu b) a (width_bytes aw) MPERM_READ)"
  shows "\<exists>r b'. bus_read_single indet b (ucast a) aw = Inr (r, b') \<and> bus_status b' = BUS_OK \<and>
    (aw \<noteq> BYTE \<longrightarrow> r = 0) \<and> dev_state (hd (mmio_devices b')) = ERROR"
proof -
  have m: "mmu_wf (ram_mmu b)" using wf by (simp add: bus_wf_def)
  have "width_bytes aw < 2 ^ 32" using width_bytes_bounds(2) [of aw] by simp
  then have "mmu_rd (ram_mmu b) a (width_bytes aw) = None"
    using den width_bytes_bounds(1) [of aw] by (auto simp: mmu_rd_eq [OF m])
  then show ?thesis
    using bus_read_single_ram [OF wf a, of indet aw] by (simp add: ram_after_def)
qed

text \<open>
  C35. \<open>bus_write_multiple\<close> compares a number of bytes with a number of words: a transfer of
  one or more half-words or words to writable memory stores all of them, but returns 0 with
  \<open>BUS_DEVICE_FAILURE\<close> and keeps the mutex, so that the next access to the bus blocks
  for ever.
\<close>

theorem bus_write_multiple_keeps_mutex:
  assumes wf: "bus_wf b" and ready: "dev_state (hd (mmio_devices b)) = READY"
    and aw: "aw \<noteq> BYTE" and n: "0 < unat count" "unat count * width_bytes aw < 2 ^ 32"
    and len: "length src = unat count * width_bytes aw" and rw: "rw_range (ram_mmu b) a (length src)"
  shows "\<exists>b'. bus_write_multiple b (ucast a) src count aw = Inr (0, b') \<and>
    bus_status b' = BUS_DEVICE_FAILURE \<and> mutex_held b' \<and>
    map (bus_byte b') (span a (length src)) = src \<and>
    (\<forall>j x w. bus_read_single j b' x w = Inl Deadlock)"
proof -
  let ?m = "mmu_written (ram_mmu b) src a"
  have m: "mmu_wf (ram_mmu b)" using wf by (simp add: bus_wf_def)
  have pos: "0 < length src" using len n(1) width_bytes_bounds(1) [of aw] by simp
  have a1: "in_block (ram_mmu b) a 1" using rw in_block_1 pos by (auto simp: rw_range_def)
  have w: "mmu_wr (ram_mmu b) a src = Some ?m" using rw_range_wr [OF m rw] len n by simp
  have "map (mmu_byte ?m) (span a (length src)) = src"
    by (rule mmu_store.map_byte_wr [OF m w])
  moreover have "bus_write_multiple b (ucast a) src count aw =
      Inr (0, (ram_after b READY BUS_DEVICE_FAILURE ?m)\<lparr>mutex_held := True\<rparr>)"
    using bus_write_multiple_ram [OF wf a1 ready n len] w aw by simp
  ultimately show ?thesis
    by (simp add: bus_byte_def bus_read_single_def bus_op_defs)
qed

theorem bus_write_multiple_keeps_mutex_witness:
  "\<exists>b'. bus_write_multiple (tiny_bus (tiny_mmu 10)) 0x104 [1, 2, 3, 4] 1 WORD = Inr (0, b') \<and>
    mutex_held b' \<and> bus_read_single 0 b' 0x100 BYTE = Inl Deadlock"
  using bus_write_multiple_keeps_mutex [of "tiny_bus (tiny_mmu 10)" WORD 1 "[1, 2, 3, 4]" "0x104"]
  by (auto simp: rw_range_def width_bytes_def perm_allows_def)

section \<open>Strings\<close>

lemma bus_read_byte:
  fixes a :: u32
  assumes wf: "bus_wf b" and r: "bus_readable b (unat a)"
  shows "\<exists>b'. bus_read_single indet b (ucast a) BYTE = Inr (ucast (bus_byte b (unat a)), b') \<and>
    bus_wf b' \<and> bus_status b' = BUS_OK \<and> same_memory (ram_mmu b') (ram_mmu b) \<and> bus_ready b'
    \<and> dev_ranges b' = dev_ranges b"
proof -
  have m: "mmu_wf (ram_mmu b)" using wf by (simp add: bus_wf_def)
  obtain bs where bs: "mmu_rd (ram_mmu b) a 1 = Some bs"
    using mmu_store.readable_rd [OF m, of 1 a] r by (auto simp: bus_readable_def)
  have a1: "in_block (ram_mmu b) a 1" by (rule mmu_rd_SomeD(3) [OF m bs])
  have "bs = [bus_byte b (unat a)]"
    using mmu_store.rd_Some [OF m bs] by (simp add: bus_byte_def span_def)
  then have "bus_read_single indet b (ucast a) BYTE = Inr (ucast (bus_byte b (unat a)),
      ram_after b READY BUS_OK ((ram_mmu b)\<lparr>mmu_state := MMU_OK\<rparr>))"
    using bus_read_single_ram [OF wf a1, of indet BYTE] bs by (simp add: width_bytes_def)
  then show ?thesis using m wf by (simp add: bus_wf_ram_after)
qed

lemma same_memory_bytes:
  assumes "same_memory (ram_mmu b') (ram_mmu b)"
  shows "bus_byte b' = bus_byte b" "bus_readable b' = bus_readable b"
  by (rule ext) (simp_all add: bus_byte_def bus_readable_def mmu_byte_def mmu_readable_def
      same_memoryD(2) [OF assms])

lemma same_memory_trans: "same_memory m'' m' \<Longrightarrow> same_memory m' m \<Longrightarrow> same_memory m'' m"
  by (simp add: same_memory_def same_block_def)

text \<open>One turn of the loop over a readable byte.\<close>

lemma read_string_step:
  fixes a :: u32
  assumes wf: "bus_wf b" and r: "bus_readable b (unat a + i)"
    and lt: "unat a + i < 2 ^ 32"
  obtains b' where "bus_wf b'" "bus_status b' = BUS_OK" "same_memory (ram_mmu b') (ram_mmu b)" "bus_ready b'"
    "dev_ranges b' = dev_ranges b"
    "read_string_loop indet b (ucast a) cap i acc =
      (if i < cap then
         (if bus_byte b (unat a + i) \<noteq> 0
          then read_string_loop indet b' (ucast a) cap (Suc i) (acc @ [bus_byte b (unat a + i)])
          else Inr (acc @ [bus_byte b (unat a + i)], b'))
       else Inl Out_Of_Bounds)"
proof -
  let ?a = "a + of_nat i :: u32"
  have "unat (of_nat i :: u32) = i" using lt by (intro unat_of_nat_32) simp
  then have u: "unat ?a = unat a + i"
    using lt by (simp add: unat_add_lem [THEN iffD1])
  have "unat (ucast a + of_nat i :: u64) = unat a + i"
    using lt unat_of_nat_64 [of i] by (subst unat_add_64) auto
  then have addr: "ucast a + of_nat i = (ucast ?a :: u64)"
    using u by (simp add: word_unat_eq_iff)
  obtain b' where b': "bus_read_single (indet i) b (ucast ?a) BYTE = Inr (ucast (bus_byte b (unat a + i)), b')"
    "bus_wf b'" "bus_status b' = BUS_OK" "same_memory (ram_mmu b') (ram_mmu b)" "bus_ready b'"
    "dev_ranges b' = dev_ranges b"
    using bus_read_byte [OF wf, of ?a "indet i"] r u by auto
  have "ucast (ucast (bus_byte b (unat a + i)) :: u32) = bus_byte b (unat a + i)"
    by (rule bit_word_eqI) (simp add: bit_simps)
  then show ?thesis
    using that [OF b'(2-6)] b'(1,3)
    by (simp add: read_string_loop.simps [of indet b "ucast a" cap i acc] addr)
qed

lemma read_string_loop_ok:
  fixes a :: u32
  assumes "bus_wf b" and "length s = n" and "i + n < cap" and "unat a + i + n < 2 ^ 32"
    and "\<forall>k<n. bus_readable b (unat a + i + k) \<and> bus_byte b (unat a + i + k) = s ! k \<and> s ! k \<noteq> 0"
    and "bus_readable b (unat a + i + n)" and "bus_byte b (unat a + i + n) = 0"
  shows "\<exists>b'. read_string_loop indet b (ucast a) cap i acc = Inr (acc @ s @ [0], b') \<and> bus_wf b' \<and>
    bus_status b' = BUS_OK \<and> same_memory (ram_mmu b') (ram_mmu b) \<and> bus_ready b'
    \<and> dev_ranges b' = dev_ranges b"
  using assms
proof (induction n arbitrary: b i s acc)
  case 0
  obtain b' where "bus_wf b'" "bus_status b' = BUS_OK" "same_memory (ram_mmu b') (ram_mmu b)" "bus_ready b'"
    "dev_ranges b' = dev_ranges b"
    "read_string_loop indet b (ucast a) cap i acc = Inr (acc @ [0], b')"
    using read_string_step [OF 0(1), of a i indet cap acc] 0 by auto
  then show ?case using 0 by auto
next
  case (Suc n)
  obtain c t where s: "s = c # t" "length t = n" using Suc.prems(2) by (cases s) auto
  have c: "bus_readable b (unat a + i)" "bus_byte b (unat a + i) = c" "c \<noteq> 0"
    using Suc.prems(5) [rule_format, of 0] s by auto
  obtain b1 where b1: "bus_wf b1" "bus_status b1 = BUS_OK" "same_memory (ram_mmu b1) (ram_mmu b)" "dev_ranges b1 = dev_ranges b"
    "read_string_loop indet b (ucast a) cap i acc =
       read_string_loop indet b1 (ucast a) cap (Suc i) (acc @ [c])"
    using read_string_step [OF Suc.prems(1) c(1), of indet cap acc] c Suc.prems(3,4) by auto
  note eq = same_memory_bytes [OF b1(3)]
  have "\<forall>k<n. bus_readable b1 (unat a + Suc i + k) \<and> bus_byte b1 (unat a + Suc i + k) = t ! k \<and> t ! k \<noteq> 0"
    using Suc.prems(5) s by (auto simp: eq dest: spec [where x = "Suc _"])
  then obtain b' where "read_string_loop indet b1 (ucast a) cap (Suc i) (acc @ [c])
      = Inr ((acc @ [c]) @ t @ [0], b')" "bus_wf b'" "bus_status b' = BUS_OK"
      "same_memory (ram_mmu b') (ram_mmu b1)" "bus_ready b'" "dev_ranges b' = dev_ranges b1"
    using Suc.IH [OF b1(1) s(2), of "Suc i" "acc @ [c]"] Suc.prems(3,4,6,7) by (auto simp: eq)
  then show ?case
    using b1(3-5) same_memory_trans by (auto simp: s)
qed

lemma read_string_loop_out:
  fixes a :: u32
  assumes "bus_wf b" and "i + n = cap" and "unat a + cap < 2 ^ 32"
    and "\<forall>k\<le>n. bus_readable b (unat a + i + k)" and "\<forall>k<n. bus_byte b (unat a + i + k) \<noteq> 0"
  shows "read_string_loop indet b (ucast a) cap i acc = Inl Out_Of_Bounds"
  using assms
proof (induction n arbitrary: b i acc)
  case 0
  have r: "bus_readable b (unat a + i)" using 0(4) [rule_format, of 0] by simp
  show ?case
    using read_string_step [OF 0(1) r, of indet cap acc] 0 by auto
next
  case (Suc n)
  have r: "bus_readable b (unat a + i)" using Suc.prems(4) [rule_format, of 0] by simp
  have c: "bus_byte b (unat a + i) \<noteq> 0" using Suc.prems(5) [rule_format, of 0] by simp
  obtain b1 where b1: "bus_wf b1" "same_memory (ram_mmu b1) (ram_mmu b)"
    "read_string_loop indet b (ucast a) cap i acc =
       read_string_loop indet b1 (ucast a) cap (Suc i) (acc @ [bus_byte b (unat a + i)])"
    using read_string_step [OF Suc.prems(1) r, of indet cap acc] c Suc.prems(2,3) by auto
  note eq = same_memory_bytes [OF b1(2)]
  have "\<forall>k\<le>n. bus_readable b1 (unat a + Suc i + k)" "\<forall>k<n. bus_byte b1 (unat a + Suc i + k) \<noteq> 0"
    using Suc.prems(4,5) by (auto simp: eq dest: spec [where x = "Suc _"])
  then show ?case
    using Suc.IH [OF b1(1), of "Suc i"] Suc.prems(2,3) b1(3) by simp
qed

lemma bus_read_string_ok:
  fixes a :: u32
  assumes wf: "bus_wf b" and cap: "length s < cap" "unat a + cap < 2 ^ 32"
    and rd: "\<forall>k\<le>length s. bus_readable b (unat a + k)"
    and s: "\<forall>k<length s. bus_byte b (unat a + k) = s ! k \<and> s ! k \<noteq> 0"
    and z: "bus_byte b (unat a + length s) = 0"
  shows "\<exists>b'. bus_read_string indet b (ucast a) cap = Inr (of_nat (length s + 1), s @ [0], b') \<and>
    bus_status b' = BUS_OK \<and> bus_wf b' \<and> same_memory (ram_mmu b') (ram_mmu b) \<and> bus_ready b'
    \<and> dev_ranges b' = dev_ranges b"
proof -
  obtain b' where "read_string_loop indet b (ucast a) cap 0 [] = Inr (s @ [0], b')"
    "bus_wf b'" "bus_status b' = BUS_OK" "same_memory (ram_mmu b') (ram_mmu b)" "bus_ready b'"
    "dev_ranges b' = dev_ranges b"
    using read_string_loop_ok [OF wf refl, of 0 s cap a indet "[]"] cap rd s z by auto
  then show ?thesis
    using cap(1) by (auto simp: bus_read_string_def)
qed

text \<open>
  C28. \<open>bus_read_string\<close> copies a terminated string: when the readable guest memory at the
  address holds the non-zero bytes \<open>s\<close> and a zero, and the buffer has room for them, it
  stores exactly \<open>s\<close> and the zero, returns their number and leaves the memory alone.
\<close>

theorem bus_read_string_copies:
  fixes a :: u32
  assumes wf: "bus_wf b" and cap: "length s < cap" "unat a + cap < 2 ^ 32"
    and rd: "\<forall>k\<le>length s. bus_readable b (unat a + k)"
    and s: "\<forall>k<length s. bus_byte b (unat a + k) = s ! k \<and> s ! k \<noteq> 0"
    and z: "bus_byte b (unat a + length s) = 0"
  shows "\<exists>b'. bus_read_string indet b (ucast a) cap = Inr (of_nat (length s + 1), s @ [0], b') \<and>
    bus_status b' = BUS_OK \<and> bus_wf b' \<and> same_memory (ram_mmu b') (ram_mmu b)"
  using bus_read_string_ok [OF assms] by blast

theorem bus_read_string_copies_witness:
  "\<exists>b'. bus_read_string (\<lambda>_. 0) (tiny_bus (tiny_mmu 6)) 0x104 8 = Inr (1, [0], b')"
  using bus_read_string_copies [of "tiny_bus (tiny_mmu 6)" "[]" 8 "0x104"]
  by (auto simp: perm_allows_def)

text \<open>
  C37. \<open>bus_read_string\<close> does not know the size of its buffer: when the guest memory holds no
  zero in as many bytes as the buffer has, it writes behind the end of the buffer. This
  is what \<open>sys_open\<close> does with its 256 bytes on a longer file name.
\<close>

theorem bus_read_string_overruns:
  fixes a :: u32
  assumes wf: "bus_wf b" and cap: "0 < cap" "unat a + cap < 2 ^ 32"
    and rd: "\<forall>k\<le>cap. bus_readable b (unat a + k)" and nz: "\<forall>k<cap. bus_byte b (unat a + k) \<noteq> 0"
  shows "bus_read_string indet b (ucast a) cap = Inl Out_Of_Bounds"
  using read_string_loop_out [OF wf, of 0 cap cap a indet "[]"] cap rd nz
  by (simp add: bus_read_string_def)

theorem bus_read_string_overruns_witness:
  "bus_read_string (\<lambda>_. 0) (tiny_bus ((tiny_mmu 6)\<lparr>mmu_data := replicate 64 65\<rparr>)) 0x104 8 = Inl Out_Of_Bounds"
proof -
  let ?m = "(tiny_mmu 6)\<lparr>mmu_data := replicate 64 65\<rparr>"
  have "mmu_wf ?m" by (simp add: tiny_mmu_def mmu_wf_def)
  moreover have "mmu_abs ?m x = Some (65, 6)" if "256 \<le> x" "x < 320" for x
    using that by (simp add: mmu_abs_def)
  ultimately show ?thesis
    using bus_read_string_overruns [of "tiny_bus ?m" 8 "0x104"]
    by (simp add: bus_readable_def mmu_readable_def am_allows_def bus_byte_def mmu_byte_def perm_allows_def)
qed

end
