(* ===== verification/Core.thy ===== *)
theory Core
  imports Bus_Spec
begin

text \<open>
  The state of a core and the first two stages of its pipeline: the types of
  \<^verbatim>\<open>src/cpu.h\<close>, the decode table, \<open>core_init\<close>, \<open>cause_trap\<close>, \<open>fetch\<close> and
  \<open>decode\<close> of \<^verbatim>\<open>src/cpu.c\<close>. The bit-fields of \<open>instr_t\<close> are words of their
  width, so that assigning to one is a cast. The bus object that \<open>core->bus\<close> points to
  is the field \<open>c_bus\<close>; there is one core, and everything else reaches the bus through
  it once the core runs.
\<close>

section \<open>Types\<close>

datatype optype_t = Unknown | R | I | S | B | U | J | C

definition decode_type_table :: "optype_t list" where
  "decode_type_table =
     replicate 3 Unknown @ [I] @          \<comment> \<open>0000011 = LB/LH/LW\<close>
     replicate 15 Unknown @ [I] @         \<comment> \<open>0010011 = ADDI ... SRAI\<close>
     replicate 3 Unknown @ [U] @          \<comment> \<open>0010111 = AUIPC\<close>
     replicate 11 Unknown @ [S] @         \<comment> \<open>0100011 = SB/SH/SW\<close>
     replicate 15 Unknown @ [R] @         \<comment> \<open>0110011 = ADD ... AND\<close>
     replicate 3 Unknown @ [U] @          \<comment> \<open>0110111 = LUI\<close>
     replicate 43 Unknown @ [B] @         \<comment> \<open>1100011 = BEQ ... BGEU\<close>
     replicate 3 Unknown @ [I] @          \<comment> \<open>1100111 = JALR\<close>
     replicate 7 Unknown @ [J] @          \<comment> \<open>1101111 = JAL\<close>
     replicate 3 Unknown @ [C] @          \<comment> \<open>1110011 = CSR*\<close>
     replicate 12 Unknown"

text \<open>The macro \<open>_OP(opcode, funct3, funct7)\<close> and the enumerators built with it.\<close>

definition OP :: "u32 \<Rightarrow> u32 \<Rightarrow> u32 \<Rightarrow> u32" where
  "OP opcode funct3 funct7 = opcode OR push_bit 7 funct3 OR push_bit 11 funct7"

datatype opcode_t =
    OP_NONE | OP_LUI | OP_AUIPC | OP_JAL | OP_JALR
  | OP_BEQ | OP_BNE | OP_BLT | OP_BGE | OP_BLTU | OP_BGEU
  | OP_LB | OP_LH | OP_LW | OP_LBU | OP_LHU
  | OP_SB | OP_SH | OP_SW
  | OP_ADDI | OP_SLTI | OP_SLTIU | OP_XORI | OP_ORI | OP_ANDI
  | OP_SLLI | OP_SRLI | OP_SRAI
  | OP_ADD | OP_SUB | OP_SLL | OP_SLT | OP_SLTU
  | OP_XOR | OP_SRL | OP_SRA | OP_OR | OP_AND
  | OP_FENCE | OP_ECALL
  | OP_CSRRW | OP_CSRRS | OP_CSRRC | OP_CSRRWI | OP_CSRRSI | OP_CSRRCI | OP_EBREAK

fun op_code :: "opcode_t \<Rightarrow> u32" where
  "op_code OP_NONE = 0"
| "op_code OP_LUI = OP 0b0110111 0b000 0"
| "op_code OP_AUIPC = OP 0b0010111 0b000 0"
| "op_code OP_JAL = OP 0b1101111 0b000 0"
| "op_code OP_JALR = OP 0b1100111 0b000 0"
| "op_code OP_BEQ = OP 0b1100011 0b000 0"
| "op_code OP_BNE = OP 0b1100011 0b001 0"
| "op_code OP_BLT = OP 0b1100011 0b100 0"
| "op_code OP_BGE = OP 0b1100011 0b101 0"
| "op_code OP_BLTU = OP 0b1100011 0b110 0"
| "op_code OP_BGEU = OP 0b1100011 0b111 0"
| "op_code OP_LB = OP 0b0000011 0b000 0"
| "op_code OP_LH = OP 0b0000011 0b001 0"
| "op_code OP_LW = OP 0b0000011 0b010 0"
| "op_code OP_LBU = OP 0b0000011 0b100 0"
| "op_code OP_LHU = OP 0b0000011 0b101 0"
| "op_code OP_SB = OP 0b0100011 0b000 0"
| "op_code OP_SH = OP 0b0100011 0b001 0"
| "op_code OP_SW = OP 0b0100011 0b010 0"
| "op_code OP_ADDI = OP 0b0010011 0b000 0"
| "op_code OP_SLTI = OP 0b0010011 0b010 0"
| "op_code OP_SLTIU = OP 0b0010011 0b011 0"
| "op_code OP_XORI = OP 0b0010011 0b100 0"
| "op_code OP_ORI = OP 0b0010011 0b110 0"
| "op_code OP_ANDI = OP 0b0010011 0b111 0"
| "op_code OP_SLLI = OP 0b0010011 0b001 0"
| "op_code OP_SRLI = OP 0b0010011 0b101 0"
| "op_code OP_SRAI = OP 0b0010011 0b101 1"
| "op_code OP_ADD = OP 0b0110011 0b000 0"
| "op_code OP_SUB = OP 0b0110011 0b000 1"
| "op_code OP_SLL = OP 0b0110011 0b001 0"
| "op_code OP_SLT = OP 0b0110011 0b010 0"
| "op_code OP_SLTU = OP 0b0110011 0b011 0"
| "op_code OP_XOR = OP 0b0110011 0b100 0"
| "op_code OP_SRL = OP 0b0110011 0b101 0"
| "op_code OP_SRA = OP 0b0110011 0b101 1"
| "op_code OP_OR = OP 0b0110011 0b110 0"
| "op_code OP_AND = OP 0b0110011 0b111 0"
| "op_code OP_FENCE = OP 0b0001111 0b000 0"
| "op_code OP_ECALL = OP 0b1110011 0b000 0"
| "op_code OP_CSRRW = OP 0b1110011 0b001 0"
| "op_code OP_CSRRS = OP 0b1110011 0b010 0"
| "op_code OP_CSRRC = OP 0b1110011 0b011 0"
| "op_code OP_CSRRWI = OP 0b1110011 0b101 0"
| "op_code OP_CSRRSI = OP 0b1110011 0b110 0"
| "op_code OP_CSRRCI = OP 0b1110011 0b111 0"
| "op_code OP_EBREAK = OP 0b1110011 0b000 0"

definition NUMREGS :: nat where [simp]: "NUMREGS = 32"

record instr_t =
  optype :: optype_t
  opcode :: "8 word"
  rs1 :: "5 word"
  rs2 :: "5 word"
  rd :: "5 word"
  funct7 :: "7 word"
  funct3 :: "3 word"
  shamt :: "5 word"
  imm5 :: "5 word"
  imm12 :: "12 word"
  imm20 :: "20 word"
  rs1v :: u32
  rs2v :: u32
  memOffset :: u32
  jumpTarget :: u32
  memAccessWidth :: memory_access_width_t
  isJump :: bool
  writeRd :: bool
  readMem :: bool
  writeMem :: bool

datatype core_state_t = FETCH | DECODE | EXECUTE | MEMORY | WRITEBACK | TRAP

datatype trap_state_t = NONE | ENTER | HANDLE | EXIT

datatype priv_mode_t = PMODE_MACHINE | PMODE_SUPERVISOR | PMODE_USER | PMODE_DEBUG

text \<open>
  \<open>c_trap_handler\<close> says whether the function pointer is set; the only function the
  program stores in it is the trap handler of \<^verbatim>\<open>src/emulator.c\<close>.
\<close>

record core_t =
  c_state :: core_state_t
  c_instruction :: u32
  c_prefetch :: "u32 list"
  c_decoded :: instr_t
  c_pc :: u32
  c_aluOut :: u32
  c_registers :: "u32 list"
  c_cycle :: u64
  c_bus :: bus_t
  c_csr :: csr_t
  c_trap_pc :: u32
  c_trap_regs :: "u32 list"
  c_prefetch_cnt :: "4 word"
  c_id :: "4 word"
  c_priv_mode :: priv_mode_t
  c_trap_state :: trap_state_t
  c_halted :: bool
  c_trap_handler :: bool

section \<open>Initialisation\<close>

text \<open>A core as \<open>cpu_init\<close> leaves it: all bytes zero.\<close>

definition zero_instr :: instr_t where
  "zero_instr = \<lparr>optype = Unknown, opcode = 0, rs1 = 0, rs2 = 0, rd = 0, funct7 = 0, funct3 = 0,
     shamt = 0, imm5 = 0, imm12 = 0, imm20 = 0, rs1v = 0, rs2v = 0, memOffset = 0,
     jumpTarget = 0, memAccessWidth = BYTE, isJump = False, writeRd = False, readMem = False,
     writeMem = False\<rparr>"

definition zero_core :: "bus_t \<Rightarrow> core_t" where
  "zero_core b = \<lparr>c_state = FETCH, c_instruction = 0, c_prefetch = replicate (PREFETCH_SIZE - 1) 0,
     c_decoded = zero_instr, c_pc = 0, c_aluOut = 0, c_registers = replicate NUMREGS 0,
     c_cycle = 0, c_bus = b, c_csr = \<lparr>csr_state = \<lambda>_. 0\<rparr>, c_trap_pc = 0,
     c_trap_regs = replicate NUMREGS 0, c_prefetch_cnt = 0, c_id = 0,
     c_priv_mode = PMODE_MACHINE, c_trap_state = NONE, c_halted = False,
     c_trap_handler = False\<rparr>"

record RV32I_cpu_t =
  cores :: "core_t list"
  cpu_bus :: bus_t

definition cpu_init :: "bus_t \<Rightarrow> RV32I_cpu_t" where
  "cpu_init b = \<lparr>cores = replicate NUMCORES (zero_core b), cpu_bus = b\<rparr>"

definition core_init :: "RV32I_cpu_t \<Rightarrow> u32 \<Rightarrow> u32 \<Rightarrow> (core_t \<times> RV32I_cpu_t) res" where
  "core_init cpu core_num initial_pc =
     rbind (c_assert (unat core_num < NUMCORES)) (\<lambda>_.
     rbind (arr_get (cores cpu) (unat core_num)) (\<lambda>core.
     let core' = core\<lparr>c_id := ucast core_num, c_pc := initial_pc, c_bus := cpu_bus cpu,
           c_cycle := 0, c_state := FETCH, c_priv_mode := PMODE_MACHINE, c_prefetch_cnt := 0,
           c_halted := False, c_registers := replicate NUMREGS 0\<rparr>
     in Inr (core', cpu\<lparr>cores := (cores cpu)[unat core_num := core']\<rparr>)))"

section \<open>Traps\<close>

definition cause_trap :: "core_t \<Rightarrow> trap_cause_t \<Rightarrow> core_t res" where
  "cause_trap core cause =
     (let c1 = core\<lparr>c_state := TRAP, c_trap_state := ENTER\<rparr> in
      rbind (csr_read_write32 (c_csr c1) mcause (cause_code cause)) (\<lambda>(_, csr').
      Inr (c1\<lparr>c_csr := csr'\<rparr>)))"

section \<open>Fetch\<close>

fun words_of_bytes :: "u8 list \<Rightarrow> u32 list" where
  "words_of_bytes (b0 # b1 # b2 # b3 # bs) = word_of_bytes [b0, b1, b2, b3] # words_of_bytes bs"
| "words_of_bytes bs = []"

text \<open>
  The bus copies eight words to the address of \<open>core->instruction\<close>; \<open>prefetch\<close> follows
  it in the packed structure, so the first word is the instruction and the other seven
  fill the prefetch array.
\<close>

definition fetch :: "core_t \<Rightarrow> core_t res" where
  "fetch core =
     (if c_prefetch_cnt core = 0 then
        rbind (bus_read_multiple (c_bus core) (ucast (c_pc core)) (of_nat PREFETCH_SIZE) WORD)
          (\<lambda>(n, bs, b').
        let c1 = (case bs of None \<Rightarrow> core\<lparr>c_bus := b'\<rparr>
          | Some bytes \<Rightarrow> core\<lparr>c_bus := b', c_instruction := hd (words_of_bytes bytes),
                             c_prefetch := tl (words_of_bytes bytes)\<rparr>)
        in
        if n \<noteq> of_nat PREFETCH_SIZE then
          rbind (cause_trap c1 (if bus_status (c_bus c1) = BUS_READ_MISALIGNED
                                then INSTRUCTION_ADDR_MISALIGN else INSTRUCTION_ACCESS_FAULT)) (\<lambda>c2.
          rbind (c_assert False) (\<lambda>_. Inr c2))
        else Inr (c1\<lparr>c_prefetch_cnt := of_nat (PREFETCH_SIZE - 1)\<rparr>))
      else
        if unat (c_prefetch_cnt core) \<le> PREFETCH_SIZE - 1 then
          rbind (arr_get (c_prefetch core) (PREFETCH_SIZE - 1 - unat (c_prefetch_cnt core))) (\<lambda>w.
          Inr (core\<lparr>c_instruction := w, c_prefetch_cnt := c_prefetch_cnt core - 1\<rparr>))
        else Inl Out_Of_Bounds)"

section \<open>Decode\<close>

definition REG_R :: "core_t \<Rightarrow> 5 word \<Rightarrow> u32" where
  "REG_R core x = (if x = 0 then 0 else c_registers core ! unat x)"

definition REG_W :: "core_t \<Rightarrow> 5 word \<Rightarrow> u32 \<Rightarrow> core_t" where
  "REG_W core x y = core\<lparr>c_registers := (c_registers core)[unat x := (if x = 0 then 0 else y)]\<rparr>"

text \<open>The immediates of the cases \<open>B\<close> and \<open>J\<close>; each is stored without its lowest bit.\<close>

definition branch_imm :: "u32 \<Rightarrow> 12 word" where
  "branch_imm i =
     (let b12 = drop_bit 31 i AND 1;
          b105 = drop_bit 25 i AND 0b111111;
          b41 = drop_bit 8 i AND 0xf;
          b11 = drop_bit 7 i AND 1;
          bimm = push_bit 12 b12 OR push_bit 5 b105 OR push_bit 1 b41 OR push_bit 11 b11
      in ucast (drop_bit 1 bimm))"

definition jump_imm :: "u32 \<Rightarrow> 20 word" where
  "jump_imm i =
     (let j20 = drop_bit 31 i AND 0b1;
          j101 = drop_bit 21 i AND 0b1111111111;
          j11 = drop_bit 20 i AND 0b1;
          j1912 = drop_bit 12 i AND 0b11111111;
          imm = push_bit 20 j20 OR push_bit 1 j101 OR push_bit 11 j11 OR push_bit 12 j1912
      in ucast (signed_drop_bit 12 (push_bit 11 imm)))"

definition decode :: "core_t \<Rightarrow> core_t res" where
  "decode core =
     (let i = c_instruction core;
          d0 = (c_decoded core)\<lparr>isJump := False, writeRd := False, writeMem := False, readMem := False\<rparr>;
          op = ucast (i AND 0x7f) :: 8 word
      in
      rbind (arr_get decode_type_table (unat op)) (\<lambda>ty.
      let d1 = d0\<lparr>opcode := op, optype := ty,
             rs1 := ucast (drop_bit 15 i AND 31),
             rs2 := ucast (drop_bit 20 i AND 31)\<rparr>;
          d2 = d1\<lparr>rs1v := REG_R core (rs1 d1), rs2v := REG_R core (rs2 d1),
             funct3 := ucast (drop_bit 12 i AND 7),
             shamt := ucast (drop_bit 20 i AND 31),
             rd := ucast (drop_bit 7 i AND 31),
             funct7 := 0\<rparr>
      in
      case optype d2 of
        C \<Rightarrow> Inr (core\<lparr>c_decoded := d2\<rparr>)
      | R \<Rightarrow> Inr (core\<lparr>c_decoded := d2\<lparr>funct7 := ucast (drop_bit 25 i)\<rparr>\<rparr>)
      | I \<Rightarrow> Inr (core\<lparr>c_decoded := d2\<lparr>imm12 := ucast (drop_bit 20 i AND (push_bit 12 1 - 1))\<rparr>\<rparr>)
      | S \<Rightarrow> Inr (core\<lparr>c_decoded := d2\<lparr>imm12 :=
               ucast ((drop_bit 7 i AND 0b11111) OR (drop_bit 20 i AND 0xffffe0))\<rparr>\<rparr>)
      | B \<Rightarrow> Inr (core\<lparr>c_decoded := d2\<lparr>imm12 := branch_imm i\<rparr>\<rparr>)
      | U \<Rightarrow> Inr (core\<lparr>c_decoded := d2\<lparr>imm20 := ucast (drop_bit 12 i AND 0xfffff)\<rparr>\<rparr>)
      | J \<Rightarrow> Inr (core\<lparr>c_decoded := d2\<lparr>imm20 := jump_imm i\<rparr>\<rparr>)
      | Unknown \<Rightarrow> cause_trap (core\<lparr>c_decoded := d2\<rparr>) ILLEGAL_INSTRUCTION))"

end
