(* ===== verification/Execute.thy ===== *)
theory Execute
  imports Core
begin

text \<open>
  The remaining stages of a core's pipeline (\<^verbatim>\<open>src/cpu.c\<close>): \<open>execute\<close>, one
  definition per arm of its switch, \<open>memory_access\<close>, \<open>writeback\<close>, \<open>trap\<close> and
  \<open>core_cycle\<close>, which runs the stage that the core's state names. A C \<open>int\<close> is
  read with \<open>sint\<close> where it is compared and shifted with \<open>signed_drop_bit\<close>.
\<close>

section \<open>Execute\<close>

text \<open>The keys of the switches: opcode, \<open>funct3\<close> and, for two types, the top of \<open>funct7\<close>.\<close>

definition op_key :: "instr_t \<Rightarrow> u32" where
  "op_key dec = ucast (opcode dec) OR push_bit 7 (ucast (funct3 dec))"

definition op_key7 :: "instr_t \<Rightarrow> u32" where
  "op_key7 dec = ucast (opcode dec) OR push_bit 7 (ucast (funct3 dec))
     OR push_bit 11 (ucast (drop_bit 5 (funct7 dec)))"

definition se_imm12 :: "instr_t \<Rightarrow> u32" where
  "se_imm12 dec = signed_drop_bit 20 (push_bit 20 (ucast (imm12 dec)))"

definition se_imm20 :: "instr_t \<Rightarrow> u32" where
  "se_imm20 dec = (let m = push_bit (20 - 1) 1 in (ucast (imm20 dec) XOR m) - m)"

definition add_wrap :: "u32 \<Rightarrow> u32 \<Rightarrow> u32" where
  "add_wrap x y = x + y"

text \<open>C's \<open>b ? 1 : 0\<close> and its comparison of \<open>int32_t\<close> values.\<close>

definition c_bool :: "bool \<Rightarrow> u32" where
  "c_bool b = (if b then 1 else 0)"

definition slt :: "u32 \<Rightarrow> u32 \<Rightarrow> bool" where
  "slt x y \<longleftrightarrow> sint x < sint y"

definition alu_R :: "u32 \<Rightarrow> u32 \<Rightarrow> u32 \<Rightarrow> u32 option" where
  "alu_R op x y =
     (if op = op_code OP_ADD then Some (x + y)
      else if op = op_code OP_SUB then Some (x - y)
      else if op = op_code OP_SLL then Some (push_bit (unat (y AND 31)) x)
      else if op = op_code OP_SLT then Some (c_bool (slt x y))
      else if op = op_code OP_SLTU then Some (c_bool (x < y))
      else if op = op_code OP_XOR then Some (x XOR y)
      else if op = op_code OP_SRL then Some (drop_bit (unat (y AND 31)) x)
      else if op = op_code OP_SRA then Some (drop_bit (unat (y AND 31)) x)
      else if op = op_code OP_OR then Some (x OR y)
      else if op = op_code OP_AND then Some (x AND y)
      else None)"

definition execute_R :: "core_t \<Rightarrow> core_t res" where
  "execute_R core =
     (let dec = c_decoded core;
          c1 = core\<lparr>c_decoded := dec\<lparr>writeRd := True\<rparr>\<rparr>
      in case alu_R (op_key7 dec) (rs1v dec) (rs2v dec) of
           Some v \<Rightarrow> Inr (c1\<lparr>c_aluOut := v\<rparr>)
         | None \<Rightarrow> cause_trap c1 ILLEGAL_INSTRUCTION)"

definition execute_I :: "core_t \<Rightarrow> core_t res" where
  "execute_I core =
     (let dec = c_decoded core;
          op = op_key7 dec;
          se = se_imm12 dec;
          d1 = dec\<lparr>writeRd := True\<rparr>;
          alu = (\<lambda>v. Inr (core\<lparr>c_decoded := d1, c_aluOut := v\<rparr>));
          load = (\<lambda>aw v. Inr (core\<lparr>c_decoded := d1\<lparr>memOffset := rs1v dec + se,
                             memAccessWidth := aw, readMem := True\<rparr>, c_aluOut := v\<rparr>))
      in
      if op = op_code OP_JALR then
        Inr (core\<lparr>c_decoded := d1\<lparr>isJump := True, jumpTarget := rs1v dec + se\<rparr>,
               c_aluOut := c_pc core + 4\<rparr>)
      else if op = op_code OP_LB \<or> op = op_code OP_LBU then load BYTE (rs2v dec AND 0xff)
      else if op = op_code OP_LHU then load HALFWORD (rs2v dec AND 0xffff)
      else if op = op_code OP_LH then
        load HALFWORD (signed_drop_bit 16 (push_bit 16 (rs2v dec AND 0xffff)))
      else if op = op_code OP_LW then load WORD (rs2v dec AND 0xffffffff)
      else if op = op_code OP_ADDI then alu (add_wrap (rs1v dec) se)
      else if op = op_code OP_SLTI then alu (c_bool (slt (rs1v dec) se))
      else if op = op_code OP_SLTIU then alu (c_bool (rs1v dec < se))
      else if op = op_code OP_XORI then alu (rs1v dec XOR se)
      else if op = op_code OP_ORI then alu (rs1v dec OR (se AND 0xfff))
      else if op = op_code OP_ANDI then alu (rs1v dec AND se)
      else if op = op_code OP_SLLI then alu (push_bit (unat (shamt dec)) (rs1v dec))
      else if op = op_code OP_SRLI then alu (drop_bit (unat (shamt dec)) (rs1v dec))
      else if op = op_code OP_SRAI then alu (signed_drop_bit (unat (shamt dec)) (rs1v dec))
      else Inl Assert_Failed)"

definition execute_S :: "core_t \<Rightarrow> core_t res" where
  "execute_S core =
     (let dec = c_decoded core;
          op = op_key dec;
          d1 = dec\<lparr>writeMem := True, memOffset := rs1v dec + se_imm12 dec\<rparr>;
          store = (\<lambda>aw v. Inr (core\<lparr>c_decoded := d1\<lparr>memAccessWidth := aw\<rparr>, c_aluOut := v\<rparr>))
      in
      if op = op_code OP_SB then store BYTE (rs2v dec AND 0xff)
      else if op = op_code OP_SH then store HALFWORD (rs2v dec AND 0xffff)
      else if op = op_code OP_SW then store WORD (rs2v dec AND 0xffffffff)
      else Inl Assert_Failed)"

text \<open>The switch of the branches has no default: an unknown one keeps the old \<open>aluOut\<close>.\<close>

definition branch_alu :: "u32 \<Rightarrow> u32 \<Rightarrow> u32 \<Rightarrow> u32 option" where
  "branch_alu op x y =
     (if op = op_code OP_BEQ then Some (c_bool (x = y))
      else if op = op_code OP_BNE then Some (c_bool (x \<noteq> y))
      else if op = op_code OP_BLT then Some (c_bool (slt x y))
      else if op = op_code OP_BLTU then Some (c_bool (x < y))
      else if op = op_code OP_BGE then Some (c_bool (\<not> slt x y))
      else if op = op_code OP_BGEU then Some (c_bool (y \<le> x))
      else None)"

definition execute_B :: "core_t \<Rightarrow> core_t res" where
  "execute_B core =
     (let dec = c_decoded core;
          se = signed_drop_bit 19 (push_bit 20 (ucast (imm12 dec)));
          d1 = dec\<lparr>jumpTarget := c_pc core + se\<rparr>;
          alu = (case branch_alu (op_key dec) (rs1v dec) (rs2v dec) of
                   Some v \<Rightarrow> v | None \<Rightarrow> c_aluOut core)
      in Inr (core\<lparr>c_decoded := d1\<lparr>isJump := alu = 1\<rparr>, c_aluOut := alu\<rparr>))"

definition execute_U :: "core_t \<Rightarrow> core_t res" where
  "execute_U core =
     (let dec = c_decoded core;
          c1 = core\<lparr>c_decoded := dec\<lparr>writeRd := True\<rparr>\<rparr>
      in
      if ucast (opcode dec) = op_code OP_LUI AND 0x7f then
        Inr (c1\<lparr>c_aluOut := push_bit 12 (ucast (imm20 dec))\<rparr>)
      else if ucast (opcode dec) = op_code OP_AUIPC AND 0x7f then
        Inr (c1\<lparr>c_aluOut := push_bit 12 (se_imm20 dec) + c_pc core\<rparr>)
      else Inl Assert_Failed)"

definition execute_J :: "core_t \<Rightarrow> core_t res" where
  "execute_J core =
     (let dec = c_decoded core;
          d1 = dec\<lparr>isJump := True, writeRd := True\<rparr>
      in
      if ucast (opcode dec) = op_code OP_JAL AND 0x7f then
        Inr (core\<lparr>c_decoded := d1\<lparr>jumpTarget := push_bit 1 (se_imm20 dec) + c_pc core\<rparr>,
               c_aluOut := c_pc core + 4\<rparr>)
      else rbind (c_assert (opcode dec = 0)) (\<lambda>_. Inr (core\<lparr>c_decoded := d1\<rparr>)))"

definition execute_C :: "core_t \<Rightarrow> core_t res" where
  "execute_C core =
     (if ucast (opcode (c_decoded core)) = op_code OP_ECALL
      then cause_trap core ENV_CALL_UMODE
      else cause_trap core ILLEGAL_INSTRUCTION)"

definition execute :: "core_t \<Rightarrow> core_t res" where
  "execute core =
     (case optype (c_decoded core) of
        R \<Rightarrow> execute_R core
      | I \<Rightarrow> execute_I core
      | S \<Rightarrow> execute_S core
      | B \<Rightarrow> execute_B core
      | U \<Rightarrow> execute_U core
      | J \<Rightarrow> execute_J core
      | C \<Rightarrow> execute_C core
      | Unknown \<Rightarrow> cause_trap core ILLEGAL_INSTRUCTION)"

section \<open>Memory access and write-back\<close>

text \<open>
  The argument is the value an uninitialised byte of the RAM device's byte read may have.
\<close>

definition memory_access :: "u8 \<Rightarrow> core_t \<Rightarrow> core_t res" where
  "memory_access indet core =
     (let dec = c_decoded core in
      if readMem dec then
        rbind (bus_read_single indet (c_bus core) (ucast (memOffset dec)) (memAccessWidth dec))
          (\<lambda>(v, b').
        let c1 = core\<lparr>c_aluOut := v, c_bus := b'\<rparr> in
        if bus_status b' \<noteq> BUS_OK then
          (case bus_status b' of
             BUS_READ_MISALIGNED \<Rightarrow> cause_trap c1 LOAD_ADDR_MISALIGNED
           | BUS_ADDRESS_NOT_FOUND \<Rightarrow> cause_trap c1 LOAD_ACCESS_FAULT
           | _ \<Rightarrow> cause_trap c1 LOAD_PAGE_FAULT)
        else Inr c1)
      else if writeMem dec then
        rbind (bus_write_single (c_bus core) (ucast (memOffset dec)) (c_aluOut core)
                 (memAccessWidth dec))
          (\<lambda>b'.
        let c1 = core\<lparr>c_bus := b'\<rparr> in
        if bus_status b' \<noteq> BUS_OK then
          (case bus_status b' of
             BUS_WRITE_MISALIGNED \<Rightarrow> cause_trap c1 STORE_ADDR_MISALIGNED
           | BUS_ADDRESS_NOT_FOUND \<Rightarrow> cause_trap c1 STORE_ACCESS_FAULT
           | _ \<Rightarrow> cause_trap c1 STORE_PAGE_FAULT)
        else Inr c1)
      else Inr core)"

definition writeback :: "core_t \<Rightarrow> core_t" where
  "writeback core =
     (let dec = c_decoded core;
          c1 = (if writeRd dec then REG_W core (rd dec) (c_aluOut core) else core)
      in if isJump dec then c1\<lparr>c_pc := jumpTarget dec, c_prefetch_cnt := 0\<rparr>
         else c1\<lparr>c_pc := c_pc c1 + 4\<rparr>)"

section \<open>Traps and the cycle\<close>

definition trap :: "core_t \<Rightarrow> core_t res" where
  "trap core =
     (case c_trap_state core of
        NONE \<Rightarrow> Inl Assert_Failed
      | ENTER \<Rightarrow>
          let c1 = core\<lparr>c_trap_regs := c_registers core, c_prefetch_cnt := 0,
                     c_trap_pc := c_pc core\<rparr> in
          rbind (csr_read_write32 (c_csr c1) mepc (c_pc core)) (\<lambda>(_, csr').
          Inr (c1\<lparr>c_csr := csr', c_state := TRAP, c_trap_state := HANDLE\<rparr>))
      | HANDLE \<Rightarrow> Inr (core\<lparr>c_trap_state := EXIT\<rparr>)
      | EXIT \<Rightarrow>
          let c1 = core\<lparr>c_registers := c_trap_regs core\<rparr> in
          rbind (csr_read_clear32 (c_csr c1) mepc 0) (\<lambda>(epc, csr').
          Inr (c1\<lparr>c_csr := csr', c_pc := epc + 4, c_trap_state := NONE, c_state := FETCH,
                 c_prefetch_cnt := 0\<rparr>)))"

text \<open>The part of the macro \<open>_stage(stage, next)\<close> after the call of the stage.\<close>

definition stage_next :: "core_t \<Rightarrow> core_state_t \<Rightarrow> core_t" where
  "stage_next core next =
     core\<lparr>c_cycle := c_cycle core + 1,
          c_state := (if c_state core \<noteq> TRAP then next else c_state core)\<rparr>"

definition core_cycle :: "u8 \<Rightarrow> core_t \<Rightarrow> core_t res" where
  "core_cycle indet core =
     (case c_state core of
        TRAP \<Rightarrow> rbind (trap core) (\<lambda>c. Inr (stage_next c FETCH))
      | FETCH \<Rightarrow> rbind (fetch core) (\<lambda>c. Inr (stage_next c DECODE))
      | DECODE \<Rightarrow> rbind (decode core) (\<lambda>c. Inr (stage_next c EXECUTE))
      | EXECUTE \<Rightarrow> rbind (execute core) (\<lambda>c. Inr (stage_next c MEMORY))
      | MEMORY \<Rightarrow> rbind (memory_access indet core) (\<lambda>c. Inr (stage_next c WRITEBACK))
      | WRITEBACK \<Rightarrow> Inr (stage_next (writeback core) FETCH))"

text \<open>Consecutive cycles, and the indeterminate byte of each.\<close>

fun core_cycles :: "(nat \<Rightarrow> u8) \<Rightarrow> nat \<Rightarrow> core_t \<Rightarrow> core_t res" where
  "core_cycles indet 0 core = Inr core"
| "core_cycles indet (Suc n) core =
     rbind (core_cycle (indet 0) core) (core_cycles (\<lambda>k. indet (Suc k)) n)"

end
