(* ===== verification/Isa.thy ===== *)
theory Isa
  imports Execute
begin

text \<open>
  The reference: the instructions of RV32I that the emulator has an arm for, their
  encoding as the RISC-V manual lays it out, and what each does to the registers, the
  program counter and the memory of a machine without a pipeline. Nothing here is
  translated from the source; the pipeline is compared with it.

  A branch or jump offset is kept halved, as the encodings leave out its lowest bit.
\<close>

section \<open>Instructions and their encoding\<close>

type_synonym reg = "5 word"

datatype r_op = Add | Sub | Sll | Slt | Sltu | Xor | Srl | Sra | Or | And
datatype i_op = Addi | Slti | Sltiu | Xori | Ori | Andi
datatype sh_op = Slli | Srli | Srai
datatype l_op = Lb | Lh | Lw | Lbu | Lhu
datatype s_op = Sb | Sh | Sw
datatype b_op = Beq | Bne | Blt | Bge | Bltu | Bgeu

datatype insn =
    Op r_op reg reg reg
  | OpImm i_op reg reg "12 word"
  | Shift sh_op reg reg "5 word"
  | Load l_op reg reg "12 word"
  | Store s_op reg reg "12 word"
  | Branch b_op reg reg "12 word"
  | Lui reg "20 word"
  | Auipc reg "20 word"
  | Jal reg "20 word"
  | Jalr reg reg "12 word"
  | Ecall

definition enc_R :: "7 word \<Rightarrow> reg \<Rightarrow> reg \<Rightarrow> 3 word \<Rightarrow> reg \<Rightarrow> 7 word \<Rightarrow> u32" where
  "enc_R f7 r2 r1 f3 d opc =
     ucast opc OR push_bit 7 (ucast d) OR push_bit 12 (ucast f3) OR push_bit 15 (ucast r1)
     OR push_bit 20 (ucast r2) OR push_bit 25 (ucast f7)"

definition enc_I :: "12 word \<Rightarrow> reg \<Rightarrow> 3 word \<Rightarrow> reg \<Rightarrow> 7 word \<Rightarrow> u32" where
  "enc_I imm r1 f3 d opc = enc_R (ucast (drop_bit 5 imm)) (ucast imm) r1 f3 d opc"

definition enc_S :: "12 word \<Rightarrow> reg \<Rightarrow> reg \<Rightarrow> 3 word \<Rightarrow> 7 word \<Rightarrow> u32" where
  "enc_S imm r2 r1 f3 opc = enc_R (ucast (drop_bit 5 imm)) r2 r1 f3 (ucast imm) opc"

text \<open>Bits 12, 10-5 of the offset above, bits 4-1, 11 in the place of \<open>rd\<close>.\<close>

definition enc_B :: "12 word \<Rightarrow> reg \<Rightarrow> reg \<Rightarrow> 3 word \<Rightarrow> 7 word \<Rightarrow> u32" where
  "enc_B h r2 r1 f3 opc =
     enc_R (push_bit 6 (ucast (drop_bit 11 h)) OR take_bit 6 (ucast (drop_bit 4 h))) r2 r1 f3
       (push_bit 1 (take_bit 4 (ucast h)) OR take_bit 1 (ucast (drop_bit 10 h))) opc"

definition enc_U :: "20 word \<Rightarrow> reg \<Rightarrow> 7 word \<Rightarrow> u32" where
  "enc_U imm d opc = ucast opc OR push_bit 7 (ucast d) OR push_bit 12 (ucast imm)"

text \<open>Bits 20, 10-1, 11, 19-12 of the offset, from the top.\<close>

definition j_perm :: "20 word \<Rightarrow> 20 word" where
  "j_perm h = push_bit 19 (drop_bit 19 h) OR push_bit 9 (take_bit 10 h)
     OR push_bit 8 (take_bit 1 (drop_bit 10 h)) OR take_bit 8 (drop_bit 11 h)"

definition enc_J :: "20 word \<Rightarrow> reg \<Rightarrow> 7 word \<Rightarrow> u32" where
  "enc_J h d opc = enc_U (j_perm h) d opc"

fun r_funct :: "r_op \<Rightarrow> 3 word \<times> 7 word" where
  "r_funct Add = (0, 0)"
| "r_funct Sub = (0, 0x20)"
| "r_funct Sll = (1, 0)"
| "r_funct Slt = (2, 0)"
| "r_funct Sltu = (3, 0)"
| "r_funct Xor = (4, 0)"
| "r_funct Srl = (5, 0)"
| "r_funct Sra = (5, 0x20)"
| "r_funct Or = (6, 0)"
| "r_funct And = (7, 0)"

fun i_funct :: "i_op \<Rightarrow> 3 word" where
  "i_funct Addi = 0"
| "i_funct Slti = 2"
| "i_funct Sltiu = 3"
| "i_funct Xori = 4"
| "i_funct Ori = 6"
| "i_funct Andi = 7"

fun sh_funct :: "sh_op \<Rightarrow> 3 word \<times> 7 word" where
  "sh_funct Slli = (1, 0)"
| "sh_funct Srli = (5, 0)"
| "sh_funct Srai = (5, 0x20)"

fun l_funct :: "l_op \<Rightarrow> 3 word" where
  "l_funct Lb = 0"
| "l_funct Lh = 1"
| "l_funct Lw = 2"
| "l_funct Lbu = 4"
| "l_funct Lhu = 5"

fun s_funct :: "s_op \<Rightarrow> 3 word" where
  "s_funct Sb = 0"
| "s_funct Sh = 1"
| "s_funct Sw = 2"

fun b_funct :: "b_op \<Rightarrow> 3 word" where
  "b_funct Beq = 0"
| "b_funct Bne = 1"
| "b_funct Blt = 4"
| "b_funct Bge = 5"
| "b_funct Bltu = 6"
| "b_funct Bgeu = 7"

fun encode :: "insn \<Rightarrow> u32" where
  "encode (Op f d r1 r2) = enc_R (snd (r_funct f)) r2 r1 (fst (r_funct f)) d 0x33"
| "encode (OpImm f d r1 imm) = enc_I imm r1 (i_funct f) d 0x13"
| "encode (Shift f d r1 sh) = enc_R (snd (sh_funct f)) sh r1 (fst (sh_funct f)) d 0x13"
| "encode (Load f d r1 imm) = enc_I imm r1 (l_funct f) d 0x03"
| "encode (Store f r2 r1 imm) = enc_S imm r2 r1 (s_funct f) 0x23"
| "encode (Branch f r1 r2 h) = enc_B h r2 r1 (b_funct f) 0x63"
| "encode (Lui d imm) = enc_U imm d 0x37"
| "encode (Auipc d imm) = enc_U imm d 0x17"
| "encode (Jal d h) = enc_J h d 0x6f"
| "encode (Jalr d r1 imm) = enc_I imm r1 0 d 0x67"
| "encode Ecall = enc_R 0 0 0 0 0 0x73"

section \<open>What the instructions do\<close>

record isa_t =
  ipc :: u32
  ireg :: "reg \<Rightarrow> u32"
  imem :: "nat \<Rightarrow> u8"

definition isa_put :: "reg \<Rightarrow> u32 \<Rightarrow> isa_t \<Rightarrow> isa_t" where
  "isa_put d v s = (if d = 0 then s else s\<lparr>ireg := (ireg s)(d := v)\<rparr>)"

definition isa_next :: "isa_t \<Rightarrow> isa_t" where
  "isa_next s = s\<lparr>ipc := ipc s + 4\<rparr>"

definition mem_word :: "(nat \<Rightarrow> u8) \<Rightarrow> u32 \<Rightarrow> nat \<Rightarrow> u32" where
  "mem_word m a n = word_of_bytes (map m (span a n))"

definition mem_store :: "(nat \<Rightarrow> u8) \<Rightarrow> u32 \<Rightarrow> u8 list \<Rightarrow> nat \<Rightarrow> u8" where
  "mem_store m a bs = (\<lambda>x. if x \<in> set (span a (length bs)) then bs ! (x - unat a) else m x)"

fun r_sem :: "r_op \<Rightarrow> u32 \<Rightarrow> u32 \<Rightarrow> u32" where
  "r_sem Add x y = x + y"
| "r_sem Sub x y = x - y"
| "r_sem Sll x y = push_bit (unat (take_bit 5 y)) x"
| "r_sem Slt x y = (if x <s y then 1 else 0)"
| "r_sem Sltu x y = (if x < y then 1 else 0)"
| "r_sem Xor x y = x XOR y"
| "r_sem Srl x y = drop_bit (unat (take_bit 5 y)) x"
| "r_sem Sra x y = signed_drop_bit (unat (take_bit 5 y)) x"
| "r_sem Or x y = x OR y"
| "r_sem And x y = x AND y"

fun i_sem :: "i_op \<Rightarrow> u32 \<Rightarrow> 12 word \<Rightarrow> u32" where
  "i_sem Addi x imm = x + scast imm"
| "i_sem Slti x imm = (if x <s scast imm then 1 else 0)"
| "i_sem Sltiu x imm = (if x < scast imm then 1 else 0)"
| "i_sem Xori x imm = x XOR scast imm"
| "i_sem Ori x imm = x OR scast imm"
| "i_sem Andi x imm = x AND scast imm"

fun sh_sem :: "sh_op \<Rightarrow> u32 \<Rightarrow> 5 word \<Rightarrow> u32" where
  "sh_sem Slli x sh = push_bit (unat sh) x"
| "sh_sem Srli x sh = drop_bit (unat sh) x"
| "sh_sem Srai x sh = signed_drop_bit (unat sh) x"

fun b_sem :: "b_op \<Rightarrow> u32 \<Rightarrow> u32 \<Rightarrow> bool" where
  "b_sem Beq x y = (x = y)"
| "b_sem Bne x y = (x \<noteq> y)"
| "b_sem Blt x y = (x <s y)"
| "b_sem Bge x y = (y \<le>s x)"
| "b_sem Bltu x y = (x < y)"
| "b_sem Bgeu x y = (y \<le> x)"

fun l_width :: "l_op \<Rightarrow> memory_access_width_t" where
  "l_width Lb = BYTE"
| "l_width Lh = HALFWORD"
| "l_width Lw = WORD"
| "l_width Lbu = BYTE"
| "l_width Lhu = HALFWORD"

text \<open>A loaded byte or half-word, extended with its sign or with zeros.\<close>

fun l_sem :: "l_op \<Rightarrow> u32 \<Rightarrow> u32" where
  "l_sem Lb w = scast (ucast w :: u8)"
| "l_sem Lh w = scast (ucast w :: u16)"
| "l_sem Lw w = w"
| "l_sem Lbu w = w"
| "l_sem Lhu w = w"

fun s_width :: "s_op \<Rightarrow> memory_access_width_t" where
  "s_width Sb = BYTE"
| "s_width Sh = HALFWORD"
| "s_width Sw = WORD"

fun isa_step :: "insn \<Rightarrow> isa_t \<Rightarrow> isa_t" where
  "isa_step (Op f d r1 r2) s = isa_next (isa_put d (r_sem f (ireg s r1) (ireg s r2)) s)"
| "isa_step (OpImm f d r1 imm) s = isa_next (isa_put d (i_sem f (ireg s r1) imm) s)"
| "isa_step (Shift f d r1 sh) s = isa_next (isa_put d (sh_sem f (ireg s r1) sh) s)"
| "isa_step (Load f d r1 imm) s = isa_next (isa_put d
     (l_sem f (mem_word (imem s) (ireg s r1 + scast imm) (width_bytes (l_width f)))) s)"
| "isa_step (Store f r2 r1 imm) s = isa_next (s\<lparr>imem := mem_store (imem s) (ireg s r1 + scast imm)
     (bytes_of_word (width_bytes (s_width f)) (ireg s r2))\<rparr>)"
| "isa_step (Branch f r1 r2 h) s =
     (if b_sem f (ireg s r1) (ireg s r2) then s\<lparr>ipc := ipc s + 2 * scast h\<rparr> else isa_next s)"
| "isa_step (Lui d imm) s = isa_next (isa_put d (push_bit 12 (ucast imm)) s)"
| "isa_step (Auipc d imm) s = isa_next (isa_put d (ipc s + push_bit 12 (ucast imm)) s)"
| "isa_step (Jal d h) s = (isa_put d (ipc s + 4) s)\<lparr>ipc := ipc s + 2 * scast h\<rparr>"
| "isa_step (Jalr d r1 imm) s =
     (isa_put d (ipc s + 4) s)\<lparr>ipc := (ireg s r1 + scast imm) AND NOT 1\<rparr>"
| "isa_step Ecall s = s"

section \<open>The fields of an encoded instruction\<close>

text \<open>The masks of the code, as low bits.\<close>

lemma masks:
  "(0x7f :: u32) = mask 7" "(31 :: u32) = mask 5" "(7 :: u32) = mask 3" "(15 :: u32) = mask 4"
  "(63 :: u32) = mask 6" "(0xfffff :: u32) = mask 20" "(1023 :: u32) = mask 10"
  "(255 :: u32) = mask 8" "(0xfff :: u32) = mask 12" "(1 :: u32) = mask 1"
  "(0xffffe0 :: u32) = push_bit 5 (mask 19)"
  by (simp_all add: mask_eq_exp_minus_1)

lemma enc_R_fields:
  fixes f7 opc :: "7 word" and r2 r1 d :: reg and f3 :: "3 word"
  defines "i \<equiv> enc_R f7 r2 r1 f3 d opc"
  shows "(ucast (i AND mask 7) :: 8 word) = ucast opc"
    and "(ucast (drop_bit 15 i AND mask 5) :: 5 word) = r1"
    and "(ucast (drop_bit 20 i AND mask 5) :: 5 word) = r2"
    and "(ucast (drop_bit 7 i AND mask 5) :: 5 word) = d"
    and "(ucast (drop_bit 12 i AND mask 3) :: 3 word) = f3"
    and "(ucast (drop_bit 25 i) :: 7 word) = f7"
  unfolding i_def enc_R_def
  by (rule bit_word_eqI; auto simp: bit_simps dest: bit_imp_le_length)+

lemma enc_I_imm: "(ucast (drop_bit 20 (enc_I imm r1 f3 d opc) AND mask 12) :: 12 word) = imm"
  unfolding enc_I_def enc_R_def
  by (rule bit_word_eqI; auto simp: bit_simps dest: bit_imp_le_length)

lemma enc_S_imm:
  "(ucast ((drop_bit 7 (enc_S imm r2 r1 f3 opc) AND mask 5)
      OR (drop_bit 20 (enc_S imm r2 r1 f3 opc) AND push_bit 5 (mask 19))) :: 12 word) = imm"
proof (rule bit_word_eqI)
  fix n assume "n < LENGTH(12)"
  then show "bit (ucast ((drop_bit 7 (enc_S imm r2 r1 f3 opc) AND mask 5)
      OR (drop_bit 20 (enc_S imm r2 r1 f3 opc) AND push_bit 5 (mask 19))) :: 12 word) n = bit imm n"
    unfolding enc_S_def enc_R_def
    by (cases "n < 5") (auto simp: bit_simps dest: bit_imp_le_length)
qed

lemma enc_B_imm:
  fixes h :: "12 word" and r1 r2 :: reg and f3 :: "3 word" and opc :: "7 word"
  defines "i \<equiv> enc_B h r2 r1 f3 opc"
  shows "(ucast (drop_bit 1 (push_bit 12 (drop_bit 31 i AND mask 1)
      OR push_bit 5 (drop_bit 25 i AND mask 6) OR push_bit 1 (drop_bit 8 i AND mask 4)
      OR push_bit 11 (drop_bit 7 i AND mask 1))) :: 12 word) = h"
proof (rule bit_word_eqI)
  fix n assume n: "n < LENGTH(12)"
  consider "n < 4" | "4 \<le> n" "n < 10" | "n = 10" | "n = 11" using n by fastforce
  then show "bit (ucast (drop_bit 1 (push_bit 12 (drop_bit 31 i AND mask 1)
      OR push_bit 5 (drop_bit 25 i AND mask 6) OR push_bit 1 (drop_bit 8 i AND mask 4)
      OR push_bit 11 (drop_bit 7 i AND mask 1))) :: 12 word) n = bit h n"
    unfolding i_def enc_B_def enc_R_def
    by cases (auto simp: bit_simps simp del: One_nat_def push_bit_Suc take_bit_Suc drop_bit_Suc
        dest: bit_imp_le_length)
qed

lemma enc_U_fields:
  fixes opc :: "7 word" and imm :: "20 word" and d :: reg
  shows "(ucast (enc_U imm d opc AND mask 7) :: 8 word) = ucast opc"
    and "(ucast (drop_bit 7 (enc_U imm d opc) AND mask 5) :: 5 word) = d"
    and "(ucast (drop_bit 12 (enc_U imm d opc) AND mask 20) :: 20 word) = imm"
  unfolding enc_U_def
  by (rule bit_word_eqI; auto simp: bit_simps dest: bit_imp_le_length)+

lemma enc_J_imm:
  fixes h :: "20 word" and d :: reg and opc :: "7 word"
  defines "i \<equiv> enc_J h d opc"
  shows "(ucast (signed_drop_bit 12 (push_bit 11 (push_bit 20 (drop_bit 31 i AND mask 1)
      OR push_bit 1 (drop_bit 21 i AND mask 10) OR push_bit 11 (drop_bit 20 i AND mask 1)
      OR push_bit 12 (drop_bit 12 i AND mask 8)))) :: 20 word) = h"
proof (rule bit_word_eqI)
  fix n assume n: "n < LENGTH(20)"
  consider "n < 10" | "n = 10" | "11 \<le> n" "n < 19" | "n = 19" using n by fastforce
  then show "bit (ucast (signed_drop_bit 12 (push_bit 11 (push_bit 20 (drop_bit 31 i AND mask 1)
      OR push_bit 1 (drop_bit 21 i AND mask 10) OR push_bit 11 (drop_bit 20 i AND mask 1)
      OR push_bit 12 (drop_bit 12 i AND mask 8)))) :: 20 word) n = bit h n"
    unfolding i_def enc_J_def j_perm_def enc_U_def
    by cases (auto simp: bit_simps simp del: One_nat_def push_bit_Suc take_bit_Suc drop_bit_Suc
        dest: bit_imp_le_length)
qed

end
