(* ===== verification/Decode_Spec.thy ===== *)
theory Decode_Spec
  imports Isa
begin

text \<open>
  The decode stage against the encodings of the manual: for every instruction the fields
  that the stage writes are those the instruction was encoded from.
\<close>

lemmas R_fields = enc_R_fields [folded masks]

lemma ISB_fields:
  fixes imm :: "12 word" and r2 r1 d :: reg and f3 :: "3 word" and opc :: "7 word"
  shows "(ucast (enc_I imm r1 f3 d opc AND 127) :: 8 word) = ucast opc"
    "(ucast (drop_bit 15 (enc_I imm r1 f3 d opc) AND 31) :: 5 word) = r1"
    "(ucast (drop_bit 7 (enc_I imm r1 f3 d opc) AND 31) :: 5 word) = d"
    "(ucast (drop_bit 12 (enc_I imm r1 f3 d opc) AND 7) :: 3 word) = f3"
    "(ucast (enc_S imm r2 r1 f3 opc AND 127) :: 8 word) = ucast opc"
    "(ucast (drop_bit 15 (enc_S imm r2 r1 f3 opc) AND 31) :: 5 word) = r1"
    "(ucast (drop_bit 20 (enc_S imm r2 r1 f3 opc) AND 31) :: 5 word) = r2"
    "(ucast (drop_bit 12 (enc_S imm r2 r1 f3 opc) AND 7) :: 3 word) = f3"
    "(ucast (enc_B imm r2 r1 f3 opc AND 127) :: 8 word) = ucast opc"
    "(ucast (drop_bit 15 (enc_B imm r2 r1 f3 opc) AND 31) :: 5 word) = r1"
    "(ucast (drop_bit 20 (enc_B imm r2 r1 f3 opc) AND 31) :: 5 word) = r2"
    "(ucast (drop_bit 12 (enc_B imm r2 r1 f3 opc) AND 7) :: 3 word) = f3"
  by (simp_all add: enc_I_def enc_S_def enc_B_def R_fields)

lemmas I_imm = enc_I_imm [folded masks]
lemmas S_imm = enc_S_imm [folded masks]

lemma B_imm: "branch_imm (enc_B h r2 r1 f3 opc) = h"
  using enc_B_imm [folded masks] by (simp only: branch_imm_def Let_def)

lemmas U_fields = enc_U_fields [folded masks]

lemma J_fields:
  fixes h :: "20 word" and d :: reg and opc :: "7 word"
  shows "(ucast (enc_J h d opc AND 127) :: 8 word) = ucast opc"
    "(ucast (drop_bit 7 (enc_J h d opc) AND 31) :: 5 word) = d"
  by (simp_all add: enc_J_def U_fields)

lemma J_imm: "jump_imm (enc_J h d opc) = h"
  using enc_J_imm [folded masks] by (simp only: jump_imm_def Let_def)

lemma decode_table:
  "length decode_type_table = 128"
  "decode_type_table ! 0x33 = R" "decode_type_table ! 0x13 = I" "decode_type_table ! 0x03 = I"
  "decode_type_table ! 0x67 = I" "decode_type_table ! 0x23 = S" "decode_type_table ! 0x63 = B"
  "decode_type_table ! 0x37 = U" "decode_type_table ! 0x17 = U" "decode_type_table ! 0x6f = J"
  "decode_type_table ! 0x73 = C"
  by code_simp+

text \<open>What decoding instruction \<open>i\<close> with register file \<open>r\<close> leaves in the fields that \<open>execute\<close> uses.\<close>

fun decoded_as :: "insn \<Rightarrow> (reg \<Rightarrow> u32) \<Rightarrow> instr_t \<Rightarrow> bool" where
  "decoded_as (Op f d r1 r2) r x \<longleftrightarrow> optype x = R \<and> opcode x = 0x33 \<and>
     funct3 x = fst (r_funct f) \<and> funct7 x = snd (r_funct f) \<and> rd x = d \<and> rs1v x = r r1 \<and> rs2v x = r r2"
| "decoded_as (OpImm f d r1 imm) r x \<longleftrightarrow> optype x = I \<and> opcode x = 0x13 \<and>
     funct3 x = i_funct f \<and> funct7 x = 0 \<and> rd x = d \<and> rs1v x = r r1 \<and> imm12 x = imm"
| "decoded_as (Shift f d r1 sh) r x \<longleftrightarrow> optype x = I \<and> opcode x = 0x13 \<and>
     funct3 x = fst (sh_funct f) \<and> funct7 x = 0 \<and> rd x = d \<and> rs1v x = r r1 \<and> shamt x = sh"
| "decoded_as (Load f d r1 imm) r x \<longleftrightarrow> optype x = I \<and> opcode x = 0x03 \<and>
     funct3 x = l_funct f \<and> funct7 x = 0 \<and> rd x = d \<and> rs1v x = r r1 \<and> imm12 x = imm"
| "decoded_as (Store f r2 r1 imm) r x \<longleftrightarrow> optype x = S \<and> opcode x = 0x23 \<and>
     funct3 x = s_funct f \<and> rs1v x = r r1 \<and> rs2v x = r r2 \<and> imm12 x = imm"
| "decoded_as (Branch f r1 r2 h) r x \<longleftrightarrow> optype x = B \<and> opcode x = 0x63 \<and>
     funct3 x = b_funct f \<and> rs1v x = r r1 \<and> rs2v x = r r2 \<and> imm12 x = h"
| "decoded_as (Lui d imm) r x \<longleftrightarrow> optype x = U \<and> opcode x = 0x37 \<and> rd x = d \<and> imm20 x = imm"
| "decoded_as (Auipc d imm) r x \<longleftrightarrow> optype x = U \<and> opcode x = 0x17 \<and> rd x = d \<and> imm20 x = imm"
| "decoded_as (Jal d h) r x \<longleftrightarrow> optype x = J \<and> opcode x = 0x6f \<and> rd x = d \<and> imm20 x = h"
| "decoded_as (Jalr d r1 imm) r x \<longleftrightarrow> optype x = I \<and> opcode x = 0x67 \<and> funct3 x = 0 \<and>
     funct7 x = 0 \<and> rd x = d \<and> rs1v x = r r1 \<and> imm12 x = imm"
| "decoded_as Ecall r x \<longleftrightarrow> optype x = C \<and> opcode x = 0x73"

definition no_effects :: "instr_t \<Rightarrow> bool" where
  "no_effects x \<longleftrightarrow> \<not> isJump x \<and> \<not> writeRd x \<and> \<not> readMem x \<and> \<not> writeMem x"

lemma decode_insn:
  assumes "c_instruction core = encode i"
  shows "\<exists>x. decode core = Inr (core\<lparr>c_decoded := x\<rparr>) \<and> decoded_as i (REG_R core) x \<and> no_effects x"
proof -
  have eqI: "\<exists>x. Inr (core\<lparr>c_decoded := y\<rparr>) = Inr (core\<lparr>c_decoded := x\<rparr>) \<and> P x" if "P y"
    for y and P :: "instr_t \<Rightarrow> bool"
    using that by blast
  note fields = R_fields ISB_fields U_fields J_fields
  show ?thesis
    by (cases i)
      (simp_all add: decode_def Let_def fields I_imm S_imm B_imm J_imm decode_table assms
        no_effects_def del: sum.inject, (rule eqI, simp)+)
qed

text \<open>
  C9. Decoding inverts encoding: for every instruction of RV32I that the emulator knows,
  decoding the word that the manual's encoding gives changes nothing but the decoded
  instruction, whose fields are the instruction's operation, registers and (unscrambled)
  immediate, with the register values read and no effect requested. One field is lost:
  the decoded \<open>funct7\<close> of an immediate shift is 0, also for \<open>SRAI\<close>.
\<close>

theorem decode_encode:
  assumes "c_instruction core = encode i"
  shows "\<exists>x. decode core = Inr (core\<lparr>c_decoded := x\<rparr>) \<and> decoded_as i (REG_R core) x \<and> no_effects x"
  using assms by (rule decode_insn)

theorem decode_encode_witness:
  "\<exists>x. decode ((zero_core (tiny_bus (tiny_mmu 6)))\<lparr>c_instruction := 0x00500093\<rparr>)
      = Inr ((zero_core (tiny_bus (tiny_mmu 6)))\<lparr>c_instruction := 0x00500093, c_decoded := x\<rparr>)
    \<and> decoded_as (OpImm Addi 1 0 5) (\<lambda>_. 0) x"
proof -
  let ?c = "(zero_core (tiny_bus (tiny_mmu 6)))\<lparr>c_instruction := 0x00500093\<rparr>"
  have "0x00500093 = encode (OpImm Addi 1 0 5)" by code_simp
  moreover have "REG_R ?c 0 = 0" by (simp add: REG_R_def zero_core_def)
  ultimately show ?thesis
    using decode_encode [of ?c "OpImm Addi 1 0 5"] by auto
qed

end
