(* ===== verification/Words.thy ===== *)
theory Words
  imports Decode_Spec
begin

text \<open>
  What each of the \<open>2 ^ 32\<close> instruction words is to the emulator. \<open>outcome\<close> is the
  specification: the instruction of RV32I that the word runs as, the trap it causes, the
  assertion it fails, or the one kind of branch whose condition is left over from an earlier
  instruction. It inverts \<open>encode\<close>, and it gives an instruction to words that no manual
  defines as well.
\<close>

section \<open>The outcome of a word\<close>

datatype outcome =
    Runs insn
  | Traps nat trap_cause_t
  | Aborts
  | Stale "12 word"

text \<open>The fields, where the manual's encodings have them.\<close>

abbreviation rd_of :: "u32 \<Rightarrow> reg" where "rd_of w \<equiv> ucast (drop_bit 7 w AND 31)"
abbreviation rs1_of :: "u32 \<Rightarrow> reg" where "rs1_of w \<equiv> ucast (drop_bit 15 w AND 31)"
abbreviation rs2_of :: "u32 \<Rightarrow> reg" where "rs2_of w \<equiv> ucast (drop_bit 20 w AND 31)"
abbreviation f3_of :: "u32 \<Rightarrow> 3 word" where "f3_of w \<equiv> ucast (drop_bit 12 w AND 7)"
abbreviation f7_of :: "u32 \<Rightarrow> 7 word" where "f7_of w \<equiv> ucast (drop_bit 25 w)"
abbreviation imm_I :: "u32 \<Rightarrow> 12 word" where "imm_I w \<equiv> ucast (drop_bit 20 w AND 0xfff)"
abbreviation imm_S :: "u32 \<Rightarrow> 12 word" where
  "imm_S w \<equiv> ucast ((drop_bit 7 w AND 31) OR (drop_bit 20 w AND 0xffffe0))"
abbreviation imm_U :: "u32 \<Rightarrow> 20 word" where "imm_U w \<equiv> ucast (drop_bit 12 w AND 0xfffff)"

definition r_ops :: "r_op list" where
  "r_ops = [Add, Sub, Sll, Slt, Sltu, Xor, Srl, Sra, Or, And]"

definition i_ops :: "i_op list" where
  "i_ops = [Addi, Slti, Sltiu, Xori, Ori, Andi]"

definition l_ops :: "l_op list" where
  "l_ops = [Lb, Lh, Lw, Lbu, Lhu]"

definition s_ops :: "s_op list" where
  "s_ops = [Sb, Sh, Sw]"

definition b_ops :: "b_op list" where
  "b_ops = [Beq, Bne, Blt, Bge, Bltu, Bgeu]"

text \<open>The emulator looks at the two top bits of \<open>funct7\<close> only.\<close>

definition r_like :: "3 word \<Rightarrow> 7 word \<Rightarrow> r_op \<Rightarrow> bool" where
  "r_like f3 f7 f \<longleftrightarrow> fst (r_funct f) = f3 \<and> drop_bit 5 (snd (r_funct f)) = drop_bit 5 f7"

text \<open>\<open>Traps n k\<close>: the \<open>n\<close>th cycle after the fetch traps with cause \<open>k\<close>.\<close>

definition outcome :: "u32 \<Rightarrow> outcome" where
  "outcome w =
     (let opc = w AND 0x7f; d = rd_of w; r1 = rs1_of w; r2 = rs2_of w; f3 = f3_of w; f7 = f7_of w in
      if opc = 0x33 then
        (case find (r_like f3 f7) r_ops of
           Some f \<Rightarrow> Runs (Op f d r1 r2) | None \<Rightarrow> Traps 2 ILLEGAL_INSTRUCTION)
      else if opc = 0x13 then
        (case find (\<lambda>f. i_funct f = f3) i_ops of
           Some f \<Rightarrow> Runs (OpImm f d r1 (imm_I w))
         | None \<Rightarrow> Runs (Shift (if f3 = 1 then Slli else if drop_bit 5 f7 = 1 then Srai else Srli) d r1 r2))
      else if opc = 0x03 then
        (case find (\<lambda>f. l_funct f = f3) l_ops of
           Some f \<Rightarrow> Runs (Load f d r1 (imm_I w)) | None \<Rightarrow> Aborts)
      else if opc = 0x67 then (if f3 = 0 then Runs (Jalr d r1 (imm_I w)) else Aborts)
      else if opc = 0x23 then
        (case find (\<lambda>f. s_funct f = f3) s_ops of
           Some f \<Rightarrow> Runs (Store f r2 r1 (imm_S w)) | None \<Rightarrow> Aborts)
      else if opc = 0x63 then
        (case find (\<lambda>f. b_funct f = f3) b_ops of
           Some f \<Rightarrow> Runs (Branch f r1 r2 (branch_imm w)) | None \<Rightarrow> Stale (branch_imm w))
      else if opc = 0x37 then Runs (Lui d (imm_U w))
      else if opc = 0x17 then Runs (Auipc d (imm_U w))
      else if opc = 0x6f then Runs (Jal d (jump_imm w))
      else if opc = 0x73 then Traps 2 ENV_CALL_UMODE
      else Traps 1 ILLEGAL_INSTRUCTION)"

section \<open>It inverts the encoding\<close>

lemma low7:
  assumes "(ucast (w AND 127 :: u32) :: 8 word) = ucast (opc :: 7 word)"
  shows "w AND 127 = ucast opc"
proof -
  have m: "(127 :: u32) = mask 7" by (simp add: mask_eq_exp_minus_1)
  have "w AND 127 = ucast (ucast (w AND 127) :: 8 word)"
    unfolding m by (rule bit_word_eqI) (auto simp: bit_simps)
  also have "\<dots> = ucast (ucast opc :: 8 word)" using assms by simp
  also have "\<dots> = ucast opc" by (rule bit_word_eqI) (auto simp: bit_simps dest: bit_imp_le_length)
  finally show ?thesis .
qed

lemmas enc_low7 = R_fields(1) [THEN low7] ISB_fields(1,5,9) [THEN low7] U_fields(1) [THEN low7]
  J_fields(1) [THEN low7]

lemmas ops_defs = r_ops_def i_ops_def l_ops_def s_ops_def b_ops_def r_like_def

lemma outcome_insn:
  assumes "i \<noteq> Ecall"
  shows "outcome (encode i) = Runs i"
proof (cases i)
  case (Op f d r1 r2)
  then show ?thesis by (cases f) (simp_all add: outcome_def enc_low7 R_fields ops_defs)
next
  case (OpImm f d r1 imm)
  then show ?thesis by (cases f) (simp_all add: outcome_def enc_low7 ISB_fields I_imm ops_defs)
next
  case (Shift f d r1 sh)
  then show ?thesis by (cases f) (simp_all add: outcome_def enc_low7 R_fields ops_defs)
next
  case (Load f d r1 imm)
  then show ?thesis by (cases f) (simp_all add: outcome_def enc_low7 ISB_fields I_imm ops_defs)
next
  case (Store f r2 r1 imm)
  then show ?thesis by (cases f) (simp_all add: outcome_def enc_low7 ISB_fields S_imm ops_defs)
next
  case (Branch f r1 r2 h)
  then show ?thesis by (cases f) (simp_all add: outcome_def enc_low7 ISB_fields B_imm ops_defs)
qed (use assms in \<open>simp_all add: outcome_def enc_low7 ISB_fields U_fields J_fields I_imm J_imm\<close>)

lemma outcome_Ecall: "outcome (encode Ecall) = Traps 2 ENV_CALL_UMODE"
  by (simp add: outcome_def enc_low7)

lemma runs_not_Ecall: "outcome w = Runs i \<Longrightarrow> i \<noteq> Ecall"
  by (auto simp: outcome_def Let_def split: if_splits option.splits)

text \<open>
  Words that are no instruction of RV32I, as examples: system instructions other than
  \<open>ECALL\<close>, register instructions of extensions (\<open>MUL\<close> has \<open>funct7 = 1\<close>),
  reserved widths and reserved conditions.
\<close>

lemma outcome_system: "w AND 0x7f = 0x73 \<Longrightarrow> outcome w = Traps 2 ENV_CALL_UMODE"
  by (simp add: outcome_def)

lemma outcome_funct7:
  assumes "drop_bit 5 f7 = drop_bit 5 (snd (r_funct f))"
  shows "outcome (enc_R f7 r2 r1 (fst (r_funct f)) d 0x33) = Runs (Op f d r1 r2)"
  using assms by (cases f) (simp_all add: outcome_def enc_low7 R_fields ops_defs)

lemma outcome_reserved_width:
  "f3 \<in> {3, 6, 7} \<Longrightarrow> outcome (enc_I imm r1 f3 d 0x03) = Aborts"
  "f3 \<in> {3, 4, 5, 6, 7} \<Longrightarrow> outcome (enc_S imm r2 r1 f3 0x23) = Aborts"
  by (auto simp: outcome_def enc_low7 ISB_fields ops_defs)

lemma outcome_reserved_condition: "f3 \<in> {2, 3} \<Longrightarrow> outcome (enc_B h r2 r1 f3 0x63) = Stale h"
  by (auto simp: outcome_def enc_low7 ISB_fields B_imm ops_defs)

section \<open>How the words decode\<close>

lemma table_lookup:
  "arr_get decode_type_table (unat (ucast (w AND 0x7f :: u32) :: 8 word))
    = Inr (decode_type_table ! unat (w AND 0x7f))"
proof -
  have "unat (w AND 0x7f) < 128"
    using unsigned_take_bit_eq [of 7 w, where 'a = nat] take_bit_nat_less_exp [of 7 "unat w"]
    unfolding masks by (simp add: take_bit_eq_mask)
  moreover from this have "unat (ucast (w AND 0x7f) :: 8 word) = unat (w AND 0x7f)"
    by (simp add: unsigned_ucast_eq take_bit_nat_eq_self)
  ultimately show ?thesis by (simp add: arr_get_def decode_table)
qed

text \<open>The ten opcodes of the decode table.\<close>

definition opcodes :: "nat list" where
  "opcodes = [0x03, 0x13, 0x17, 0x23, 0x33, 0x37, 0x63, 0x67, 0x6f, 0x73]"

lemma decode_table_other:
  assumes "k < 128" and "k \<notin> set opcodes"
  shows "decode_type_table ! k = Unknown"
proof -
  have "list_all (\<lambda>k. k \<in> set opcodes \<or> decode_type_table ! k = Unknown) [0..<128]" by code_simp
  then show ?thesis using assms by (auto simp: list_all_iff)
qed

lemma decode_type_other:
  assumes "w AND 0x7f \<notin> set (map word_of_nat opcodes)"
  shows "decode_type_table ! unat (w AND 0x7f :: u32) = Unknown"
proof (rule decode_table_other)
  show "unat (w AND 0x7f) < 128"
    using unsigned_take_bit_eq [of 7 w, where 'a = nat] take_bit_nat_less_exp [of 7 "unat w"]
    unfolding masks by (simp add: take_bit_eq_mask)
  show "unat (w AND 0x7f) \<notin> set opcodes"
  proof
    assume "unat (w AND 0x7f) \<in> set opcodes"
    then have "(word_of_nat (unat (w AND 0x7f)) :: u32) \<in> word_of_nat ` set opcodes" by (rule imageI)
    then show False using assms by (simp del: of_nat_unat) simp
  qed
qed

lemma decode_fields:
  assumes "c_instruction c = w" and "decode_type_table ! unat (w AND 0x7f) = ty" and "ty \<noteq> Unknown"
  shows "\<exists>x. decode c = Inr (c\<lparr>c_decoded := x\<rparr>) \<and> no_effects x \<and> optype x = ty
    \<and> opcode x = ucast (w AND 0x7f) \<and> rd x = rd_of w \<and> funct3 x = f3_of w \<and> shamt x = rs2_of w
    \<and> rs1v x = REG_R c (rs1_of w) \<and> rs2v x = REG_R c (rs2_of w)
    \<and> funct7 x = (if ty = R then f7_of w else 0) \<and> (ty = I \<longrightarrow> imm12 x = imm_I w)
    \<and> (ty = S \<longrightarrow> imm12 x = imm_S w) \<and> (ty = B \<longrightarrow> imm12 x = branch_imm w)
    \<and> (ty = U \<longrightarrow> imm20 x = imm_U w) \<and> (ty = J \<longrightarrow> imm20 x = jump_imm w)"
  using assms by (cases ty) (auto simp: decode_def Let_def table_lookup no_effects_def)

text \<open>
  What the execute stage needs of a decoded instruction to run it as \<open>i\<close>: of a register
  instruction's \<open>funct7\<close> only the two top bits count.
\<close>

fun runs_as :: "insn \<Rightarrow> (reg \<Rightarrow> u32) \<Rightarrow> instr_t \<Rightarrow> bool" where
  "runs_as (Op f d r1 r2) r x \<longleftrightarrow> optype x = R \<and> opcode x = 0x33 \<and> r_like (funct3 x) (funct7 x) f
     \<and> rd x = d \<and> rs1v x = r r1 \<and> rs2v x = r r2"
| "runs_as (Shift f d r1 sh) r x \<longleftrightarrow> optype x = I \<and> opcode x = 0x13 \<and> funct3 x = fst (sh_funct f)
     \<and> funct7 x = 0 \<and> rd x = d \<and> rs1v x = r r1 \<and> shamt x = sh"
| "runs_as i r x \<longleftrightarrow> decoded_as i r x"

lemma decoded_runs_as: "decoded_as i r x \<Longrightarrow> runs_as i r x"
  by (cases i) (simp_all add: r_like_def)

lemma find_ops:
  "find P xs = Some f \<Longrightarrow> P f" "find P xs = None \<Longrightarrow> x \<in> set xs \<Longrightarrow> \<not> P x"
  by (auto simp: find_Some_iff find_None_iff)

lemma f3_cases: "f3 \<in> {0, 1, 2, 3, 4, 5, 6, 7}" for f3 :: "3 word"
proof -
  have "unat f3 < 8" using unsigned_less [of f3, where 'a = nat] by simp
  then have "unat f3 \<in> {0, 1, 2, 3, 4, 5, 6, 7}" by auto
  then have "word_of_nat (unat f3) \<in> (word_of_nat ` {0, 1, 2, 3, 4, 5, 6, 7} :: 3 word set)" by blast
  then show ?thesis by simp
qed

text \<open>The two values that are no \<open>funct3\<close> of an instruction with an immediate are the shifts'.\<close>

lemma shift_f3: "find (\<lambda>f. i_funct f = f3) i_ops = None \<Longrightarrow> f3 = 1 \<or> f3 = 5"
  using f3_cases [of f3] by (auto simp: ops_defs)

lemma decode_runs:
  assumes "outcome (c_instruction c) = Runs i"
  shows "\<exists>x. decode c = Inr (c\<lparr>c_decoded := x\<rparr>) \<and> runs_as i (REG_R c) x \<and> no_effects x"
proof -
  let ?w = "c_instruction c"
  define ty where "ty = decode_type_table ! unat (?w AND 0x7f)"
  have ty: "ty \<noteq> Unknown"
    using assms by (auto simp: outcome_def Let_def ty_def decode_table split: if_splits)
  from decode_fields [OF refl ty_def [symmetric] this] obtain x where "decode c = Inr (c\<lparr>c_decoded := x\<rparr>)"
    and x: "no_effects x" "optype x = ty"
    "opcode x = ucast (?w AND 0x7f)" "rd x = rd_of ?w" "funct3 x = f3_of ?w" "shamt x = rs2_of ?w"
    "rs1v x = REG_R c (rs1_of ?w)" "rs2v x = REG_R c (rs2_of ?w)" "funct7 x = (if ty = R then f7_of ?w else 0)"
    "ty = I \<longrightarrow> imm12 x = imm_I ?w" "ty = S \<longrightarrow> imm12 x = imm_S ?w" "ty = B \<longrightarrow> imm12 x = branch_imm ?w"
    "ty = U \<longrightarrow> imm20 x = imm_U ?w" "ty = J \<longrightarrow> imm20 x = jump_imm ?w" by blast
  have "runs_as i (REG_R c) x"
    using assms x unfolding outcome_def Let_def
    by (auto simp: ty_def decode_table dest: find_ops(1) shift_f3 split: if_splits option.splits)
  then show ?thesis using x(1) \<open>decode c = _\<close> by blast
qed

section \<open>A word is the encoding of its fields\<close>

text \<open>The bits of an encoding, and the fields of a word put together again.\<close>

lemma bit_enc_R:
  assumes "n < 32"
  shows "bit (enc_R f7 r2 r1 f3 d opc) n =
    (if n < 7 then bit opc n else if n < 12 then bit d (n - 7) else if n < 15 then bit f3 (n - 12)
     else if n < 20 then bit r1 (n - 15) else if n < 25 then bit r2 (n - 20) else bit f7 (n - 25))"
proof -
  have "\<not> 7 \<le> n \<or> \<not> bit opc n" "\<not> 12 \<le> n \<or> \<not> bit d (n - 7)" "\<not> 15 \<le> n \<or> \<not> bit f3 (n - 12)"
    "\<not> 20 \<le> n \<or> \<not> bit r1 (n - 15)" "\<not> 25 \<le> n \<or> \<not> bit r2 (n - 20)"
    using bit_imp_le_length [of opc n] bit_imp_le_length [of d "n - 7"] bit_imp_le_length [of f3 "n - 12"]
    bit_imp_le_length [of r1 "n - 15"] bit_imp_le_length [of r2 "n - 20"] by auto
  then show ?thesis
    using assms unfolding enc_R_def bit_or_iff bit_push_bit_iff bit_unsigned_iff by auto
qed

lemma bit_enc_U:
  assumes "n < 32"
  shows "bit (enc_U imm d opc) n =
    (if n < 7 then bit opc n else if n < 12 then bit d (n - 7) else bit imm (n - 12))"
proof -
  have "\<not> 7 \<le> n \<or> \<not> bit opc n" "\<not> 12 \<le> n \<or> \<not> bit d (n - 7)"
    using bit_imp_le_length [of opc n] bit_imp_le_length [of d "n - 7"] by auto
  then show ?thesis
    using assms unfolding enc_U_def bit_or_iff bit_push_bit_iff bit_unsigned_iff by auto
qed

lemma bit_masks:
  "bit (x AND 127 :: u32) k \<longleftrightarrow> k < 7 \<and> bit x k" "bit (x AND 31 :: u32) k \<longleftrightarrow> k < 5 \<and> bit x k"
  "bit (x AND 7 :: u32) k \<longleftrightarrow> k < 3 \<and> bit x k" "bit (x AND 0xfff :: u32) k \<longleftrightarrow> k < 12 \<and> bit x k"
  "bit (x AND 0xfffff :: u32) k \<longleftrightarrow> k < 20 \<and> bit x k" "bit (x AND 15 :: u32) k \<longleftrightarrow> k < 4 \<and> bit x k"
  "bit (x AND 63 :: u32) k \<longleftrightarrow> k < 6 \<and> bit x k" "bit (x AND 1023 :: u32) k \<longleftrightarrow> k < 10 \<and> bit x k"
  "bit (x AND 255 :: u32) k \<longleftrightarrow> k < 8 \<and> bit x k" "bit (x AND 1 :: u32) k \<longleftrightarrow> k < 1 \<and> bit x k"
  "bit (x AND 0xffffe0 :: u32) k \<longleftrightarrow> 5 \<le> k \<and> k < 24 \<and> bit x k"
  unfolding masks by (auto simp: bit_simps)

lemmas bit_words = bit_masks bit_or_iff bit_unsigned_iff bit_push_bit_iff bit_drop_bit_eq
  bit_take_bit_iff

lemma fields_R: "enc_R (f7_of w) (rs2_of w) (rs1_of w) (f3_of w) (rd_of w) (ucast (w AND 0x7f)) = w"
  by (rule bit_word_eqI) (auto simp: bit_enc_R bit_words)

lemma fields_I: "enc_I (imm_I w) (rs1_of w) (f3_of w) (rd_of w) (ucast (w AND 0x7f)) = w"
  unfolding enc_I_def by (rule bit_word_eqI) (auto simp: bit_enc_R bit_words)

lemma fields_S: "enc_S (imm_S w) (rs2_of w) (rs1_of w) (f3_of w) (ucast (w AND 0x7f)) = w"
  unfolding enc_S_def by (rule bit_word_eqI) (auto simp: bit_enc_R bit_words)

lemma fields_U: "enc_U (imm_U w) (rd_of w) (ucast (w AND 0x7f)) = w"
  by (rule bit_word_eqI) (auto simp: bit_enc_U bit_words)

lemma bit_branch_imm:
  assumes "n < 12"
  shows "bit (branch_imm w) n = (if n < 4 then bit w (n + 8) else if n < 10 then bit w (n + 21)
    else if n = 10 then bit w 7 else bit w 31)"
proof -
  from assms consider "n < 4" | "4 \<le> n" "n < 10" | "n = 10" | "n = 11" by linarith
  then show ?thesis
    unfolding branch_imm_def Let_def bit_words by cases (auto simp: add.commute)
qed

lemma fields_B: "enc_B (branch_imm w) (rs2_of w) (rs1_of w) (f3_of w) (ucast (w AND 0x7f)) = w"
proof (rule bit_word_eqI)
  fix n :: nat assume n: "n < LENGTH(32)"
  then consider "n < 7" | "n = 7" | "8 \<le> n" "n < 12" | "12 \<le> n" "n < 25" | "25 \<le> n" "n < 31" | "n = 31"
    by fastforce
  then show "bit (enc_B (branch_imm w) (rs2_of w) (rs1_of w) (f3_of w) (ucast (w AND 0x7f))) n = bit w n"
    unfolding enc_B_def bit_enc_R [OF n [simplified]] bit_words
    by cases (auto simp: bit_branch_imm add.commute)
qed

lemma bit_jump_imm:
  assumes "n < 20"
  shows "bit (jump_imm w) n = (if n < 10 then bit w (n + 21) else if n = 10 then bit w 20
    else if n < 19 then bit w (n + 1) else bit w 31)"
proof -
  from assms consider "n < 10" | "n = 10" | "11 \<le> n" "n < 19" | "n = 19" by linarith
  moreover have sd: "bit (signed_drop_bit 12 x :: u32) n = bit x (12 + n)" for x
    using assms by (simp add: bit_simps min_def)
  ultimately show ?thesis
    unfolding jump_imm_def Let_def bit_words sd by cases (auto simp: add.commute)
qed

lemma fields_J: "enc_J (jump_imm w) (rd_of w) (ucast (w AND 0x7f)) = w"
proof (rule bit_word_eqI)
  fix n :: nat assume n: "n < LENGTH(32)"
  then consider "n < 12" | "12 \<le> n" "n < 20" | "n = 20" | "21 \<le> n" "n < 31" | "n = 31" by fastforce
  then show "bit (enc_J (jump_imm w) (rd_of w) (ucast (w AND 0x7f))) n = bit w n"
    unfolding enc_J_def j_perm_def bit_enc_U [OF n [simplified]] bit_words
    by cases (auto simp: bit_jump_imm add.commute)
qed

section \<open>Which words run, in the terms of the manual\<close>

text \<open>
  The words the emulator takes for \<open>i\<close>: its encoding; for a register instruction also those
  with other lower bits in \<open>funct7\<close>; for a shift by an immediate, those with any other
  \<open>funct7\<close>.
\<close>

fun spells :: "insn \<Rightarrow> u32 \<Rightarrow> bool" where
  "spells (Op f d r1 r2) w \<longleftrightarrow> w = enc_R (f7_of w) r2 r1 (fst (r_funct f)) d 0x33
     \<and> drop_bit 5 (f7_of w) = drop_bit 5 (snd (r_funct f))"
| "spells (Shift f d r1 sh) w \<longleftrightarrow> w = enc_R (f7_of w) sh r1 (fst (sh_funct f)) d 0x13
     \<and> (f = Slli \<or> (f = Srai \<longleftrightarrow> drop_bit 5 (f7_of w) = 1))"
| "spells i w \<longleftrightarrow> w = encode i"

lemma outcome_spelt:
  assumes "spells i w" and "i \<noteq> Ecall"
  shows "outcome w = Runs i"
proof (cases i)
  case (Op f d r1 r2)
  then show ?thesis using assms outcome_funct7 [of "f7_of w" f r2 r1 d] by simp
next
  case (Shift f d r1 sh)
  have "outcome (enc_R f7 sh r1 (fst (sh_funct f)) d 0x13) = Runs (Shift f d r1 sh)"
    if "f = Slli \<or> (f = Srai \<longleftrightarrow> drop_bit 5 f7 = 1)" for f7
    using that by (cases f) (simp_all add: outcome_def enc_low7 R_fields ops_defs)
  from this [of "f7_of w"] show ?thesis using assms Shift by simp
qed (use assms outcome_insn [of i] in \<open>simp_all del: encode.simps\<close>)

lemma runs_spelt:
  assumes "outcome w = Runs i"
  shows "spells i w"
proof -
  note fs = fields_R [of w] fields_I [of w] fields_S [of w] fields_B [of w] fields_U [of w] fields_J [of w]
  from assms show ?thesis
    unfolding outcome_def Let_def
    using fs by (auto simp: r_like_def dest: find_ops(1) shift_f3 split: if_splits option.splits)
qed

lemma outcome_Runs_iff: "outcome w = Runs i \<longleftrightarrow> i \<noteq> Ecall \<and> spells i w"
  using outcome_spelt runs_spelt runs_not_Ecall by blast

lemma outcome_Stale_iff: "outcome w = Stale h \<longleftrightarrow> (\<exists>r2 r1 f3. f3 \<in> {2, 3} \<and> w = enc_B h r2 r1 f3 0x63)"
proof
  assume "outcome w = Stale h"
  then have w: "w AND 0x7f = 0x63" "h = branch_imm w" "find (\<lambda>f. b_funct f = f3_of w) b_ops = None"
    unfolding outcome_def Let_def by (auto split: if_splits option.splits)
  have "f3_of w \<in> {2, 3}" using w(3) f3_cases [of "f3_of w"] by (auto simp: ops_defs)
  moreover have "w = enc_B h (rs2_of w) (rs1_of w) (f3_of w) 0x63" using fields_B [of w] w(1,2) by simp
  ultimately show "\<exists>r2 r1 f3. f3 \<in> {2, 3} \<and> w = enc_B h r2 r1 f3 0x63" by blast
next
  assume "\<exists>r2 r1 f3. f3 \<in> {2, 3} \<and> w = enc_B h r2 r1 f3 0x63"
  then show "outcome w = Stale h" using outcome_reserved_condition by blast
qed

end
