(* ===== verification/Execute_Spec.thy ===== *)
theory Execute_Spec
  imports Words
begin

text \<open>
  The execute stage against the reference. \<open>action_of\<close> names what an instruction asks of
  the later stages (a register value, a jump, a load, a store); the stage sets up exactly
  that action. \<open>emu_step\<close> is what the emulator does as one step: the reference step, with
  the emulator's six departures from the manual written out.
\<close>

section \<open>One step of the emulated machine\<close>

fun emu_step :: "insn \<Rightarrow> isa_t \<Rightarrow> isa_t" where
  "emu_step (Op Sra d r1 r2) s = isa_step (Op Srl d r1 r2) s"
| "emu_step (Shift Srai d r1 sh) s = isa_step (Shift Srli d r1 sh) s"
| "emu_step (Load Lb d r1 imm) s = isa_step (Load Lbu d r1 imm) s"
| "emu_step (Load Lh d r1 imm) s = isa_step (Load Lhu d r1 imm) s"
| "emu_step (OpImm Ori d r1 imm) s = isa_next (isa_put d (ireg s r1 OR ucast imm) s)"
| "emu_step (Jalr d r1 imm) s = (isa_put d (ipc s + 4) s)\<lparr>ipc := ireg s r1 + scast imm\<rparr>"
| "emu_step i s = isa_step i s"

text \<open>When the departures make no difference.\<close>

fun agrees :: "insn \<Rightarrow> isa_t \<Rightarrow> bool" where
  "agrees (Op Sra d r1 r2) s \<longleftrightarrow> \<not> bit (ireg s r1) 31 \<or> take_bit 5 (ireg s r2) = 0"
| "agrees (Shift Srai d r1 sh) s \<longleftrightarrow> \<not> bit (ireg s r1) 31 \<or> sh = 0"
| "agrees (Load Lb d r1 imm) s \<longleftrightarrow> \<not> bit (imem s (unat (ireg s r1 + scast imm))) 7"
| "agrees (Load Lh d r1 imm) s \<longleftrightarrow> \<not> bit (imem s (Suc (unat (ireg s r1 + scast imm)))) 7"
| "agrees (OpImm Ori d r1 imm) s \<longleftrightarrow> \<not> bit imm 11"
| "agrees (Jalr d r1 imm) s \<longleftrightarrow> \<not> bit (ireg s r1 + scast imm) 0"
| "agrees i s \<longleftrightarrow> True"

lemma signed_drop_bit_nonneg:
  fixes x :: u32
  assumes "\<not> bit x 31 \<or> n = 0"
  shows "signed_drop_bit n x = drop_bit n x"
proof (cases "n = 0")
  case False
  with assms have b: "\<not> bit x 31" by simp
  show ?thesis
  proof (rule bit_word_eqI)
    fix k assume "k < LENGTH(32)"
    then show "bit (signed_drop_bit n x) k = bit (drop_bit n x) k"
      using b by (cases "n + k < 32")
        (auto simp: bit_simps min_def not_less not_le le_less_Suc_eq dest: bit_imp_le_length)
  qed
qed simp

lemma scast_nonneg:
  fixes x :: "'a::len word"
  assumes "\<not> bit x (LENGTH('a) - 1)"
  shows "(scast x :: 'b::len word) = ucast x"
proof (rule bit_word_eqI)
  fix n assume "n < LENGTH('b)"
  then show "bit (scast x :: 'b word) n = bit (ucast x :: 'b word) n"
    using assms bit_imp_le_length [of x n]
    by (cases "n = LENGTH('a) - 1") (auto simp: bit_simps min_def)
qed

lemmas scast_nonneg12 = scast_nonneg [where 'a = 12 and 'b = 32, simplified]
lemmas scast_u8 = scast_nonneg [where 'a = 8 and 'b = 32, simplified]
lemmas scast_u16 = scast_nonneg [where 'a = 16 and 'b = 32, simplified]

lemma ucast_up_u8 [simp]: "ucast (ucast (b :: u8) :: u32) = b"
  by (rule bit_word_eqI) (simp add: bit_simps)

lemma mem_word_1: "mem_word m a 1 = ucast (m (unat a))"
  by (simp add: mem_word_def span_def)

lemma mem_word_2: "mem_word m a 2 = ucast (m (unat a)) OR push_bit 8 (ucast (m (Suc (unat a))))"
  by (simp add: mem_word_def span_def numeral_2_eq_2)

lemma l_sem_Lh:
  assumes "\<not> bit (c :: u8) 7"
  shows "l_sem Lh (ucast (b :: u8) OR push_bit 8 (ucast c)) = ucast b OR push_bit 8 (ucast c)"
proof -
  let ?w = "ucast b OR push_bit 8 (ucast c) :: u32"
  have "\<not> bit (ucast ?w :: u16) 15"
    using assms bit_imp_le_length [of b 15] by (auto simp: bit_simps)
  moreover have "ucast (ucast ?w :: u16) = ?w"
    by (rule bit_word_eqI) (auto simp: bit_simps dest: bit_imp_le_length)
  ultimately show ?thesis by (simp add: scast_u16)
qed

lemma and_not_1:
  assumes "\<not> bit x 0"
  shows "x AND - 2 = (x :: u32)"
proof -
  have "x AND NOT 1 = x"
  proof (rule bit_word_eqI)
    fix n
    show "bit (x AND NOT 1) n = bit x n"
      using assms bit_imp_le_length [of x n] by (cases n) (auto simp: bit_simps bit_1_iff)
  qed
  then show ?thesis by simp
qed

text \<open>
  The emulator departs from the manual in six instructions only, and in each only on some
  operands: \<open>SRA\<close> and \<open>SRAI\<close> of a negative number by more than 0, \<open>LB\<close> and
  \<open>LH\<close> of a negative value, \<open>ORI\<close> with a negative immediate, \<open>JALR\<close> to an
  odd sum. Everywhere else its step is the manual's.
\<close>

lemma emu_step_agrees:
  assumes "agrees i s"
  shows "emu_step i s = isa_step i s"
  using assms
  by (cases "(i, s)" rule: emu_step.cases)
    (auto simp: signed_drop_bit_nonneg unsigned_eq_0_iff scast_nonneg12 width_bytes_def
      mem_word_1 [simplified] mem_word_2 scast_u8 l_sem_Lh [simplified] and_not_1)

section \<open>What execute asks of the later stages\<close>

datatype action =
    Put reg u32
  | Jump reg u32 u32
  | Branch_To "u32 option"
  | Load_At reg u32 memory_access_width_t
  | Store_At u32 memory_access_width_t u32

fun action_of :: "insn \<Rightarrow> u32 \<Rightarrow> (reg \<Rightarrow> u32) \<Rightarrow> action" where
  "action_of (Op f d r1 r2) pc r =
     Put d (r_sem (if f = Sra then Srl else f) (r r1) (r r2))"
| "action_of (OpImm f d r1 imm) pc r =
     Put d (if f = Ori then r r1 OR ucast imm else i_sem f (r r1) imm)"
| "action_of (Shift f d r1 sh) pc r = Put d (sh_sem (if f = Srai then Srli else f) (r r1) sh)"
| "action_of (Load f d r1 imm) pc r = Load_At d (r r1 + scast imm) (l_width f)"
| "action_of (Store f r2 r1 imm) pc r = Store_At (r r1 + scast imm) (s_width f)
     (take_bit (8 * width_bytes (s_width f)) (r r2))"
| "action_of (Branch f r1 r2 h) pc r =
     Branch_To (if b_sem f (r r1) (r r2) then Some (pc + 2 * scast h) else None)"
| "action_of (Lui d imm) pc r = Put d (push_bit 12 (ucast imm))"
| "action_of (Auipc d imm) pc r = Put d (pc + push_bit 12 (ucast imm))"
| "action_of (Jal d h) pc r = Jump d (pc + 4) (pc + 2 * scast h)"
| "action_of (Jalr d r1 imm) pc r = Jump d (pc + 4) (r r1 + scast imm)"
| "action_of Ecall pc r = Branch_To None"

text \<open>The decoded instruction and \<open>aluOut\<close> carry the action.\<close>

fun carries :: "instr_t \<Rightarrow> u32 \<Rightarrow> action \<Rightarrow> bool" where
  "carries x a (Put d v) \<longleftrightarrow> writeRd x \<and> rd x = d \<and> a = v \<and> \<not> isJump x \<and> \<not> readMem x \<and> \<not> writeMem x"
| "carries x a (Jump d v t) \<longleftrightarrow> writeRd x \<and> rd x = d \<and> a = v \<and> isJump x \<and> jumpTarget x = t
     \<and> \<not> readMem x \<and> \<not> writeMem x"
| "carries x a (Branch_To t) \<longleftrightarrow> \<not> writeRd x \<and> \<not> readMem x \<and> \<not> writeMem x \<and> (isJump x \<longleftrightarrow> t \<noteq> None)
     \<and> (isJump x \<longrightarrow> t = Some (jumpTarget x))"
| "carries x a (Load_At d b w) \<longleftrightarrow> writeRd x \<and> rd x = d \<and> \<not> isJump x \<and> readMem x \<and> \<not> writeMem x
     \<and> memOffset x = b \<and> memAccessWidth x = w"
| "carries x a (Store_At b w v) \<longleftrightarrow> \<not> writeRd x \<and> \<not> isJump x \<and> \<not> readMem x \<and> writeMem x
     \<and> memOffset x = b \<and> memAccessWidth x = w \<and> a = v"

lemma op_codes:
  "op_code OP_ADD = 0x033" "op_code OP_SUB = 0x833" "op_code OP_SLL = 0x0b3"
  "op_code OP_SLT = 0x133" "op_code OP_SLTU = 0x1b3" "op_code OP_XOR = 0x233"
  "op_code OP_SRL = 0x2b3" "op_code OP_SRA = 0xab3" "op_code OP_OR = 0x333"
  "op_code OP_AND = 0x3b3" "op_code OP_JALR = 0x067" "op_code OP_LB = 0x003"
  "op_code OP_LBU = 0x203" "op_code OP_LHU = 0x283" "op_code OP_LH = 0x083"
  "op_code OP_LW = 0x103" "op_code OP_ADDI = 0x013" "op_code OP_SLTI = 0x113"
  "op_code OP_SLTIU = 0x193" "op_code OP_XORI = 0x213" "op_code OP_ORI = 0x313"
  "op_code OP_ANDI = 0x393" "op_code OP_SLLI = 0x093" "op_code OP_SRLI = 0x293"
  "op_code OP_SRAI = 0xa93" "op_code OP_SB = 0x023" "op_code OP_SH = 0x0a3"
  "op_code OP_SW = 0x123" "op_code OP_BEQ = 0x063" "op_code OP_BNE = 0x0e3"
  "op_code OP_BLT = 0x263" "op_code OP_BGE = 0x2e3" "op_code OP_BLTU = 0x363"
  "op_code OP_BGEU = 0x3e3" "op_code OP_LUI = 0x37" "op_code OP_AUIPC = 0x17"
  "op_code OP_JAL = 0x6f" "op_code OP_ECALL = 0x73"
  by (simp_all add: OP_def)

declare op_code.simps [simp del]

lemma se_imm12_eq: "se_imm12 x = scast (imm12 x)"
  by (simp add: se_imm12_def sext12_shift)

lemma se_imm20_eq: "se_imm20 x = scast (imm20 x)"
  using sext20_xor [of "imm20 x"] by (simp add: se_imm20_def Let_def)

lemma slt_less: "slt x y \<longleftrightarrow> x <s y"
  by (simp add: slt_def word_sless_alt)

lemma not_slt_le: "\<not> (x <s y) \<longleftrightarrow> y \<le>s (x :: u32)"
  by (simp add: word_sless_alt word_sle_eq not_less)

lemma shift_amount: "y AND 31 = take_bit 5 (y :: u32)"
  by (simp add: take_bit_eq_mask mask_eq_exp_minus_1)

lemma width_masks:
  "v AND 0xff = take_bit 8 (v :: u32)" "v AND 0xffff = take_bit 16 (v :: u32)"
  by (simp_all add: take_bit_eq_mask mask_eq_exp_minus_1)

lemma and_all: "(v :: u32) AND 0xffffffff = v" "take_bit 32 (v :: u32) = v"
proof -
  show t: "take_bit 32 v = v" using take_bit_length_eq [of v] by simp
  have m: "(0xffffffff :: u32) = mask 32" by (simp add: mask_eq_exp_minus_1)
  show "v AND 0xffffffff = v" unfolding m using t by (simp only: take_bit_eq_mask)
qed

lemma bit_top: "bit (x :: 'a::len word) n \<Longrightarrow> LENGTH('a) - 1 \<le> n \<Longrightarrow> n = LENGTH('a) - 1"
  using bit_imp_le_length [of x n] by simp

lemma ori_imm: "scast (imm :: 12 word) AND (0xfff :: u32) = ucast imm"
proof -
  have m: "(0xfff :: u32) = mask 12" by (simp add: mask_eq_exp_minus_1)
  show ?thesis unfolding m
  proof (rule bit_word_eqI)
    fix n
    show "bit (scast imm AND mask 12 :: u32) n = bit (ucast imm :: u32) n"
      using bit_top [of imm n] by (cases "n = 11") (auto simp: bit_simps min_def dest: bit_imp_le_length)
  qed
qed

lemma auipc_imm: "push_bit 12 (scast (x :: 20 word)) = (push_bit 12 (ucast x) :: u32)"
proof (rule bit_word_eqI)
  fix n assume "n < LENGTH(32)"
  then show "bit (push_bit 12 (scast x) :: u32) n = bit (push_bit 12 (ucast x) :: u32) n"
    using bit_top [of x "n - 12"]
    by (cases "n = 31") (auto simp: bit_simps min_def dest: bit_imp_le_length)
qed

lemmas alu_values = slt_less not_slt_le shift_amount width_masks and_all ori_imm
  auipc_imm sext13_shift c_bool_def add_wrap_def width_bytes_def

lemma alu_R_op:
  assumes "opcode x = 0x33" and "r_like (funct3 x) (funct7 x) f"
  shows "alu_R (op_key7 x) a b = Some (r_sem (if f = Sra then Srl else f) a b)"
proof -
  have "op_key7 x = 0x33 OR push_bit 7 (ucast (fst (r_funct f)))
      OR push_bit 11 (ucast (drop_bit 5 (snd (r_funct f))))"
    using assms by (simp add: op_key7_def r_like_def)
  then show ?thesis by (cases f) (simp_all add: alu_R_def op_codes alu_values)
qed

lemma branch_alu_op:
  assumes "opcode x = 0x63" and "funct3 x = b_funct f"
  shows "branch_alu (op_key x) a b = Some (c_bool (b_sem f a b))"
  using assms by (cases f) (simp_all add: branch_alu_def op_key_def op_codes slt_less not_slt_le)

lemma op_key7_I:
  assumes "funct7 x = 0"
  shows "opcode x = 0x13 \<Longrightarrow> funct3 x = i_funct f \<Longrightarrow> op_key7 x = op_code
      (case f of Addi \<Rightarrow> OP_ADDI | Slti \<Rightarrow> OP_SLTI | Sltiu \<Rightarrow> OP_SLTIU | Xori \<Rightarrow> OP_XORI
       | Ori \<Rightarrow> OP_ORI | Andi \<Rightarrow> OP_ANDI)"
    and "opcode x = 0x13 \<Longrightarrow> funct3 x = fst (sh_funct g) \<Longrightarrow> op_key7 x = op_code
      (case g of Slli \<Rightarrow> OP_SLLI | Srli \<Rightarrow> OP_SRLI | Srai \<Rightarrow> OP_SRLI)"
    and "opcode x = 0x03 \<Longrightarrow> funct3 x = l_funct h \<Longrightarrow> op_key7 x = op_code
      (case h of Lb \<Rightarrow> OP_LB | Lh \<Rightarrow> OP_LH | Lw \<Rightarrow> OP_LW | Lbu \<Rightarrow> OP_LBU | Lhu \<Rightarrow> OP_LHU)"
    and "opcode x = 0x67 \<Longrightarrow> funct3 x = 0 \<Longrightarrow> op_key7 x = op_code OP_JALR"
  using assms by (cases f; cases g; cases h; simp add: op_key7_def op_codes)+

text \<open>The outcome of a stage that sets the decoded instruction and \<open>aluOut\<close> only.\<close>

lemma carriesI:
  assumes "m = Inr (core\<lparr>c_decoded := x, c_aluOut := a\<rparr>)" and "carries x a act"
  shows "\<exists>x a. m = Inr (core\<lparr>c_decoded := x, c_aluOut := a\<rparr>) \<and> carries x a act"
  using assms by blast

lemma execute_Op:
  assumes "runs_as (Op f d r1 r2) r (c_decoded core)"
  shows "execute core = Inr (core\<lparr>c_decoded := (c_decoded core)\<lparr>writeRd := True\<rparr>,
    c_aluOut := r_sem (if f = Sra then Srl else f) (r r1) (r r2)\<rparr>)"
  using assms by (simp add: execute_def execute_R_def Let_def alu_R_op [where f = f])

lemma execute_OpImm:
  assumes "runs_as (OpImm f d r1 imm) r (c_decoded core)"
  shows "execute core = Inr (core\<lparr>c_decoded := (c_decoded core)\<lparr>writeRd := True\<rparr>,
    c_aluOut := (if f = Ori then r r1 OR ucast imm else i_sem f (r r1) imm)\<rparr>)"
  using assms
  by (cases f) (simp_all add: execute_def execute_I_def op_key7_I(1) [where f = f] op_codes
      se_imm12_eq alu_values)

lemma execute_Shift:
  assumes "runs_as (Shift f d r1 sh) r (c_decoded core)"
  shows "execute core = Inr (core\<lparr>c_decoded := (c_decoded core)\<lparr>writeRd := True\<rparr>,
    c_aluOut := sh_sem (if f = Srai then Srli else f) (r r1) sh\<rparr>)"
  using assms
  by (cases f) (simp_all add: execute_def execute_I_def op_key7_I(2) [where g = f] op_codes)

lemma execute_Load:
  assumes "runs_as (Load f d r1 imm) r (c_decoded core)"
  shows "execute core = Inr (core\<lparr>c_decoded := (c_decoded core)\<lparr>writeRd := True,
    memOffset := r r1 + scast imm, memAccessWidth := l_width f, readMem := True\<rparr>,
    c_aluOut := (if f = Lh then signed_drop_bit 16 (push_bit 16 (take_bit 16 (rs2v (c_decoded core))))
      else take_bit (8 * width_bytes (l_width f)) (rs2v (c_decoded core)))\<rparr>)"
  using assms
  by (cases f) (simp_all add: execute_def execute_I_def Let_def op_key7_I(3) [where h = f] op_codes
      se_imm12_eq alu_values)

lemma execute_Jalr:
  assumes "runs_as (Jalr d r1 imm) r (c_decoded core)"
  shows "execute core = Inr (core\<lparr>c_decoded := (c_decoded core)\<lparr>writeRd := True,
    isJump := True, jumpTarget := r r1 + scast imm\<rparr>, c_aluOut := c_pc core + 4\<rparr>)"
  using assms by (simp add: execute_def execute_I_def op_key7_I(4) op_codes se_imm12_eq)

lemma execute_Store:
  assumes "runs_as (Store f r2 r1 imm) r (c_decoded core)"
  shows "execute core = Inr (core\<lparr>c_decoded := (c_decoded core)\<lparr>writeMem := True,
    memOffset := r r1 + scast imm, memAccessWidth := s_width f\<rparr>,
    c_aluOut := take_bit (8 * width_bytes (s_width f)) (r r2)\<rparr>)"
  using assms
  by (cases f) (simp_all add: execute_def execute_S_def op_key_def op_codes se_imm12_eq alu_values)

lemma execute_Branch:
  assumes "runs_as (Branch f r1 r2 h) r (c_decoded core)"
  shows "execute core = Inr (core\<lparr>c_decoded := (c_decoded core)\<lparr>
    jumpTarget := c_pc core + 2 * scast h, isJump := b_sem f (r r1) (r r2)\<rparr>,
    c_aluOut := c_bool (b_sem f (r r1) (r r2))\<rparr>)"
  using assms by (simp add: execute_def execute_B_def branch_alu_op sext13_shift c_bool_def)

lemma execute_U:
  "runs_as (Lui d imm) r (c_decoded core) \<Longrightarrow>
    execute core = Inr (core\<lparr>c_decoded := (c_decoded core)\<lparr>writeRd := True\<rparr>,
      c_aluOut := push_bit 12 (ucast imm)\<rparr>)"
  "runs_as (Auipc d imm) r (c_decoded core) \<Longrightarrow>
    execute core = Inr (core\<lparr>c_decoded := (c_decoded core)\<lparr>writeRd := True\<rparr>,
      c_aluOut := c_pc core + push_bit 12 (ucast imm)\<rparr>)"
  by (simp_all add: execute_def execute_U_def op_codes se_imm20_eq auipc_imm)

lemma execute_Jal:
  assumes "runs_as (Jal d h) r (c_decoded core)"
  shows "execute core = Inr (core\<lparr>c_decoded := (c_decoded core)\<lparr>isJump := True,
    writeRd := True, jumpTarget := c_pc core + 2 * scast h\<rparr>, c_aluOut := c_pc core + 4\<rparr>)"
  using assms by (simp add: execute_def execute_J_def op_codes se_imm20_eq)

lemma execute_Ecall:
  assumes "runs_as Ecall r (c_decoded core)"
  shows "execute core = cause_trap core ENV_CALL_UMODE"
  using assms by (simp add: execute_def execute_C_def op_codes)

lemma execute_action:
  assumes dec: "runs_as i (REG_R core) (c_decoded core)"
    and none: "no_effects (c_decoded core)" and i: "i \<noteq> Ecall"
  shows "\<exists>x a. execute core = Inr (core\<lparr>c_decoded := x, c_aluOut := a\<rparr>) \<and>
    carries x a (action_of i (c_pc core) (REG_R core))"
  using i dec none
  by (cases i; clarify)
    (rule carriesI, (erule execute_Op execute_OpImm execute_Shift execute_Load execute_Store
      execute_Branch execute_U execute_Jal execute_Jalr), simp add: no_effects_def)+

text \<open>
  C10. The execute stage of a decoded instruction asks the later stages for exactly that
  instruction's action, with the value, the address, the width and the target the emulator
  computes for it, for all 32-bit operands, and changes nothing but the decoded instruction
  and \<open>aluOut\<close>. Only the system instruction raises a trap instead.
\<close>

theorem execute_carries:
  assumes dec: "runs_as i (REG_R core) (c_decoded core)"
    and none: "no_effects (c_decoded core)" and i: "i \<noteq> Ecall"
  shows "\<exists>x a. execute core = Inr (core\<lparr>c_decoded := x, c_aluOut := a\<rparr>) \<and>
    carries x a (action_of i (c_pc core) (REG_R core))"
  using assms by (rule execute_action)

theorem execute_carries_witness:
  "\<exists>x a. execute ((zero_core (tiny_bus (tiny_mmu 6)))\<lparr>c_decoded :=
       zero_instr\<lparr>optype := J, opcode := 0x6f, rd := 1, imm20 := 8\<rparr>\<rparr>)
     = Inr ((zero_core (tiny_bus (tiny_mmu 6)))\<lparr>c_decoded := x, c_aluOut := a\<rparr>)
     \<and> carries x a (Jump 1 4 16)"
  using execute_carries [of "Jal 1 8" "(zero_core (tiny_bus (tiny_mmu 6)))\<lparr>c_decoded :=
       zero_instr\<lparr>optype := J, opcode := 0x6f, rd := 1, imm20 := 8\<rparr>\<rparr>"]
  by (simp add: zero_instr_def no_effects_def zero_core_def)

end
