(* ===== verification/Pipeline.thy ===== *)
theory Pipeline
  imports Execute_Spec
begin

text \<open>
  The stages together: the invariant of a core, the prefetch buffer, which holds copies of
  the words after the program counter, and the refinement: five cycles are one step of
  the emulated machine.
\<close>

section \<open>The invariant of a core\<close>

definition core_wf :: "core_t \<Rightarrow> bool" where
  "core_wf c \<longleftrightarrow> length (c_registers c) = NUMREGS \<and> length (c_trap_regs c) = NUMREGS
     \<and> length (c_prefetch c) = PREFETCH_SIZE - 1 \<and> unat (c_prefetch_cnt c) < PREFETCH_SIZE
     \<and> bus_wf (c_bus c)"

definition isa_of :: "core_t \<Rightarrow> isa_t" where
  "isa_of c = \<lparr>ipc = c_pc c, ireg = REG_R c, imem = bus_byte (c_bus c)\<rparr>"

text \<open>
  The last \<open>n\<close> entries of the prefetch array \<open>ps\<close> are the \<open>n\<close> words of memory at
  \<open>a\<close>.
\<close>

definition window :: "bus_t \<Rightarrow> u32 list \<Rightarrow> nat \<Rightarrow> u32 \<Rightarrow> bool" where
  "window b ps n a \<longleftrightarrow>
     (\<forall>k<n. ps ! (PREFETCH_SIZE - 1 - n + k) = mem_word (bus_byte b) (a + 4 * of_nat k) 4)"

definition coherent :: "core_t \<Rightarrow> u32 \<Rightarrow> bool" where
  "coherent c a = window (c_bus c) (c_prefetch c) (unat (c_prefetch_cnt c)) a"

section \<open>Fetch\<close>

lemma length_words_of_bytes: "length (words_of_bytes bs) = length bs div 4"
  by (induction bs rule: words_of_bytes.induct) simp_all

lemma nth_words_of_bytes:
  "4 * k + 4 \<le> length bs \<Longrightarrow> words_of_bytes bs ! k = word_of_bytes (segment (4 * k) 4 bs)"
proof (induction bs arbitrary: k rule: words_of_bytes.induct)
  case (1 b0 b1 b2 b3 bs)
  then show ?case by (cases k) (simp_all add: segment_def eval_nat_numeral)
qed simp_all

lemma same_memory_byte: "same_memory (ram_mmu b') (ram_mmu b) \<Longrightarrow> bus_byte b' = bus_byte b"
  by (rule ext) (simp add: bus_byte_def mmu_byte_def same_memoryD)

lemma unat_plus_4:
  assumes "unat (a :: u32) + 4 * k < 2 ^ 32"
  shows "unat (a + 4 * of_nat k) = unat a + 4 * k"
proof -
  have "a + 4 * of_nat k = of_nat (unat a + 4 * k)" by simp
  also have "unat \<dots> = unat a + 4 * k" by (rule unat_of_nat_32 [OF assms])
  finally show ?thesis .
qed

lemma words_in_block:
  assumes wf: "mmu_wf m" and rd: "mmu_rd m a (4 * n) = Some bs" and k: "k < n"
  shows "words_of_bytes bs ! k = mem_word (mmu_byte m) (a + 4 * of_nat k) 4"
    and "length (words_of_bytes bs) = n"
proof -
  note D = mmu_rd_SomeD [OF wf rd]
  have bs: "bs = map (mmu_byte m) (span a (4 * n))" by (rule mmu_store.rd_Some [OF wf rd])
  have "unat a + 4 * n < 2 ^ 32"
    using D(3) wf by (auto simp: in_block_def mmu_wf_def)
  then have u: "unat (a + 4 * of_nat k) = unat a + 4 * k"
    using k by (intro unat_plus_4) simp
  have "segment (4 * k) 4 bs = map (mmu_byte m) (span (a + 4 * of_nat k) 4)"
    using k by (intro nth_equalityI) (simp_all add: bs u add.assoc)
  then show "words_of_bytes bs ! k = mem_word (mmu_byte m) (a + 4 * of_nat k) 4"
    using nth_words_of_bytes [of k bs] k by (simp add: bs mem_word_def)
  show "length (words_of_bytes bs) = n" by (simp add: length_words_of_bytes bs)
qed

lemma window_same:
  "same_memory (ram_mmu b') (ram_mmu b) \<Longrightarrow> window b' ps n a = window b ps n a"
  by (simp add: window_def same_memory_byte)

lemma window_tail:
  assumes "window b ps (Suc n) a" and "n < PREFETCH_SIZE - 1"
  shows "window b ps n (a + 4)"
  unfolding window_def
proof (intro allI impI)
  fix k assume "k < n"
  then have "ps ! (PREFETCH_SIZE - 1 - Suc n + Suc k) = mem_word (bus_byte b) (a + 4 * of_nat (Suc k)) 4"
    using assms(1) unfolding window_def by (metis Suc_less_eq)
  then show "ps ! (PREFETCH_SIZE - 1 - n + k) = mem_word (bus_byte b) (a + 4 + 4 * of_nat k) 4"
    using assms(2) by (simp add: add.assoc Suc_diff_Suc del: add_Suc_right flip: add_Suc_right)
qed

lemma fetch_refill:
  assumes wf: "core_wf c" and cnt: "c_prefetch_cnt c = 0"
    and rd: "mmu_rd (ram_mmu (c_bus c)) (c_pc c) 32 = Some bs"
  shows "fetch c = Inr (c\<lparr>c_bus := ram_after (c_bus c) READY BUS_OK
      ((ram_mmu (c_bus c))\<lparr>mmu_state := MMU_OK\<rparr>),
    c_instruction := hd (words_of_bytes bs), c_prefetch := tl (words_of_bytes bs),
    c_prefetch_cnt := 7\<rparr>)"
proof -
  let ?b = "c_bus c"
  have bwf: "bus_wf ?b" using wf by (simp add: core_wf_def)
  then have m: "mmu_wf (ram_mmu ?b)" by (simp add: bus_wf_def)
  have "in_block (ram_mmu ?b) (c_pc c) 1" using in_block_1 mmu_rd_SomeD(3) [OF m rd] by simp
  then have "bus_read_multiple ?b (ucast (c_pc c)) 8 WORD = Inr (8, Some bs,
      ram_after ?b READY BUS_OK ((ram_mmu ?b)\<lparr>mmu_state := MMU_OK\<rparr>))"
    using bus_read_multiple_ram [OF bwf, of "c_pc c" 8 WORD] rd by (simp add: width_bytes_def)
  then show ?thesis using cnt by (simp add: fetch_def Let_def)
qed

text \<open>What fetching needs: words in the buffer, or 32 readable bytes at the program counter.\<close>

definition fetchable :: "core_t \<Rightarrow> bool" where
  "fetchable c \<longleftrightarrow> c_prefetch_cnt c \<noteq> 0 \<or> mmu_rd (ram_mmu (c_bus c)) (c_pc c) 32 \<noteq> None"

text \<open>
  The RAM device is ready, or the next fetch makes it so: it refills the empty buffer from the
  RAM.
\<close>

definition steady :: "core_t \<Rightarrow> bool" where
  "steady c \<longleftrightarrow> bus_ready (c_bus c) \<or> c_prefetch_cnt c = 0"

lemma fetch_word:
  assumes wf: "core_wf c" and coh: "coherent c (c_pc c)" and f: "fetchable c"
  shows "\<exists>b ps n. fetch c = Inr (c\<lparr>c_bus := b,
      c_instruction := mem_word (bus_byte (c_bus c)) (c_pc c) 4,
      c_prefetch := ps, c_prefetch_cnt := n\<rparr>)
    \<and> bus_wf b \<and> same_memory (ram_mmu b) (ram_mmu (c_bus c)) \<and> length ps = PREFETCH_SIZE - 1
    \<and> unat n < PREFETCH_SIZE \<and> window b ps (unat n) (c_pc c + 4)
    \<and> (steady c \<longrightarrow> bus_ready b) \<and> dev_ranges b = dev_ranges (c_bus c)"
proof (cases "c_prefetch_cnt c = 0")
  case True
  then obtain bs where rd: "mmu_rd (ram_mmu (c_bus c)) (c_pc c) 32 = Some bs"
    using f by (auto simp: fetchable_def)
  have bwf: "bus_wf (c_bus c)" "mmu_wf (ram_mmu (c_bus c))"
    using wf by (auto simp: core_wf_def bus_wf_def)
  let ?b = "ram_after (c_bus c) READY BUS_OK ((ram_mmu (c_bus c))\<lparr>mmu_state := MMU_OK\<rparr>)"
  note w = words_in_block(1) [OF bwf(2), of "c_pc c" 8 bs, simplified, OF rd]
    words_in_block(2) [OF bwf(2), of "c_pc c" 8 bs 0, simplified, OF rd]
  have b: "bus_wf ?b" "same_memory (ram_mmu ?b) (ram_mmu (c_bus c))"
    using bwf by (simp_all add: bus_wf_ram_after)
  have hd: "hd (words_of_bytes bs) = mem_word (bus_byte (c_bus c)) (c_pc c) 4"
    using w(1) [of 0] w(2) by (cases "words_of_bytes bs") (simp_all add: bus_byte_def)
  have "window ?b (tl (words_of_bytes bs)) 7 (c_pc c + 4)"
    unfolding window_def same_memory_byte [OF b(2)]
    using w by (auto simp: nth_tl bus_byte_def algebra_simps)
  then show ?thesis
    using fetch_refill [OF wf True rd] hd b w(2) bwf(1)
    by (intro exI [of _ ?b] exI [of _ "tl (words_of_bytes bs)"] exI [of _ 7]) simp
next
  case False
  let ?n = "c_prefetch_cnt c"
  have len: "length (c_prefetch c) = 7" and n: "unat ?n < 8" and bwf: "bus_wf (c_bus c)"
    using wf by (auto simp: core_wf_def)
  obtain m where m: "unat ?n = Suc m" using False by (metis not0_implies_Suc unat_eq_zero)
  have m': "unat (?n - 1) = m" using m False by (simp add: unat_minus_one)
  have "c_prefetch c ! (7 - unat ?n) = mem_word (bus_byte (c_bus c)) (c_pc c) 4"
    using coh m by (auto simp: coherent_def window_def dest: spec [of _ 0])
  moreover have "window (c_bus c) (c_prefetch c) m (c_pc c + 4)"
    using coh m n by (auto simp: coherent_def intro!: window_tail)
  ultimately show ?thesis
    using False len n m m' bwf
    by (intro exI [of _ "c_bus c"] exI [of _ "c_prefetch c"] exI [of _ "?n - 1"])
      (simp add: fetch_def steady_def)
qed

section \<open>Memory access and write-back\<close>

fun result_of :: "action \<Rightarrow> (nat \<Rightarrow> u8) \<Rightarrow> (reg \<times> u32) option" where
  "result_of (Put d v) m = Some (d, v)"
| "result_of (Jump d v t) m = Some (d, v)"
| "result_of (Load_At d a w) m = Some (d, mem_word m a (width_bytes w))"
| "result_of act m = None"

fun target_of :: "action \<Rightarrow> u32 option" where
  "target_of (Jump d v t) = Some t"
| "target_of (Branch_To t) = t"
| "target_of act = None"

fun mem_after :: "action \<Rightarrow> (nat \<Rightarrow> u8) \<Rightarrow> nat \<Rightarrow> u8" where
  "mem_after (Store_At a w v) m = mem_store m a (bytes_of_word (width_bytes w) v)"
| "mem_after act m = m"

fun access_at :: "action \<Rightarrow> u32 option" where
  "access_at (Load_At d a w) = Some a"
| "access_at (Store_At a w v) = Some a"
| "access_at act = None"

text \<open>The actions that go to the memory or empty the prefetch buffer.\<close>

definition settles :: "action \<Rightarrow> bool" where
  "settles act \<longleftrightarrow> access_at act \<noteq> None \<or> target_of act \<noteq> None"

definition apply_action :: "action \<Rightarrow> isa_t \<Rightarrow> isa_t" where
  "apply_action act s =
     (case result_of act (imem s) of Some (d, v) \<Rightarrow> isa_put d v s | None \<Rightarrow> s)
       \<lparr>imem := mem_after act (imem s),
        ipc := (case target_of act of Some t \<Rightarrow> t | None \<Rightarrow> ipc s + 4)\<rparr>"

lemma bytes_of_take_bit: "bytes_of_word n (take_bit (8 * n) v) = bytes_of_word n v"
proof -
  have "bytes_of_word n (take_bit k v) = bytes_of_word n v" if "8 * n \<le> k" for k
    using that
  proof (induction n arbitrary: v k)
    case (Suc n)
    have "(ucast (take_bit k v) :: u8) = ucast v"
      using Suc.prems by (intro bit_word_eqI) (auto simp: bit_simps)
    then show ?case using Suc.IH [of "k - 8" "drop_bit 8 v"] Suc.prems by (simp add: drop_bit_take_bit)
  qed simp
  then show ?thesis by simp
qed

lemma emu_step_action:
  assumes "i \<noteq> Ecall"
  shows "emu_step i s = apply_action (action_of i (ipc s) (ireg s)) s"
  using assms
  by (cases "(i, s)" rule: emu_step.cases)
    (simp_all add: apply_action_def isa_next_def isa_put_def bytes_of_take_bit)

text \<open>The memory takes the access that an action asks for.\<close>

fun mem_ready :: "mmu_t \<Rightarrow> action \<Rightarrow> bool" where
  "mem_ready m (Load_At d a w) \<longleftrightarrow> mmu_rd m a (width_bytes w) \<noteq> None"
| "mem_ready m (Store_At a w v) \<longleftrightarrow> mmu_wr m a (bytes_of_word (width_bytes w) v) \<noteq> None"
| "mem_ready m act \<longleftrightarrow> True"

text \<open>Where a wide load goes through, a narrower one at the same address does.\<close>

lemma mem_ready_narrower:
  assumes wf: "mmu_wf m" and le: "aw \<le> bw" and r: "mem_ready m (Load_At d a bw)"
  shows "mem_ready m (Load_At e a aw)"
proof -
  have n: "0 < width_bytes aw" "0 < width_bytes bw" "width_bytes aw < 2 ^ 32" "width_bytes bw < 2 ^ 32"
    using width_bytes_bounds [of aw] width_bytes_bounds [of bw] by simp_all
  have "in_block m a (width_bytes bw) \<and> allowed m a (width_bytes bw) MPERM_READ"
    using r by (simp add: mmu_rd_eq [OF wf n(2,4)] split: if_splits)
  then have "in_block m a (width_bytes aw) \<and> allowed m a (width_bytes aw) MPERM_READ"
    using width_bytes_mono [OF le] by (auto simp: in_block_def allowed_def)
  then show ?thesis by (simp add: mmu_rd_eq [OF wf n(1,3)])
qed

lemma mem_ready_same:
  assumes "same_memory m' m" and "mmu_wf m"
  shows "mem_ready m' act = mem_ready m act"
proof -
  have wf': "mmu_wf m'" using assms same_memoryD(1) by blast
  have n: "length (bytes_of_word (width_bytes w) v) < 2 ^ 32" for w v
    using width_bytes_bounds(2) [of w] by simp
  show ?thesis
    by (cases act) (simp_all add: same_memoryD [OF assms(1)] mmu_wr_eq [OF wf' n]
        mmu_wr_eq [OF assms(2) n])
qed

text \<open>The memory after the action's access.\<close>

fun mmu_after :: "action \<Rightarrow> mmu_t \<Rightarrow> mmu_t" where
  "mmu_after (Store_At a w v) m = (case mmu_wr m a (bytes_of_word (width_bytes w) v) of
     Some m' \<Rightarrow> m' | None \<Rightarrow> m)"
| "mmu_after act m = m"

lemma mmu_after_same:
  assumes same: "same_memory m' m" and wf: "mmu_wf m"
  shows "same_memory (mmu_after act m') (mmu_after act m)"
proof -
  have wf': "mmu_wf m'" using same wf same_memoryD(1) by blast
  have n: "length (bytes_of_word (width_bytes w) v) < 2 ^ 32" for w v
    using width_bytes_bounds(2) [of w] by simp
  have "same_memory (mmu_written m' bs a) (mmu_written m bs a)" for bs a
    using same by (simp add: same_memory_def same_block_def mmu_written_def offset_def)
  then show ?thesis
    using same by (cases act) (simp_all add: mmu_wr_eq [OF wf' n] mmu_wr_eq [OF wf n]
        same_memoryD [OF same])
qed

lemma carries_target:
  "carries x a act \<Longrightarrow> (if isJump x then Some (jumpTarget x) else None) = target_of act"
  by (cases act) auto

lemma load_single:
  assumes wf: "bus_wf b" and rd: "mmu_rd (ram_mmu b) a (width_bytes w) \<noteq> None"
  shows "\<exists>b'. bus_read_single indet b (ucast a) w
      = Inr (mem_word (bus_byte b) a (width_bytes w), b') \<and>
    bus_wf b' \<and> bus_status b' = BUS_OK \<and> same_memory (ram_mmu b') (ram_mmu b) \<and> bus_ready b'
    \<and> dev_ranges b' = dev_ranges b"
proof -
  have m: "mmu_wf (ram_mmu b)" using wf by (simp add: bus_wf_def)
  from rd obtain bs where bs: "mmu_rd (ram_mmu b) a (width_bytes w) = Some bs" by blast
  note D = mmu_rd_SomeD [OF m bs]
  have "in_block (ram_mmu b) a 1" by (rule in_block_1 [OF D(3) D(1)])
  moreover have "word_of_bytes bs = mem_word (bus_byte b) a (width_bytes w)"
    using mmu_store.rd_Some [OF m bs] by (simp add: mem_word_def bus_byte_def)
  ultimately show ?thesis
    using bus_read_single_ram [OF wf] bs m wf by (simp add: bus_wf_ram_after)
qed

lemma store_single:
  assumes wf: "bus_wf b" and wr: "mmu_wr (ram_mmu b) a (bytes_of_word (width_bytes w) v) \<noteq> None"
  shows "\<exists>b'. bus_write_single b (ucast a) v w = Inr b' \<and> bus_wf b' \<and> bus_status b' = BUS_OK
    \<and> mmu_wr (ram_mmu b) a (bytes_of_word (width_bytes w) v) = Some (ram_mmu b')
    \<and> bus_byte b' = mem_store (bus_byte b) a (bytes_of_word (width_bytes w) v) \<and> bus_ready b'
    \<and> dev_ranges b' = dev_ranges b"
proof -
  let ?bs = "bytes_of_word (width_bytes w) v"
  have m: "mmu_wf (ram_mmu b)" using wf by (simp add: bus_wf_def)
  from wr obtain m' where m': "mmu_wr (ram_mmu b) a ?bs = Some m'" by blast
  note D = mmu_wr_SomeD [OF m m']
  have "in_block (ram_mmu b) a 1"
    using in_block_1 [OF D(2)] width_bytes_bounds [of w] by simp
  then have "bus_write_single b (ucast a) v w = Inr (ram_after b READY BUS_OK m')"
    using bus_write_single_ram [OF wf] m' by simp
  moreover have "bus_byte (ram_after b READY BUS_OK m') = mem_store (bus_byte b) a ?bs"
    using mmu_store.byte_wr [OF m m'] by (intro ext) (simp add: bus_byte_def mem_store_def)
  moreover have "bus_wf (ram_after b READY BUS_OK m')"
    using mmu_store.invar_wr [OF m m'] D(4) by (simp add: bus_wf_ram_after [OF wf])
  ultimately show ?thesis using m' wf by auto
qed

lemma memory_stage:
  assumes wf: "bus_wf (c_bus c)" and dec: "c_decoded c = x" and carx: "carries x (c_aluOut c) act"
    and ready: "mem_ready (ram_mmu (c_bus c)) act"
  shows "\<exists>a b. memory_access indet c = Inr (c\<lparr>c_aluOut := a, c_bus := b\<rparr>) \<and> bus_wf b \<and>
    bus_byte b = mem_after act (bus_byte (c_bus c)) \<and>
    same_memory (ram_mmu b) (mmu_after act (ram_mmu (c_bus c))) \<and>
    (if writeRd x then Some (rd x, a) else None) = result_of act (bus_byte (c_bus c)) \<and>
    (bus_ready (c_bus c) \<or> access_at act \<noteq> None \<longrightarrow> bus_ready b) \<and> dev_ranges b = dev_ranges (c_bus c)"
proof -
  have car: "carries (c_decoded c) (c_aluOut c) act" using dec carx by simp
  have "\<exists>a b. memory_access indet c = Inr (c\<lparr>c_aluOut := a, c_bus := b\<rparr>) \<and> bus_wf b \<and>
    bus_byte b = mem_after act (bus_byte (c_bus c)) \<and>
    same_memory (ram_mmu b) (mmu_after act (ram_mmu (c_bus c))) \<and>
    (if writeRd (c_decoded c) then Some (rd (c_decoded c), a) else None)
      = result_of act (bus_byte (c_bus c)) \<and>
    (bus_ready (c_bus c) \<or> access_at act \<noteq> None \<longrightarrow> bus_ready b) \<and> dev_ranges b = dev_ranges (c_bus c)"
proof (cases act)
  case (Load_At d a w)
  with car have x: "readMem (c_decoded c)" "memOffset (c_decoded c) = a"
    "memAccessWidth (c_decoded c) = w" "writeRd (c_decoded c)" "rd (c_decoded c) = d" by auto
  from Load_At ready have "mmu_rd (ram_mmu (c_bus c)) a (width_bytes w) \<noteq> None" by simp
  from load_single [OF wf this, of indet] x Load_At show ?thesis
    by (auto simp: memory_access_def same_memory_byte)
next
  case (Store_At a w v)
  with car have x: "\<not> readMem (c_decoded c)" "writeMem (c_decoded c)" "memOffset (c_decoded c) = a"
    "memAccessWidth (c_decoded c) = w" "\<not> writeRd (c_decoded c)" "c_aluOut c = v" by auto
  from Store_At ready have "mmu_wr (ram_mmu (c_bus c)) a (bytes_of_word (width_bytes w) v) \<noteq> None"
    by simp
  from store_single [OF wf this] obtain b' where b': "bus_write_single (c_bus c) (ucast a) v w = Inr b'"
    "bus_wf b'" "bus_status b' = BUS_OK"
    "mmu_wr (ram_mmu (c_bus c)) a (bytes_of_word (width_bytes w) v) = Some (ram_mmu b')" "bus_ready b'"
    "bus_byte b' = mem_store (bus_byte (c_bus c)) a (bytes_of_word (width_bytes w) v)"
    "dev_ranges b' = dev_ranges (c_bus c)" by blast
  then have "memory_access indet c = Inr (c\<lparr>c_aluOut := c_aluOut c, c_bus := b'\<rparr>)"
    using x by (simp add: memory_access_def)
  then show ?thesis using b' x Store_At
    by (intro exI [of _ "c_aluOut c"] exI [of _ b']) simp
qed (use car wf in \<open>auto simp: memory_access_def intro!: exI [of _ "c_aluOut c"] exI [of _ "c_bus c"]\<close>)
  then show ?thesis unfolding dec .
qed

lemma REG_R_W:
  assumes "length (c_registers c) = NUMREGS"
  shows "REG_R (REG_W c d v) = (if d = 0 then REG_R c else (REG_R c)(d := v))"
proof -
  have lt: "unat r < 32" for r :: reg using unsigned_less [of r, where 'a = nat] by simp
  have inj: "unat d = unat r \<longleftrightarrow> d = r" for r :: reg by (simp add: word_unat_eq_iff)
  show ?thesis
    using assms lt [of d] inj [of 0]
    by (cases "d = 0") (auto simp: REG_R_def REG_W_def nth_list_update fun_eq_iff inj
        unsigned_eq_0_iff)
qed

lemma REG_W_simps [simp]:
  "c_state (REG_W c d v) = c_state c" "c_pc (REG_W c d v) = c_pc c" "c_bus (REG_W c d v) = c_bus c"
  "c_prefetch (REG_W c d v) = c_prefetch c" "c_prefetch_cnt (REG_W c d v) = c_prefetch_cnt c"
  "c_decoded (REG_W c d v) = c_decoded c" "c_trap_regs (REG_W c d v) = c_trap_regs c"
  "c_csr (REG_W c d v) = c_csr c" "c_cycle (REG_W c d v) = c_cycle c"
  "c_trap_state (REG_W c d v) = c_trap_state c" "c_aluOut (REG_W c d v) = c_aluOut c"
  "c_halted (REG_W c d v) = c_halted c" "c_trap_handler (REG_W c d v) = c_trap_handler c"
  "c_priv_mode (REG_W c d v) = c_priv_mode c" "c_trap_pc (REG_W c d v) = c_trap_pc c"
  "length (c_registers (REG_W c d v)) = length (c_registers c)"
  by (simp_all add: REG_W_def)

lemma REG_R_update [simp]:
  "REG_R (c\<lparr>c_pc := p\<rparr>) = REG_R c" "REG_R (c\<lparr>c_cycle := y\<rparr>) = REG_R c"
  "REG_R (c\<lparr>c_state := st\<rparr>) = REG_R c" "REG_R (c\<lparr>c_prefetch_cnt := n\<rparr>) = REG_R c"
  "REG_R (c\<lparr>c_bus := b\<rparr>) = REG_R c" "REG_R (c\<lparr>c_instruction := w\<rparr>) = REG_R c"
  "REG_R (c\<lparr>c_prefetch := ps\<rparr>) = REG_R c" "REG_R (c\<lparr>c_decoded := x\<rparr>) = REG_R c"
  "REG_R (c\<lparr>c_aluOut := a\<rparr>) = REG_R c"
  by (simp_all add: REG_R_def fun_eq_iff)

text \<open>Write-back completes the action.\<close>

lemma writeback_action:
  assumes len: "length (c_registers c) = NUMREGS"
    and dec: "c_decoded c = x" and alu: "c_aluOut c = a"
    and tgt: "(if isJump x then Some (jumpTarget x) else None) = target_of act"
    and res: "(if writeRd x then Some (rd x, a) else None) = result_of act m"
    and mem: "bus_byte (c_bus c) = mem_after act m"
  shows "isa_of (writeback c) = apply_action act \<lparr>ipc = c_pc c, ireg = REG_R c, imem = m\<rparr>"
  using tgt [symmetric] res [symmetric] mem dec alu
  by (simp add: writeback_def isa_of_def apply_action_def isa_put_def Let_def REG_R_W [OF len]
      split: if_splits)

section \<open>Five cycles\<close>

text \<open>The invariant after a stage that touches the bus, \<open>aluOut\<close> and the decoded instruction.\<close>

lemma core_wf_simps [simp]:
  "core_wf (c\<lparr>c_pc := p\<rparr>) = core_wf c" "core_wf (c\<lparr>c_cycle := y\<rparr>) = core_wf c"
  "core_wf (c\<lparr>c_state := st\<rparr>) = core_wf c" "core_wf (c\<lparr>c_decoded := x\<rparr>) = core_wf c"
  "core_wf (c\<lparr>c_aluOut := a\<rparr>) = core_wf c" "core_wf (c\<lparr>c_instruction := w\<rparr>) = core_wf c"
  "core_wf (c\<lparr>c_csr := k\<rparr>) = core_wf c" "core_wf (c\<lparr>c_trap_state := ts\<rparr>) = core_wf c"
  "core_wf (c\<lparr>c_trap_pc := p\<rparr>) = core_wf c"
  "core_wf (REG_W c d v) = core_wf c"
  "core_wf c \<Longrightarrow> core_wf (c\<lparr>c_prefetch_cnt := 0\<rparr>)"
  "core_wf c \<Longrightarrow> bus_wf b \<Longrightarrow> core_wf (c\<lparr>c_bus := b\<rparr>)"
  by (simp_all add: core_wf_def REG_W_def)

lemma core_wf_writeback: "core_wf c \<Longrightarrow> core_wf (writeback c)"
  by (simp add: writeback_def Let_def)

text \<open>The first \<open>n\<close> cycles complete and none of them traps.\<close>

definition untrapped :: "(nat \<Rightarrow> u8) \<Rightarrow> nat \<Rightarrow> core_t \<Rightarrow> bool" where
  "untrapped j n c \<longleftrightarrow> (\<forall>k\<le>n. \<exists>d. core_cycles j k c = Inr d \<and> c_state d \<noteq> TRAP)"

lemma untrapped_0: "c_state c \<noteq> TRAP \<Longrightarrow> untrapped j 0 c"
  by (simp add: untrapped_def)

text \<open>The code words that the buffer may hold are the same in two memories.\<close>

definition same_code :: "(nat \<Rightarrow> u8) \<Rightarrow> (nat \<Rightarrow> u8) \<Rightarrow> u32 \<Rightarrow> bool" where
  "same_code m' m a \<longleftrightarrow> (\<forall>k<PREFETCH_SIZE - 1. mem_word m' (a + 4 * of_nat k) 4 = mem_word m (a + 4 * of_nat k) 4)"

lemma window_code:
  assumes "window b ps n a" and "same_code (bus_byte b') (bus_byte b) a" and "n < PREFETCH_SIZE"
  shows "window b' ps n a"
  using assms by (auto simp: window_def same_code_def)

text \<open>Cycles that do not trap, one after the other.\<close>

lemma untrapped_Suc:
  assumes "core_cycle (j 0) c = Inr d" and "c_state c \<noteq> TRAP" and "untrapped (\<lambda>k. j (Suc k)) n d"
  shows "untrapped j (Suc n) c"
  unfolding untrapped_def
proof (intro allI impI)
  fix k assume "k \<le> Suc n"
  then show "\<exists>e. core_cycles j k c = Inr e \<and> c_state e \<noteq> TRAP"
    using assms by (cases k) (simp_all add: untrapped_def)
qed

lemma five_cycles:
  assumes "core_cycle (j 0) c = Inr c1" "core_cycle (j 1) c1 = Inr c2" "core_cycle (j 2) c2 = Inr c3"
    "core_cycle (j 3) c3 = Inr c4" "core_cycle (j 4) c4 = Inr c5"
    and "c_state c \<noteq> TRAP" "c_state c1 \<noteq> TRAP" "c_state c2 \<noteq> TRAP" "c_state c3 \<noteq> TRAP"
    "c_state c4 \<noteq> TRAP" "c_state c5 \<noteq> TRAP"
  shows "core_cycles j 5 c = Inr c5" and "untrapped j 5 c"
proof -
  show "core_cycles j 5 c = Inr c5" using assms(1-5) by (simp add: eval_nat_numeral)
  have "untrapped j (Suc (Suc (Suc (Suc (Suc 0))))) c"
    using assms by (intro untrapped_Suc untrapped_0) (assumption | simp add: eval_nat_numeral)+
  then show "untrapped j 5 c" by (simp add: eval_nat_numeral)
qed

text \<open>What the stages before the memory stage leave as it is.\<close>

definition in_flight :: "core_t \<Rightarrow> core_t \<Rightarrow> bool" where
  "in_flight c c' \<longleftrightarrow> core_wf c' \<and> c_pc c' = c_pc c \<and> c_registers c' = c_registers c
     \<and> c_trap_handler c' = c_trap_handler c \<and> same_memory (ram_mmu (c_bus c')) (ram_mmu (c_bus c))
     \<and> (steady c \<longrightarrow> bus_ready (c_bus c')) \<and> dev_ranges (c_bus c') = dev_ranges (c_bus c)"

lemma in_flightD:
  assumes "in_flight c c'"
  shows "core_wf c'" "c_pc c' = c_pc c" "REG_R c' = REG_R c" "c_trap_handler c' = c_trap_handler c"
    "same_memory (ram_mmu (c_bus c')) (ram_mmu (c_bus c))" "steady c \<Longrightarrow> bus_ready (c_bus c')"
    "isa_of c' = isa_of c" "dev_ranges (c_bus c') = dev_ranges (c_bus c)"
  using assms by (auto simp: in_flight_def REG_R_def fun_eq_iff isa_of_def same_memory_byte)

text \<open>The first cycle fetches the word at the program counter.\<close>

lemma fetch_stage:
  assumes wf: "core_wf c" and st: "c_state c = FETCH"
    and coh: "coherent c (c_pc c)" and fe: "fetchable c"
  shows "\<exists>c1. core_cycle j c = Inr c1 \<and> in_flight c c1 \<and> c_state c1 = DECODE
    \<and> c_instruction c1 = mem_word (imem (isa_of c)) (c_pc c) 4 \<and> coherent c1 (c_pc c + 4)
    \<and> c_cycle c1 = c_cycle c + 1 \<and> c_csr c1 = c_csr c"
proof -
  obtain b ps n where f: "fetch c = Inr (c\<lparr>c_bus := b,
      c_instruction := mem_word (imem (isa_of c)) (c_pc c) 4, c_prefetch := ps, c_prefetch_cnt := n\<rparr>)"
    and b: "bus_wf b" "same_memory (ram_mmu b) (ram_mmu (c_bus c))" "length ps = PREFETCH_SIZE - 1"
      "unat n < PREFETCH_SIZE" "window b ps (unat n) (c_pc c + 4)" "steady c \<longrightarrow> bus_ready b"
      "dev_ranges b = dev_ranges (c_bus c)"
    using fetch_word [OF wf coh fe] by (auto simp: isa_of_def)
  let ?c1 = "c\<lparr>c_bus := b, c_instruction := mem_word (imem (isa_of c)) (c_pc c) 4, c_prefetch := ps,
    c_prefetch_cnt := n, c_cycle := c_cycle c + 1, c_state := DECODE\<rparr>"
  have "core_cycle j c = Inr ?c1" using f st by (simp add: core_cycle_def stage_next_def)
  then show ?thesis
    using b wf by (intro exI [of _ ?c1]) (simp add: in_flight_def core_wf_def coherent_def)
qed

text \<open>The second decodes it when it runs as an instruction.\<close>

lemma decode_stage:
  assumes wf: "core_wf c" and st: "c_state c = FETCH"
    and coh: "coherent c (c_pc c)" and fe: "fetchable c"
    and instr: "outcome (mem_word (imem (isa_of c)) (c_pc c) 4) = Runs i"
  shows "\<exists>c1 c2. core_cycle j0 c = Inr c1 \<and> core_cycle j1 c1 = Inr c2 \<and> in_flight c c2
    \<and> c_state c1 = DECODE \<and> c_state c2 = EXECUTE \<and> coherent c2 (c_pc c + 4)
    \<and> c_cycle c2 = c_cycle c + 2 \<and> c_csr c2 = c_csr c
    \<and> runs_as i (REG_R c2) (c_decoded c2) \<and> no_effects (c_decoded c2)"
proof -
  obtain c1 where c1: "core_cycle j0 c = Inr c1" "in_flight c c1" "c_state c1 = DECODE"
    "outcome (c_instruction c1) = Runs i" "coherent c1 (c_pc c + 4)" "c_cycle c1 = c_cycle c + 1" "c_csr c1 = c_csr c"
    using fetch_stage [OF wf st coh fe, of j0] instr by auto
  obtain x where x: "decode c1 = Inr (c1\<lparr>c_decoded := x\<rparr>)" "runs_as i (REG_R c1) x" "no_effects x"
    using decode_runs [of c1 i] c1(4) by auto
  let ?c2 = "c1\<lparr>c_decoded := x, c_cycle := c_cycle c + 2, c_state := EXECUTE\<rparr>"
  have "core_cycle j1 c1 = Inr ?c2"
    using x(1) c1(3,6) by (simp add: core_cycle_def stage_next_def add.commute)
  then show ?thesis
    using c1 x by - (rule exI [of _ c1], rule exI [of _ ?c2], auto simp: in_flight_def core_wf_def coherent_def)
qed

text \<open>The third brings it to the memory stage with the instruction's action.\<close>

lemma pipeline_front:
  assumes wf: "core_wf c" and st: "c_state c = FETCH"
    and coh: "coherent c (c_pc c)" and fe: "fetchable c"
    and instr: "outcome (mem_word (imem (isa_of c)) (c_pc c) 4) = Runs i"
  shows "\<exists>c1 c2 c3. core_cycle j0 c = Inr c1 \<and> core_cycle j1 c1 = Inr c2 \<and> core_cycle j2 c2 = Inr c3
    \<and> c_state c1 = DECODE \<and> c_state c2 = EXECUTE \<and> c_state c3 = MEMORY \<and> in_flight c c3
    \<and> c_cycle c3 = c_cycle c + 3 \<and> c_csr c3 = c_csr c \<and> coherent c3 (c_pc c + 4)
    \<and> carries (c_decoded c3) (c_aluOut c3) (action_of i (c_pc c) (REG_R c))"
proof -
  obtain c1 c2 where c: "core_cycle j0 c = Inr c1" "core_cycle j1 c1 = Inr c2" "c_state c1 = DECODE"
      "c_state c2 = EXECUTE" "in_flight c c2" "coherent c2 (c_pc c + 4)" "c_cycle c2 = c_cycle c + 2"
      "c_csr c2 = c_csr c"
    and d: "runs_as i (REG_R c2) (c_decoded c2)" "no_effects (c_decoded c2)"
    using decode_stage [OF wf st coh fe instr, of j0 j1] by auto
  obtain y a where y: "execute c2 = Inr (c2\<lparr>c_decoded := y, c_aluOut := a\<rparr>)"
      "carries y a (action_of i (c_pc c) (REG_R c))"
    using execute_action [OF d runs_not_Ecall [OF instr]] in_flightD(2,3) [OF c(5)] by auto
  let ?c3 = "c2\<lparr>c_decoded := y, c_aluOut := a, c_cycle := c_cycle c + 3, c_state := MEMORY\<rparr>"
  have "core_cycle j2 c2 = Inr ?c3"
    using y(1) c(4,7) by (simp add: core_cycle_def stage_next_def add.commute)
  then show ?thesis
    using c y(2) by - (rule exI [of _ c1], rule exI [of _ c2], rule exI [of _ ?c3],
      auto simp: in_flight_def core_wf_def coherent_def)
qed

text \<open>The last two stages perform the action.\<close>

lemma writeback_keeps [simp]:
  "c_state (writeback c) = c_state c" "c_cycle (writeback c) = c_cycle c" "c_csr (writeback c) = c_csr c"
  "c_bus (writeback c) = c_bus c" "c_prefetch (writeback c) = c_prefetch c"
  "c_trap_handler (writeback c) = c_trap_handler c"
  by (simp_all add: writeback_def Let_def)

lemma writeback_coherent:
  assumes "coherent c (c_pc c + 4)"
  shows "coherent (writeback c) (c_pc (writeback c))"
  using assms by (cases "isJump (c_decoded c)") (simp_all add: coherent_def window_def writeback_def Let_def)

lemma pipeline_finish:
  assumes wf: "core_wf c" and st: "c_state c = MEMORY" and coh: "coherent c (c_pc c + 4)"
    and mem: "memory_access j3 c = Inr (c\<lparr>c_aluOut := a, c_bus := b\<rparr>)" "bus_wf b"
      "bus_byte b = mem_after act (bus_byte (c_bus c))"
    and res: "(if writeRd (c_decoded c) then Some (rd (c_decoded c), a) else None) = result_of act (bus_byte (c_bus c))"
    and tgt: "(if isJump (c_decoded c) then Some (jumpTarget (c_decoded c)) else None) = target_of act"
  shows "\<exists>c4 c5. core_cycle j3 c = Inr c4 \<and> core_cycle j4 c4 = Inr c5 \<and> c_state c4 = WRITEBACK
    \<and> c_state c5 = FETCH \<and> c_cycle c5 = c_cycle c + 2 \<and> isa_of c5 = apply_action act (isa_of c)
    \<and> core_wf c5 \<and> c_csr c5 = c_csr c \<and> c_trap_handler c5 = c_trap_handler c \<and> c_bus c5 = b
    \<and> (target_of act \<noteq> None \<longrightarrow> c_prefetch_cnt c5 = 0)
    \<and> (same_code (imem (isa_of c5)) (imem (isa_of c)) (c_pc c + 4) \<longrightarrow> coherent c5 (c_pc c5))"
proof -
  let ?c4 = "c\<lparr>c_aluOut := a, c_bus := b, c_cycle := c_cycle c + 1, c_state := WRITEBACK\<rparr>"
  let ?c5 = "stage_next (writeback ?c4) FETCH"
  have s: "core_cycle j3 c = Inr ?c4" "core_cycle j4 ?c4 = Inr ?c5"
    using mem(1) st by (simp_all add: core_cycle_def stage_next_def)
  have wf4: "core_wf ?c4" using wf mem(2) by (simp add: core_wf_def)
  have "isa_of (writeback ?c4) = apply_action act (isa_of c)"
    using writeback_action [of ?c4 "c_decoded c" a act "bus_byte (c_bus c)"] wf tgt mem(3) res
    by (simp add: isa_of_def core_wf_def)
  then have isa: "isa_of ?c5 = apply_action act (isa_of c)" by (simp add: isa_of_def stage_next_def)
  have "coherent ?c4 (c_pc ?c4 + 4)" if "same_code (bus_byte b) (bus_byte (c_bus c)) (c_pc c + 4)"
    using window_code [of "c_bus c" _ _ _ b] that coh wf by (simp add: coherent_def core_wf_def)
  from writeback_coherent [OF this]
  have coh5: "coherent ?c5 (c_pc ?c5)" if "same_code (imem (isa_of ?c5)) (imem (isa_of c)) (c_pc c + 4)"
    using that by (simp add: coherent_def isa_of_def stage_next_def)
  have "c_prefetch_cnt ?c5 = 0" if "target_of act \<noteq> None"
    using that tgt [symmetric] by (simp add: stage_next_def writeback_def Let_def split: if_splits)
  then show ?thesis
    by - (rule exI [of _ ?c4], rule exI [of _ ?c5],
      use s isa coh5 core_wf_writeback [OF wf4] in \<open>simp add: stage_next_def\<close>)
qed

lemma pipeline_back:
  assumes wf: "core_wf c" and st: "c_state c = MEMORY" and i: "i \<noteq> Ecall"
    and y: "carries (c_decoded c) (c_aluOut c) (action_of i (c_pc c) (REG_R c))"
    and ready: "mem_ready (ram_mmu (c_bus c)) (action_of i (c_pc c) (REG_R c))"
    and coh: "coherent c (c_pc c + 4)"
  shows "\<exists>c4 c5. core_cycle j3 c = Inr c4 \<and> core_cycle j4 c4 = Inr c5 \<and> c_state c4 = WRITEBACK
    \<and> c_state c5 = FETCH \<and> c_cycle c5 = c_cycle c + 2 \<and> isa_of c5 = emu_step i (isa_of c)
    \<and> core_wf c5 \<and> c_csr c5 = c_csr c \<and> c_trap_handler c5 = c_trap_handler c
    \<and> same_memory (ram_mmu (c_bus c5)) (mmu_after (action_of i (c_pc c) (REG_R c)) (ram_mmu (c_bus c)))
    \<and> (same_code (imem (isa_of c5)) (imem (isa_of c)) (c_pc c + 4) \<longrightarrow> coherent c5 (c_pc c5))
    \<and> (bus_ready (c_bus c) \<or> settles (action_of i (c_pc c) (REG_R c)) \<longrightarrow> steady c5)
    \<and> dev_ranges (c_bus c5) = dev_ranges (c_bus c)"
proof -
  let ?act = "action_of i (c_pc c) (REG_R c)"
  have "bus_wf (c_bus c)" using wf by (simp add: core_wf_def)
  from memory_stage [OF this refl y ready, of j3]
  obtain a b where m: "memory_access j3 c = Inr (c\<lparr>c_aluOut := a, c_bus := b\<rparr>)"
    "bus_wf b" "bus_byte b = mem_after ?act (bus_byte (c_bus c))"
    "(if writeRd (c_decoded c) then Some (rd (c_decoded c), a) else None) = result_of ?act (bus_byte (c_bus c))"
    "same_memory (ram_mmu b) (mmu_after ?act (ram_mmu (c_bus c)))"
    "bus_ready (c_bus c) \<or> access_at ?act \<noteq> None \<longrightarrow> bus_ready b" "dev_ranges b = dev_ranges (c_bus c)" by blast
  have "emu_step i (isa_of c) = apply_action ?act (isa_of c)"
    using emu_step_action [OF i, of "isa_of c"] by (simp add: isa_of_def)
  then show ?thesis
    using pipeline_finish [OF wf st coh m(1-4) carries_target [OF y], of j4] m(5-7)
    unfolding settles_def steady_def by auto
qed

lemma pipeline_five:
  assumes wf: "core_wf c" and st: "c_state c = FETCH"
    and coh: "coherent c (c_pc c)" and fe: "fetchable c"
    and instr: "outcome (mem_word (imem (isa_of c)) (c_pc c) 4) = Runs i"
    and ready: "mem_ready (ram_mmu (c_bus c)) (action_of i (c_pc c) (REG_R c))"
  shows "\<exists>c'. core_cycles indet 5 c = Inr c' \<and> untrapped indet 5 c \<and> c_state c' = FETCH \<and> c_cycle c' = c_cycle c + 5
    \<and> isa_of c' = emu_step i (isa_of c) \<and> core_wf c' \<and> c_csr c' = c_csr c
    \<and> same_memory (ram_mmu (c_bus c'))
         (mmu_after (action_of i (c_pc c) (REG_R c)) (ram_mmu (c_bus c)))
    \<and> (same_code (imem (isa_of c')) (imem (isa_of c)) (c_pc c + 4) \<longrightarrow> coherent c' (c_pc c'))
    \<and> (steady c \<or> settles (action_of i (c_pc c) (REG_R c)) \<longrightarrow> steady c')
    \<and> c_trap_handler c' = c_trap_handler c
    \<and> dev_ranges (c_bus c') = dev_ranges (c_bus c)"
proof -
  let ?act = "action_of i (c_pc c) (REG_R c)"
  obtain c1 c2 c3 where front: "core_cycle (indet 0) c = Inr c1" "core_cycle (indet 1) c1 = Inr c2"
      "core_cycle (indet 2) c2 = Inr c3" "c_state c1 = DECODE" "c_state c2 = EXECUTE" "c_state c3 = MEMORY"
    and fl: "in_flight c c3" and c3: "c_cycle c3 = c_cycle c + 3" "c_csr c3 = c_csr c"
      "coherent c3 (c_pc c + 4)" "carries (c_decoded c3) (c_aluOut c3) ?act"
    using pipeline_front [OF wf st coh fe instr, of "indet 0" "indet 1" "indet 2"] by auto
  note fl = in_flightD [OF fl]
  have mwf: "mmu_wf (ram_mmu (c_bus c))" using wf by (simp add: core_wf_def bus_wf_def)
  have "mem_ready (ram_mmu (c_bus c3)) ?act" using ready mem_ready_same [OF fl(5) mwf] by simp
  with pipeline_back [OF fl(1) front(6) runs_not_Ecall [OF instr], of "indet 3" "indet 4"] fl(2,3) c3(3,4)
  obtain c4 c5 where bk: "core_cycle (indet 3) c3 = Inr c4" "core_cycle (indet 4) c4 = Inr c5"
      "c_state c4 = WRITEBACK" "c_state c5 = FETCH"
    and c5: "c_cycle c5 = c_cycle c3 + 2" "isa_of c5 = emu_step i (isa_of c3)" "core_wf c5"
      "c_csr c5 = c_csr c3" "c_trap_handler c5 = c_trap_handler c3"
      "same_memory (ram_mmu (c_bus c5)) (mmu_after ?act (ram_mmu (c_bus c3)))"
      "same_code (imem (isa_of c5)) (imem (isa_of c3)) (c_pc c3 + 4) \<longrightarrow> coherent c5 (c_pc c5)"
      "bus_ready (c_bus c3) \<or> settles ?act \<longrightarrow> steady c5" "dev_ranges (c_bus c5) = dev_ranges (c_bus c3)" by auto
  have "core_cycles indet 5 c = Inr c5" "untrapped indet 5 c"
    using five_cycles [OF front(1-3) bk(1,2)] front(4-6) bk(3,4) st by simp_all
  moreover have "same_memory (ram_mmu (c_bus c5)) (mmu_after ?act (ram_mmu (c_bus c)))"
    by (rule same_memory_trans [OF c5(6) mmu_after_same [OF fl(5) mwf]])
  ultimately show ?thesis
    using bk(4) c3 c5 fl by (intro exI [of _ c5]) simp
qed

text \<open>
  C2. Refinement of one instruction. Let a well-formed core be about to fetch, its prefetch buffer
  agree with memory, and the fetch find its word: the buffer is not empty, or the 32 bytes at
  the program counter can be read. Let the word at
  the program counter be one that runs as an instruction \<open>i\<close> (its encoding, or a word that the
  emulator does not tell from it) whose memory access, if any, the memory allows. Then five cycles
  complete without an abort or a trap; program counter, registers and memory are those after one
  step of the emulated machine, which is the manual's step wherever the two agree; the core is
  about to fetch again, the cycle counter has grown by 5, and the buffer agrees with memory again
  unless the instruction wrote the code ahead of it.
\<close>

theorem pipeline_step:
  assumes wf: "core_wf c" and st: "c_state c = FETCH"
    and coh: "coherent c (c_pc c)" and fe: "fetchable c"
    and instr: "outcome (mem_word (imem (isa_of c)) (c_pc c) 4) = Runs i"
    and ready: "mem_ready (ram_mmu (c_bus c)) (action_of i (c_pc c) (REG_R c))"
  shows "\<exists>c'. core_cycles indet 5 c = Inr c' \<and> untrapped indet 5 c \<and> c_state c' = FETCH \<and> c_cycle c' = c_cycle c + 5
    \<and> isa_of c' = emu_step i (isa_of c)
    \<and> (agrees i (isa_of c) \<longrightarrow> isa_of c' = isa_step i (isa_of c))
    \<and> core_wf c' \<and> c_csr c' = c_csr c
    \<and> (same_code (imem (isa_of c')) (imem (isa_of c)) (c_pc c + 4) \<longrightarrow> coherent c' (c_pc c'))"
  using pipeline_five [OF assms, of indet] emu_step_agrees [of i "isa_of c"] by metis

text \<open>
  A program at 0x100 of two instructions, \<open>ADDI x1, x0, 5\<close> and \<open>ADD x2, x1, x1\<close>, in
  readable memory, and a core about to run it.
\<close>

definition prog_mmu :: mmu_t where
  "prog_mmu = (tiny_mmu 5)\<lparr>mmu_data := [0x93, 0, 0x50, 0, 0x33, 0x81, 0x10, 0] @ replicate 56 0\<rparr>"

definition prog_core :: core_t where
  "prog_core = (zero_core (tiny_bus prog_mmu))\<lparr>c_pc := 0x100\<rparr>"

lemma prog_mmu_simps [simp]:
  "mmu_wf prog_mmu" "mmu_base prog_mmu = 0x100" "mmu_size prog_mmu = 64"
  "in_block prog_mmu a n = in_block (tiny_mmu 5) a n" "allowed prog_mmu a n p = allowed (tiny_mmu 5) a n p"
  "bus_byte (tiny_bus prog_mmu) = mmu_byte prog_mmu"
  by (simp_all add: prog_mmu_def tiny_mmu_def mmu_wf_def in_block_def allowed_def offset_def bus_byte_def fun_eq_iff)

lemma prog_mmu_readable:
  "256 \<le> unat a \<Longrightarrow> unat a + n \<le> 320 \<Longrightarrow> 0 < n \<Longrightarrow> n < 2 ^ 32 \<Longrightarrow> mmu_rd prog_mmu a n \<noteq> None"
  by (simp add: mmu_rd_eq perm_allows_def)

lemma prog_mmu_words [simp]:
  "mem_word (mmu_byte prog_mmu) 0x100 4 = encode (OpImm Addi 1 0 5)"
  "mem_word (mmu_byte prog_mmu) 0x104 4 = encode (Op Add 2 1 1)"
  by code_simp+

lemma prog_mmu_outcomes:
  "outcome (mem_word (mmu_byte prog_mmu) 0x100 4) = Runs (OpImm Addi 1 0 5)"
  "outcome (mem_word (mmu_byte prog_mmu) 0x104 4) = Runs (Op Add 2 1 1)"
  unfolding prog_mmu_words by (rule outcome_insn, simp)+

lemma prog_core_simps [simp]:
  "core_wf prog_core" "c_state prog_core = FETCH" "c_pc prog_core = 0x100" "coherent prog_core a"
  "REG_R prog_core = (\<lambda>_. 0)" "c_bus prog_core = tiny_bus prog_mmu" "c_prefetch_cnt prog_core = 0"
proof -
  have "unat (r :: reg) < 32" for r using unsigned_less [of r, where 'a = nat] by simp
  then show "REG_R prog_core = (\<lambda>_. 0)"
    by (simp add: prog_core_def zero_core_def REG_R_def fun_eq_iff)
qed (simp_all add: prog_core_def zero_core_def core_wf_def coherent_def window_def)

theorem pipeline_step_witness:
  "\<exists>c'. core_cycles (\<lambda>_. 0) 5 prog_core = Inr c' \<and> c_pc c' = 0x104 \<and> REG_R c' 1 = 5"
proof -
  have "fetchable prog_core" using prog_mmu_readable [of "0x100" 32] by (simp add: fetchable_def)
  then obtain c' where "core_cycles (\<lambda>_. 0) 5 prog_core = Inr c'"
    "isa_of c' = isa_step (OpImm Addi 1 0 5) (isa_of prog_core)"
    using pipeline_step [of prog_core "OpImm Addi 1 0 5" "\<lambda>_. 0"] prog_mmu_outcomes(1)
    by (auto simp: isa_of_def simp del: prog_mmu_words)
  then show ?thesis by (simp add: isa_of_def isa_next_def isa_put_def)
qed

end
