(* ===== verification/Cycle_Spec.thy ===== *)
theory Cycle_Spec
  imports Pipeline
begin

text \<open>
  What holds of every cycle, whatever the core fetches: the invariant and the order of the
  stages, the ways a cycle can abort, and the trap protocol.
\<close>

section \<open>Traps\<close>

definition trapped :: "core_t \<Rightarrow> trap_cause_t \<Rightarrow> core_t" where
  "trapped c k = c\<lparr>c_state := TRAP, c_trap_state := ENTER,
     c_csr := (c_csr c)\<lparr>csr_state := (csr_state (c_csr c))(unat mcause := ucast (cause_code k))\<rparr>\<rparr>"

lemma cause_trap_eq: "cause_trap c k = Inr (trapped c k)"
  using csr_rw32.opr_in [of mcause "c_csr c" "cause_code k"]
  by (simp add: cause_trap_def trapped_def)

lemma trapped_simps [simp]:
  "c_state (trapped c k) = TRAP" "c_trap_state (trapped c k) = ENTER"
  "c_registers (trapped c k) = c_registers c" "c_trap_regs (trapped c k) = c_trap_regs c"
  "c_bus (trapped c k) = c_bus c" "c_cycle (trapped c k) = c_cycle c" "c_pc (trapped c k) = c_pc c"
  "core_wf (trapped c k) = core_wf c" "isa_of (trapped c k) = isa_of c"
  "c_trap_handler (trapped c k) = c_trap_handler c"
  "csr_state (c_csr (trapped c k)) 0x342 = ucast (cause_code k)"
  by (simp_all add: trapped_def core_wf_def isa_of_def REG_R_def fun_eq_iff)

lemma stage_next_simps [simp]:
  "c_state (stage_next c s) = (if c_state c = TRAP then TRAP else s)"
  "c_trap_state (stage_next c s) = c_trap_state c" "c_csr (stage_next c s) = c_csr c"
  "c_cycle (stage_next c s) = c_cycle c + 1" "isa_of (stage_next c s) = isa_of c"
  "core_wf (stage_next c s) = core_wf c" "c_registers (stage_next c s) = c_registers c"
  "c_trap_regs (stage_next c s) = c_trap_regs c" "c_bus (stage_next c s) = c_bus c"
  "c_prefetch (stage_next c s) = c_prefetch c" "c_prefetch_cnt (stage_next c s) = c_prefetch_cnt c"
  "c_decoded (stage_next c s) = c_decoded c" "c_aluOut (stage_next c s) = c_aluOut c"
  "c_pc (stage_next c s) = c_pc c" "c_trap_handler (stage_next c s) = c_trap_handler c"
  by (simp_all add: stage_next_def isa_of_def)

lemma isa_of_simps [simp]:
  "isa_of (c\<lparr>c_decoded := x\<rparr>) = isa_of c" "isa_of (c\<lparr>c_cycle := n\<rparr>) = isa_of c"
  "isa_of (c\<lparr>c_state := s\<rparr>) = isa_of c"
  by (simp_all add: isa_of_def)

lemma core_cycles_2: "core_cycles j 2 c = rbind (core_cycle (j 0) c) (core_cycle (j 1))"
  by (cases "core_cycle (j 0) c"; cases "core_cycle (j 1) (projr (core_cycle (j 0) c))")
    (simp_all add: numeral_2_eq_2)

lemma core_cycles_1: "core_cycles j 1 c = core_cycle (j 0) c"
  by (cases "core_cycle (j 0) c") simp_all

lemma core_cycles_add:
  "core_cycles j (m + n) c = rbind (core_cycles j m c) (core_cycles (\<lambda>k. j (m + k)) n)"
proof (induction m arbitrary: c j)
  case (Suc m)
  then show ?case by (cases "core_cycle (j 0) c") (simp_all add: rbind_assoc)
qed simp

text \<open>The three stages of a trap.\<close>

lemma trap_enter:
  assumes "c_trap_state c = ENTER"
  shows "trap c = Inr (c\<lparr>c_trap_regs := c_registers c, c_prefetch_cnt := 0, c_trap_pc := c_pc c,
    c_csr := (c_csr c)\<lparr>csr_state := (csr_state (c_csr c))(unat mepc := ucast (c_pc c))\<rparr>,
    c_state := TRAP, c_trap_state := HANDLE\<rparr>)"
  using assms csr_rw32.opr_in [of mepc "c_csr c" "c_pc c"] by (simp add: trap_def Let_def)

lemma trap_exit:
  assumes "c_trap_state c = EXIT"
  shows "\<exists>k. trap c = Inr (c\<lparr>c_registers := c_trap_regs c, c_csr := k,
    c_pc := ucast (csr_state (c_csr c) (unat mepc)) + 4, c_trap_state := NONE, c_state := FETCH,
    c_prefetch_cnt := 0\<rparr>)"
  using assms csr_rc32.opr_in [of mepc "c_csr c" 0] by (auto simp: trap_def Let_def)

text \<open>
  C22. The trap protocol. A trapping core takes three cycles. The first saves the registers in
  \<open>trap_regs\<close> and the program counter in \<open>mepc\<close> and waits in \<open>HANDLE\<close>; whatever a
  handler then puts in \<open>trap_regs\<close>, the second and the third cycle return with these as
  the registers, at the instruction after the one that trapped, with an empty prefetch
  buffer, and memory untouched.
\<close>

theorem trap_protocol:
  assumes st: "c_state c = TRAP" "c_trap_state c = ENTER"
  shows "\<exists>c1. core_cycle j1 c = Inr c1 \<and> c_state c1 = TRAP \<and> c_trap_state c1 = HANDLE
      \<and> c_trap_regs c1 = c_registers c \<and> csr_get (c_csr c1) mepc = Inr (ucast (c_pc c))
      \<and> csr_get (c_csr c1) mcause = csr_get (c_csr c) mcause
      \<and> (\<forall>regs. \<exists>c2. core_cycles j2 2 (c1\<lparr>c_trap_regs := regs\<rparr>) = Inr c2 \<and> c_state c2 = FETCH
            \<and> c_trap_state c2 = NONE \<and> c_registers c2 = regs \<and> c_pc c2 = c_pc c + 4
            \<and> c_prefetch_cnt c2 = 0 \<and> c_bus c2 = c_bus c \<and> c_cycle c2 = c_cycle c + 3)"
proof -
  let ?c1 = "c\<lparr>c_trap_regs := c_registers c, c_prefetch_cnt := 0, c_trap_pc := c_pc c,
    c_csr := (c_csr c)\<lparr>csr_state := (csr_state (c_csr c))(unat mepc := ucast (c_pc c))\<rparr>,
    c_state := TRAP, c_trap_state := HANDLE, c_cycle := c_cycle c + 1\<rparr>"
  have s1: "core_cycle j1 c = Inr ?c1"
    using st trap_enter [OF st(2)] by (simp add: core_cycle_def stage_next_def)
  have s2: "\<exists>c2. core_cycles j2 2 (?c1\<lparr>c_trap_regs := regs\<rparr>) = Inr c2 \<and> c_state c2 = FETCH
            \<and> c_trap_state c2 = NONE \<and> c_registers c2 = regs \<and> c_pc c2 = c_pc c + 4
            \<and> c_prefetch_cnt c2 = 0 \<and> c_bus c2 = c_bus c \<and> c_cycle c2 = c_cycle c + 3" for regs
  proof -
    let ?c2 = "?c1\<lparr>c_trap_regs := regs, c_trap_state := EXIT, c_cycle := c_cycle c + 2\<rparr>"
    have h: "core_cycle (j2 0) (?c1\<lparr>c_trap_regs := regs\<rparr>) = Inr ?c2"
      by (simp add: core_cycle_def stage_next_def trap_def)
    obtain k where k: "trap ?c2 = Inr (?c2\<lparr>c_registers := c_trap_regs ?c2, c_csr := k,
      c_pc := ucast (csr_state (c_csr ?c2) (unat mepc)) + 4, c_trap_state := NONE, c_state := FETCH,
      c_prefetch_cnt := 0\<rparr>)" using trap_exit [of ?c2] by auto
    have "core_cycle (j2 1) ?c2 = Inr (stage_next (?c2\<lparr>c_registers := regs, c_csr := k,
      c_pc := c_pc c + 4, c_trap_state := NONE, c_state := FETCH, c_prefetch_cnt := 0\<rparr>) FETCH)"
      using k by (simp add: core_cycle_def)
    then show ?thesis using h by (simp add: eval_nat_numeral stage_next_def)
  qed
  show ?thesis
    by (rule exI [of _ ?c1]) (intro conjI s1 allI s2; simp add: csr_get_def)
qed

theorem trap_protocol_witness:
  "\<exists>c1. core_cycle 0 (prog_core\<lparr>c_state := TRAP, c_trap_state := ENTER\<rparr>) = Inr c1
     \<and> csr_get (c_csr c1) mepc = Inr 0x100
     \<and> (\<exists>c2. core_cycles (\<lambda>_. 0) 2 (c1\<lparr>c_trap_regs := replicate 32 7\<rparr>) = Inr c2
          \<and> c_pc c2 = 0x104 \<and> c_registers c2 = replicate 32 7)"
proof -
  let ?c = "prog_core\<lparr>c_state := TRAP, c_trap_state := ENTER\<rparr>"
  have "c_state ?c = TRAP" "c_trap_state ?c = ENTER" by simp_all
  from trap_protocol [OF this, of 0 "\<lambda>_. 0"] obtain c1 where c1: "core_cycle 0 ?c = Inr c1"
    "csr_get (c_csr c1) mepc = Inr (ucast (c_pc ?c))"
    "\<forall>regs. \<exists>c2. core_cycles (\<lambda>_. 0) 2 (c1\<lparr>c_trap_regs := regs\<rparr>) = Inr c2
      \<and> c_registers c2 = regs \<and> c_pc c2 = c_pc ?c + 4"
    by metis
  from c1(3) obtain c2 where "core_cycles (\<lambda>_. 0) 2 (c1\<lparr>c_trap_regs := replicate 32 7\<rparr>) = Inr c2"
    "c_registers c2 = replicate 32 7" "c_pc c2 = c_pc ?c + 4" by metis
  with c1(1,2) show ?thesis by simp
qed

section \<open>Every cycle\<close>

definition core_inv :: "core_t \<Rightarrow> bool" where
  "core_inv c \<longleftrightarrow> core_wf c \<and> c_registers c ! 0 = 0
     \<and> (c_state c = TRAP \<longrightarrow> c_trap_state c \<noteq> NONE)
     \<and> (c_state c = TRAP \<longrightarrow> c_trap_state c \<noteq> ENTER \<longrightarrow> c_trap_regs c ! 0 = 0)"

fun stage_after :: "core_state_t \<Rightarrow> core_state_t" where
  "stage_after FETCH = DECODE"
| "stage_after DECODE = EXECUTE"
| "stage_after EXECUTE = MEMORY"
| "stage_after MEMORY = WRITEBACK"
| "stage_after WRITEBACK = FETCH"
| "stage_after TRAP = FETCH"

text \<open>A stage's result: it may trap, abort on an assertion, or return with the invariant.\<close>

definition stage_ok :: "core_t \<Rightarrow> core_t res \<Rightarrow> bool" where
  "stage_ok c r \<longleftrightarrow> (case r of Inl e \<Rightarrow> e = Assert_Failed
     | Inr c' \<Rightarrow> core_wf c' \<and> c_registers c' ! 0 = 0 \<and> c_cycle c' = c_cycle c
         \<and> (c_state c' = c_state c \<or> c_state c' = TRAP \<and> c_trap_state c' = ENTER))"

lemma stage_ok_trapped:
  "core_wf c' \<Longrightarrow> c_registers c' ! 0 = 0 \<Longrightarrow> c_cycle c' = c_cycle c \<Longrightarrow>
   stage_ok c (Inr (trapped c' k))"
  by (simp add: stage_ok_def)

lemma stage_ok_same:
  "core_wf c' \<Longrightarrow> c_registers c' ! 0 = 0 \<Longrightarrow> c_cycle c' = c_cycle c \<Longrightarrow> c_state c' = c_state c \<Longrightarrow>
   stage_ok c (Inr c')"
  by (simp add: stage_ok_def)

lemma stage_ok_abort: "stage_ok c (Inl Assert_Failed)"
  by (simp add: stage_ok_def)

lemmas stage_ok_intros = stage_ok_trapped stage_ok_same stage_ok_abort

lemma decode_ok:
  assumes "core_wf c" and "c_registers c ! 0 = 0"
  shows "stage_ok c (decode c)"
  using assms
  by (auto simp: decode_def Let_def table_lookup cause_trap_eq split: optype_t.split
      intro!: stage_ok_intros)

lemma stage_ok_if:
  "(b \<Longrightarrow> stage_ok c x) \<Longrightarrow> (\<not> b \<Longrightarrow> stage_ok c y) \<Longrightarrow> stage_ok c (if b then x else y)"
  by simp

lemma execute_ok:
  assumes wf: "core_wf c" "c_registers c ! 0 = 0"
  shows "stage_ok c (execute c)"
proof -
  have "stage_ok c (execute_R c)"
    using wf by (auto simp: execute_R_def Let_def cause_trap_eq split: option.split
        intro!: stage_ok_intros)
  moreover have "stage_ok c (execute_I c)"
    unfolding execute_I_def Let_def by (intro stage_ok_if stage_ok_intros) (simp_all add: wf)
  moreover have "stage_ok c (execute_S c)"
    unfolding execute_S_def Let_def by (intro stage_ok_if stage_ok_intros) (simp_all add: wf)
  moreover have "stage_ok c (execute_B c)"
    unfolding execute_B_def Let_def by (intro stage_ok_intros) (simp_all add: wf)
  moreover have "stage_ok c (execute_U c)"
    unfolding execute_U_def Let_def by (intro stage_ok_if stage_ok_intros) (simp_all add: wf)
  moreover have "stage_ok c (execute_J c)"
    unfolding execute_J_def Let_def c_assert_def
    by (simp only: if_distrib [of "\<lambda>m. rbind m _"] rbind.simps, intro stage_ok_if stage_ok_intros)
      (simp_all add: wf)
  moreover have "stage_ok c (execute_C c)"
    unfolding execute_C_def cause_trap_eq by (intro stage_ok_if stage_ok_intros) (simp_all add: wf)
  ultimately show ?thesis
    by (simp add: execute_def cause_trap_eq stage_ok_trapped wf split: optype_t.split)
qed

lemma memory_ok:
  assumes "core_wf c" and "c_registers c ! 0 = 0"
  shows "stage_ok c (memory_access j c)"
proof -
  have b: "bus_wf (c_bus c)" using assms(1) by (simp add: core_wf_def)
  obtain r b1 where r: "bus_read_single j (c_bus c) (ucast (memOffset (c_decoded c)))
      (memAccessWidth (c_decoded c)) = Inr (r, b1)" "bus_wf b1"
    using bus_read_single_total [OF b] by blast
  obtain b2 where w: "bus_write_single (c_bus c) (ucast (memOffset (c_decoded c))) (c_aluOut c)
      (memAccessWidth (c_decoded c)) = Inr b2" "bus_wf b2"
    using bus_write_single_total [OF b] by blast
  show ?thesis
    using assms r w
    by (auto simp: memory_access_def Let_def cause_trap_eq split: bus_status_t.split
        intro!: stage_ok_intros)
qed

lemma writeback_ok:
  assumes "core_wf c" and "c_registers c ! 0 = 0"
  shows "stage_ok c (Inr (writeback c))"
proof -
  have len: "length (c_registers c) = 32" using assms(1) by (simp add: core_wf_def)
  have "c_registers (REG_W c d v) ! 0 = 0" for d v
    using assms(2) len by (cases "d = 0") (auto simp: REG_W_def nth_list_update unsigned_eq_0_iff)
  then show ?thesis
    using assms by (intro stage_ok_same core_wf_writeback) (simp_all add: writeback_def Let_def)
qed

lemma fetch_ok:
  assumes wf: "core_wf c" and x0: "c_registers c ! 0 = 0"
    and dev: "\<forall>d \<in> set (mmio_devices (c_bus c)). dev_driver d = Csr_Driver \<longrightarrow> \<not> covers d (ucast (c_pc c))"
  shows "stage_ok c (fetch c)"
proof (cases "c_prefetch_cnt c = 0")
  case False
  then have "unat (c_prefetch_cnt c - 1) < unat (c_prefetch_cnt c)"
    by (simp add: unat_minus_one unat_gt_0)
  then show ?thesis
    using False wf x0 by (auto simp: fetch_def core_wf_def stage_ok_def)
next
  case True
  have b: "bus_wf (c_bus c)" "mmu_wf (ram_mmu (c_bus c))" "\<not> mutex_held (c_bus c)"
    using wf by (auto simp: core_wf_def bus_wf_def)
  show ?thesis
  proof (cases "in_block (ram_mmu (c_bus c)) (c_pc c) 1")
    case ram: True
    show ?thesis
    proof (cases "mmu_rd (ram_mmu (c_bus c)) (c_pc c) 32")
      case None
      then show ?thesis
        using True bus_read_multiple_ram [OF b(1) ram, of 8 WORD]
        by (simp add: fetch_def width_bytes_def cause_trap_eq stage_ok_def)
    next
      case (Some bs)
      have "length (words_of_bytes bs) = 8"
        using words_in_block(2) [OF b(2), of "c_pc c" 8 bs 0] Some by simp
      then show ?thesis
        using fetch_refill [OF wf True Some] wf x0 bus_wf_ram_after [OF b(1)] b(2)
        by (simp add: stage_ok_def core_wf_def)
    qed
  next
    case out: False
    have none: "find_dev (mmio_devices (c_bus c)) (ucast (c_pc c)) = None"
    proof (rule ccontr)
      assume "\<not> ?thesis"
      then obtain k where k: "find_dev (mmio_devices (c_bus c)) (ucast (c_pc c)) = Some k" by blast
      show False
        using other_dev_block [OF b(1) out k] find_dev_Some [OF k] dev by (meson nth_mem)
    qed
    then show ?thesis
      using True b by (simp add: fetch_def bus_read_multiple_def bus_op_defs bus_find_device_def
          cause_trap_eq stage_ok_def)
  qed
qed

lemma cycle_of_stage:
  assumes ok: "stage_ok c r" and inv: "core_inv c" and st: "c_state c \<noteq> TRAP"
  shows "case rbind r (\<lambda>c'. Inr (stage_next c' (stage_after (c_state c)))) of
      Inl e \<Rightarrow> e = Assert_Failed
    | Inr c' \<Rightarrow> core_inv c' \<and> c_cycle c' = c_cycle c + 1
        \<and> (c_state c' = stage_after (c_state c) \<or> c_state c' = TRAP)"
  using assms by (cases r; cases "c_state c") (auto simp: stage_ok_def core_inv_def)

lemma trap_cycle_ok:
  assumes inv: "core_inv c" and st: "c_state c = TRAP"
  shows "case core_cycle j c of Inl e \<Rightarrow> e = Assert_Failed
    | Inr c' \<Rightarrow> core_inv c' \<and> c_cycle c' = c_cycle c + 1
        \<and> (c_state c' = stage_after (c_state c) \<or> c_state c' = TRAP)"
proof -
  consider "c_trap_state c = ENTER" | "c_trap_state c = HANDLE" | "c_trap_state c = EXIT"
    using inv st by (cases "c_trap_state c") (auto simp: core_inv_def)
  then show ?thesis
  proof cases
    case 1
    then show ?thesis
      using st inv trap_enter [OF 1] by (simp add: core_cycle_def core_inv_def core_wf_def)
  next
    case 2
    then show ?thesis
      using st inv by (simp add: core_cycle_def trap_def core_inv_def core_wf_def)
  next
    case 3
    then show ?thesis
      using st inv trap_exit [OF 3] by (auto simp: core_cycle_def core_inv_def core_wf_def)
  qed
qed

text \<open>
  C13. Every cycle keeps the invariant and the order of the stages. Whatever the core runs, a
  cycle that completes adds 1 to the cycle counter, leaves register 0 zero, the arrays at
  their lengths and the bus unlocked, and moves to the next stage of
  fetch - decode - execute - memory - write-back, or to a trap, or within a trap and back to
  fetch. A cycle never leaves an array and never blocks: the one way it can end the emulator
  is an assertion, as long as the program counter is not in a device without a \<open>read\<close>
  function.
\<close>

theorem core_cycle_invariant:
  assumes inv: "core_inv c"
    and dev: "c_state c = FETCH \<Longrightarrow> \<forall>d \<in> set (mmio_devices (c_bus c)).
      dev_driver d = Csr_Driver \<longrightarrow> \<not> covers d (ucast (c_pc c))"
  shows "case core_cycle j c of Inl e \<Rightarrow> e = Assert_Failed
    | Inr c' \<Rightarrow> core_inv c' \<and> c_cycle c' = c_cycle c + 1
        \<and> (c_state c' = stage_after (c_state c) \<or> c_state c' = TRAP)"
proof -
  have wf: "core_wf c" "c_registers c ! 0 = 0" using inv by (auto simp: core_inv_def)
  show ?thesis
  proof (cases "c_state c")
    case TRAP
    then show ?thesis by (rule trap_cycle_ok [OF inv])
  next
    case WRITEBACK
    then show ?thesis
      using cycle_of_stage [OF writeback_ok [OF wf] inv] by (simp add: core_cycle_def)
  next
    case FETCH
    then show ?thesis
      using cycle_of_stage [OF fetch_ok [OF wf dev] inv] by (simp add: core_cycle_def)
  next
    case DECODE
    then show ?thesis
      using cycle_of_stage [OF decode_ok [OF wf] inv] by (simp add: core_cycle_def)
  next
    case EXECUTE
    then show ?thesis
      using cycle_of_stage [OF execute_ok [OF wf] inv] by (simp add: core_cycle_def)
  next
    case MEMORY
    then show ?thesis
      using cycle_of_stage [OF memory_ok [OF wf] inv] by (simp add: core_cycle_def)
  qed
qed

theorem core_cycle_invariant_witness:
  "case core_cycle 0 prog_core of Inl e \<Rightarrow> e = Assert_Failed
     | Inr c' \<Rightarrow> core_inv c' \<and> (c_state c' = DECODE \<or> c_state c' = TRAP)"
proof -
  have "core_inv prog_core" by (simp add: core_inv_def) (simp add: prog_core_def zero_core_def)
  moreover have "\<forall>d \<in> set (mmio_devices (c_bus prog_core)). dev_driver d = Csr_Driver \<longrightarrow>
      \<not> covers d (ucast (c_pc prog_core))"
    by (simp add: tiny_bus_def csr_mmio_device_def covers_def)
  ultimately show ?thesis
    using core_cycle_invariant [of prog_core 0] by (auto split: sum.splits)
qed

section \<open>Fetching at the end of memory\<close>

text \<open>
  C34. Code cannot be fetched near the end of readable memory. With an empty prefetch buffer
  (at the start, after every jump and every eighth word) the fetch stage asks for 32 bytes;
  if fewer are readable the emulator aborts on an assertion, even when the four bytes at the
  program counter are a readable instruction.
\<close>

theorem fetch_needs_32_bytes:
  assumes wf: "core_wf c" and st: "c_state c = FETCH" "c_prefetch_cnt c = 0"
    and word: "mmu_rd (ram_mmu (c_bus c)) (c_pc c) 4 = Some bs"
    and short: "mmu_rd (ram_mmu (c_bus c)) (c_pc c) 32 = None"
  shows "core_cycle j c = Inl Assert_Failed"
proof -
  have b: "bus_wf (c_bus c)" "mmu_wf (ram_mmu (c_bus c))" using wf by (auto simp: core_wf_def bus_wf_def)
  have "in_block (ram_mmu (c_bus c)) (c_pc c) 1"
    using in_block_1 mmu_rd_SomeD(3) [OF b(2) word] by simp
  then show ?thesis
    using st short bus_read_multiple_ram [OF b(1), of "c_pc c" 8 WORD]
    by (simp add: core_cycle_def fetch_def width_bytes_def cause_trap_eq)
qed

theorem fetch_needs_32_bytes_witness:
  "core_cycle 0 (prog_core\<lparr>c_pc := 0x130\<rparr>) = Inl Assert_Failed"
proof -
  obtain bs where "mmu_rd prog_mmu 0x130 4 = Some bs" using prog_mmu_readable [of "0x130" 4] by auto
  moreover have "mmu_rd prog_mmu 0x130 32 = None" by (simp add: mmu_rd_eq)
  ultimately show ?thesis
    using fetch_needs_32_bytes [of "prog_core\<lparr>c_pc := 0x130\<rparr>" bs 0] by simp
qed

end
