(* ===== verification/Word_Spec.thy ===== *)
theory Word_Spec
  imports Cycle_Spec
begin

text \<open>
  Every instruction word in the pipeline: the decode and the execute stage do to a word exactly
  what \<open>outcome\<close> says, whatever the state of the core. Then the consequences for a core
  that fetches such a word: how it gets to a trap or to an abort.
\<close>

section \<open>Decode and execute\<close>

lemma decode_execute:
  assumes "c_state c = DECODE" and "decode c = Inr (c\<lparr>c_decoded := x\<rparr>)"
  shows "core_cycles j 2 c = rbind (execute (c\<lparr>c_decoded := x, c_cycle := c_cycle c + 1, c_state := EXECUTE\<rparr>))
    (\<lambda>c'. Inr (stage_next c' MEMORY))"
    and "core_cycles j 1 c = Inr (c\<lparr>c_decoded := x, c_cycle := c_cycle c + 1, c_state := EXECUTE\<rparr>)"
  using assms by (simp_all add: core_cycles_2 core_cycle_def stage_next_def)

text \<open>The decoded fields of a word with a given opcode.\<close>

lemma decode_opcode:
  assumes "c_instruction c AND 0x7f = ucast (opc :: 8 word)" and "decode_type_table ! unat opc = ty"
    and "ty \<noteq> Unknown"
  shows "\<exists>x. decode c = Inr (c\<lparr>c_decoded := x\<rparr>) \<and> no_effects x \<and> optype x = ty \<and> opcode x = opc
    \<and> funct3 x = f3_of (c_instruction c) \<and> funct7 x = (if ty = R then f7_of (c_instruction c) else 0)
    \<and> (ty = B \<longrightarrow> imm12 x = branch_imm (c_instruction c))"
proof -
  have "unat opc < 256" using unsigned_less [of opc, where 'a = nat] by simp
  then have "unat (c_instruction c AND 0x7f) = unat opc"
    by (simp add: assms(1) unsigned_ucast_eq take_bit_nat_eq_self)
  then have "decode_type_table ! unat (c_instruction c AND 0x7f) = ty" using assms(2) by simp
  from decode_fields [OF refl this assms(3)] show ?thesis by (auto simp: assms(1))
qed

lemma f7_cases: "drop_bit 5 f7 \<in> {0, 1, 2, 3}" for f7 :: "7 word"
proof -
  have "unat f7 < 128" using unsigned_less [of f7, where 'a = nat] by simp
  then have "unat (drop_bit 5 f7) < 4" by (simp add: drop_bit_eq_div unat_div)
  then have "unat (drop_bit 5 f7) \<in> {0, 1, 2, 3}" by auto
  then have "word_of_nat (unat (drop_bit 5 f7)) \<in> (word_of_nat ` {0, 1, 2, 3} :: 7 word set)" by blast
  then show ?thesis by simp
qed

text \<open>What decode leaves for a word with another opcode.\<close>

lemma decode_other:
  assumes "decode_type_table ! unat (c_instruction c AND 0x7f) = Unknown"
  shows "\<exists>x. decode c = Inr (trapped (c\<lparr>c_decoded := x\<rparr>) ILLEGAL_INSTRUCTION)"
  using assms by (auto simp: decode_def Let_def table_lookup cause_trap_eq)

text \<open>The keys that no arm of the switches has.\<close>

lemma alu_R_none:
  assumes "opcode x = 0x33" and "find (r_like (funct3 x) (funct7 x)) r_ops = None"
  shows "alu_R (op_key7 x) a b = None"
  using assms f3_cases [of "funct3 x"] f7_cases [of "funct7 x"]
  by (elim insertE emptyE) (simp_all add: alu_R_def op_key7_def op_codes ops_defs)

lemma execute_I_none:
  assumes "optype (c_decoded c) = I" and "funct7 (c_decoded c) = 0"
    and "opcode (c_decoded c) = 0x03 \<and> find (\<lambda>f. l_funct f = funct3 (c_decoded c)) l_ops = None
      \<or> opcode (c_decoded c) = 0x67 \<and> funct3 (c_decoded c) \<noteq> 0"
  shows "execute c = Inl Assert_Failed"
  using assms f3_cases [of "funct3 (c_decoded c)"]
  by (elim insertE emptyE; elim disjE conjE)
    (simp_all add: execute_def execute_I_def Let_def op_key7_def op_codes ops_defs)

lemma execute_S_none:
  assumes "optype (c_decoded c) = S" and "opcode (c_decoded c) = 0x23"
    and "find (\<lambda>f. s_funct f = funct3 (c_decoded c)) s_ops = None"
  shows "execute c = Inl Assert_Failed"
  using assms f3_cases [of "funct3 (c_decoded c)"]
  by (elim insertE emptyE) (simp_all add: execute_def execute_S_def Let_def op_key_def op_codes ops_defs)

lemma branch_alu_none:
  assumes "opcode x = 0x63" and "find (\<lambda>f. b_funct f = funct3 x) b_ops = None"
  shows "branch_alu (op_key x) a b = None"
  using assms f3_cases [of "funct3 x"]
  by (elim insertE emptyE) (simp_all add: branch_alu_def op_key_def op_codes ops_defs)

lemma word_runs:
  assumes st: "c_state c = DECODE" and w: "outcome (c_instruction c) = Runs i"
  shows "\<exists>x a. core_cycles j 2 c
      = Inr (c\<lparr>c_decoded := x, c_aluOut := a, c_cycle := c_cycle c + 2, c_state := MEMORY\<rparr>)
    \<and> carries x a (action_of i (c_pc c) (REG_R c))"
proof -
  obtain x where x: "decode c = Inr (c\<lparr>c_decoded := x\<rparr>)" "runs_as i (REG_R c) x" "no_effects x"
    using decode_runs [OF w] by blast
  let ?c1 = "c\<lparr>c_decoded := x, c_cycle := c_cycle c + 1, c_state := EXECUTE\<rparr>"
  obtain y a where "execute ?c1 = Inr (?c1\<lparr>c_decoded := y, c_aluOut := a\<rparr>)"
    "carries y a (action_of i (c_pc c) (REG_R c))"
    using execute_action [of i ?c1] x(2,3) runs_not_Ecall [OF w] by auto
  then show ?thesis
    by (intro exI [of _ y] exI [of _ a]) (simp add: decode_execute(1) [OF st x(1)] stage_next_def)
qed

lemma word_aborts:
  assumes st: "c_state c = DECODE" and w: "outcome (c_instruction c) = Aborts"
  shows "core_cycles j 2 c = Inl Assert_Failed"
    and "\<exists>x. core_cycles j 1 c = Inr (c\<lparr>c_decoded := x, c_cycle := c_cycle c + 1, c_state := EXECUTE\<rparr>)"
proof -
  let ?w = "c_instruction c"
  consider (I) "?w AND 0x7f = ucast (0x03 :: 8 word)" "find (\<lambda>f. l_funct f = f3_of ?w) l_ops = None"
    | (J) "?w AND 0x7f = ucast (0x67 :: 8 word)" "f3_of ?w \<noteq> 0"
    | (S) "?w AND 0x7f = ucast (0x23 :: 8 word)" "find (\<lambda>f. s_funct f = f3_of ?w) s_ops = None"
    using w unfolding outcome_def Let_def by (auto split: if_splits option.splits)
  then obtain x where x: "decode c = Inr (c\<lparr>c_decoded := x\<rparr>)"
    and ex: "execute (c\<lparr>c_decoded := x, c_cycle := c_cycle c + 1, c_state := EXECUTE\<rparr>) = Inl Assert_Failed"
  proof cases
    case I
    from decode_opcode [OF I(1), of I] I(2) show ?thesis
      by (auto simp: decode_table intro!: that execute_I_none)
  next
    case J
    from decode_opcode [OF J(1), of I] J(2) show ?thesis
      by (auto simp: decode_table intro!: that execute_I_none)
  next
    case S
    from decode_opcode [OF S(1), of S] S(2) show ?thesis
      by (auto simp: decode_table intro!: that execute_S_none)
  qed
  show "core_cycles j 2 c = Inl Assert_Failed" using ex by (simp add: decode_execute(1) [OF st x])
  show "\<exists>x. core_cycles j 1 c = Inr (c\<lparr>c_decoded := x, c_cycle := c_cycle c + 1, c_state := EXECUTE\<rparr>)"
    using decode_execute(2) [OF st x] by blast
qed

lemma word_stale:
  assumes st: "c_state c = DECODE" and w: "outcome (c_instruction c) = Stale h"
  shows "\<exists>x. core_cycles j 2 c = Inr (c\<lparr>c_decoded := x, c_cycle := c_cycle c + 2, c_state := MEMORY\<rparr>)
    \<and> carries x (c_aluOut c) (Branch_To (if c_aluOut c = 1 then Some (c_pc c + 2 * scast h) else None))"
proof -
  let ?w = "c_instruction c"
  have b: "?w AND 0x7f = ucast (0x63 :: 8 word)" "find (\<lambda>f. b_funct f = f3_of ?w) b_ops = None"
    "h = branch_imm ?w"
    using w unfolding outcome_def Let_def by (auto split: if_splits option.splits)
  obtain x where x: "decode c = Inr (c\<lparr>c_decoded := x\<rparr>)" "no_effects x" "optype x = B" "opcode x = 0x63"
    "funct3 x = f3_of ?w" "imm12 x = h"
    using decode_opcode [OF b(1), of B] b(3) by (auto simp: decode_table)
  have "branch_alu (op_key x) a b = None" for a b
    using branch_alu_none [of x] x(4,5) b(2) by simp
  then show ?thesis
    using x by (intro exI [of _ "x\<lparr>jumpTarget := c_pc c + 2 * scast h, isJump := c_aluOut c = 1\<rparr>"])
      (simp add: decode_execute(1) [OF st x(1)] execute_def execute_B_def Let_def no_effects_def
        sext13_shift stage_next_def)
qed

lemma word_traps:
  assumes st: "c_state c = DECODE" and w: "outcome (c_instruction c) = Traps n k"
  shows "\<exists>x. core_cycles j n c = Inr (trapped (c\<lparr>c_decoded := x, c_cycle := c_cycle c + of_nat n\<rparr>) k)"
    and "untrapped j (n - 1) c" and "n = 1 \<or> n = 2"
proof -
  let ?w = "c_instruction c" and ?c1 = "\<lambda>x. c\<lparr>c_decoded := x, c_cycle := c_cycle c + 1, c_state := EXECUTE\<rparr>"
  consider (U) "?w AND 0x7f \<notin> set (map word_of_nat opcodes)" "n = 1" "k = ILLEGAL_INSTRUCTION"
    | (C) "?w AND 0x7f = ucast (0x73 :: 8 word)" "n = 2" "k = ENV_CALL_UMODE"
    | (R) "?w AND 0x7f = ucast (0x33 :: 8 word)" "find (r_like (f3_of ?w) (f7_of ?w)) r_ops = None" "n = 2"
      "k = ILLEGAL_INSTRUCTION"
    using w unfolding outcome_def Let_def by (auto simp: opcodes_def split: if_splits option.splits)
  then have "(\<exists>x. core_cycles j n c = Inr (trapped (c\<lparr>c_decoded := x, c_cycle := c_cycle c + of_nat n\<rparr>) k))
    \<and> untrapped j (n - 1) c"
  proof cases
    case U
    obtain x where "decode c = Inr (trapped (c\<lparr>c_decoded := x\<rparr>) ILLEGAL_INSTRUCTION)"
      using decode_other decode_type_other [OF U(1)] by auto
    then show ?thesis
      using st U by (auto simp: core_cycle_def stage_next_def trapped_def untrapped_0 intro!: exI [of _ x])
  next
    case C
    obtain x where x: "decode c = Inr (c\<lparr>c_decoded := x\<rparr>)" "optype x = C" "opcode x = 0x73"
      using decode_opcode [OF C(1), of C] by (auto simp: decode_table)
    have "execute (?c1 x) = Inr (trapped (?c1 x) k)"
      using x(2,3) C(3) by (simp add: execute_def execute_C_def op_codes cause_trap_eq)
    then show ?thesis
      using C(2) decode_execute [OF st x(1), of j] st
      by (auto simp: stage_next_def trapped_def untrapped_def le_Suc_eq intro!: exI [of _ x])
  next
    case R
    obtain x where x: "decode c = Inr (c\<lparr>c_decoded := x\<rparr>)" "optype x = R" "opcode x = 0x33"
      "funct3 x = f3_of ?w" "funct7 x = f7_of ?w"
      using decode_opcode [OF R(1), of R] by (auto simp: decode_table)
    have "execute (?c1 x) = Inr (trapped (?c1 (x\<lparr>writeRd := True\<rparr>)) k)"
      using x R(2,4) alu_R_none [OF x(3)] by (simp add: execute_def execute_R_def Let_def cause_trap_eq trapped_def)
    then show ?thesis
      using R(3) decode_execute [OF st x(1), of j] st
      by (auto simp: stage_next_def trapped_def untrapped_def le_Suc_eq intro!: exI [of _ "x\<lparr>writeRd := True\<rparr>"])
  qed
  then show "\<exists>x. core_cycles j n c = Inr (trapped (c\<lparr>c_decoded := x, c_cycle := c_cycle c + of_nat n\<rparr>) k)"
    and "untrapped j (n - 1) c" by blast+
  show "n = 1 \<or> n = 2"
    using w unfolding outcome_def Let_def by (auto split: if_splits option.splits)
qed

text \<open>
  C11. Every instruction word, for any state of the core in its decode stage: a word that runs as
  \<open>i\<close> reaches the memory stage after two cycles with the action of \<open>i\<close>; a word that
  traps does so in the cycle and with the cause that \<open>outcome\<close> names; the third kind ends
  the emulator on an assertion of the execute stage; the last is a branch with a reserved
  condition, which jumps exactly when the value an earlier instruction left in \<open>aluOut\<close> is 1.
  Nothing else of the core changes. So unsupported words are not all refused: \<open>MUL\<close> adds,
  every word with the \<open>SYSTEM\<close> opcode is an environment call, and a load or store of a
  reserved width ends the emulator.
\<close>

theorem word_outcome:
  assumes st: "c_state c = DECODE"
  shows "case outcome (c_instruction c) of
      Runs i \<Rightarrow> \<exists>x a. core_cycles j 2 c
          = Inr (c\<lparr>c_decoded := x, c_aluOut := a, c_cycle := c_cycle c + 2, c_state := MEMORY\<rparr>)
        \<and> carries x a (action_of i (c_pc c) (REG_R c))
    | Traps n k \<Rightarrow> \<exists>x. core_cycles j n c
          = Inr (trapped (c\<lparr>c_decoded := x, c_cycle := c_cycle c + of_nat n\<rparr>) k)
    | Aborts \<Rightarrow> core_cycles j 2 c = Inl Assert_Failed
    | Stale h \<Rightarrow> \<exists>x. core_cycles j 2 c
          = Inr (c\<lparr>c_decoded := x, c_cycle := c_cycle c + 2, c_state := MEMORY\<rparr>)
        \<and> carries x (c_aluOut c) (Branch_To (if c_aluOut c = 1 then Some (c_pc c + 2 * scast h) else None))"
proof (cases "outcome (c_instruction c)")
  case (Runs i)
  then show ?thesis using word_runs [OF st Runs] by simp
next
  case (Traps n k)
  then show ?thesis using word_traps(1) [OF st Traps] by simp
next
  case Aborts
  then show ?thesis using word_aborts(1) [OF st Aborts] by simp
next
  case (Stale h)
  then show ?thesis using word_stale [OF st Stale] by simp
qed

text \<open>\<open>MUL x3, x1, x2\<close>, \<open>FENCE\<close>, \<open>MRET\<close>, \<open>LD x1, 0(x1)\<close> and a branch with condition 2.\<close>

abbreviation decoding :: "u32 \<Rightarrow> core_t" where
  "decoding w \<equiv> prog_core\<lparr>c_state := DECODE, c_instruction := w\<rparr>"

lemma decoding_simps:
  "outcome 0x022081b3 = Runs (Op Add 3 1 2)" "outcome 0x0000000f = Traps 1 ILLEGAL_INSTRUCTION"
  "outcome 0x30200073 = Traps 2 ENV_CALL_UMODE" "outcome 0x0000b083 = Aborts" "outcome 0x00002463 = Stale 4"
  by code_simp+

theorem word_outcome_witness:
  "(\<exists>c'. core_cycles (\<lambda>_. 0) 2 (decoding 0x022081b3) = Inr c' \<and> carries (c_decoded c') (c_aluOut c') (Put 3 0))
   \<and> (\<exists>c'. core_cycles (\<lambda>_. 0) 1 (decoding 0x0000000f) = Inr c' \<and> csr_get (c_csr c') 0x342 = Inr 2)
   \<and> (\<exists>c'. core_cycles (\<lambda>_. 0) 2 (decoding 0x30200073) = Inr c' \<and> csr_get (c_csr c') 0x342 = Inr 8)
   \<and> core_cycles (\<lambda>_. 0) 2 (decoding 0x0000b083) = Inl Assert_Failed
   \<and> (\<exists>c'. core_cycles (\<lambda>_. 0) 2 (decoding 0x00002463) = Inr c' \<and> \<not> isJump (c_decoded c'))"
proof -
  have d: "c_state (decoding w) = DECODE" "c_instruction (decoding w) = w" for w by simp_all
  note w = word_outcome [OF d(1), of "\<lambda>_. 0", unfolded d(2)]
  have "c_aluOut prog_core = 0" by (simp add: prog_core_def zero_core_def)
  then show ?thesis
    using w [of "0x022081b3"] w [of "0x0000000f"] w [of "0x30200073"] w [of "0x0000b083"] w [of "0x00002463"]
    by (auto simp: decoding_simps csr_get_def)
qed

section \<open>The words that get past the execute stage\<close>

lemma trapped_cycle: "\<exists>d. core_cycle i (trapped c k) = Inr d \<and> c_state d = TRAP"
  by (simp add: core_cycle_def trap_enter)

lemma traps_stay:
  assumes st: "c_state c = DECODE" and w: "outcome (c_instruction c) = Traps n k"
  shows "\<not> (\<exists>c'. core_cycles j 2 c = Inr c' \<and> c_state c' = MEMORY)"
proof -
  obtain x where x: "core_cycles j n c = Inr (trapped (c\<lparr>c_decoded := x, c_cycle := c_cycle c + of_nat n\<rparr>) k)"
    using word_traps(1) [OF st w, of j] by blast
  show ?thesis
    using word_traps(3) [OF st w]
  proof
    assume "n = 2"
    then show ?thesis using x by simp
  next
    assume "n = 1"
    then have "core_cycle (j 0) c = Inr (trapped (c\<lparr>c_decoded := x, c_cycle := c_cycle c + 1\<rparr>) k)"
      using x core_cycles_1 [of j c] by simp
    moreover obtain d where "core_cycle (j 1) (trapped (c\<lparr>c_decoded := x, c_cycle := c_cycle c + 1\<rparr>) k) = Inr d"
      "c_state d = TRAP" using trapped_cycle [of "j 1" "c\<lparr>c_decoded := x, c_cycle := c_cycle c + 1\<rparr>" k] by blast
    ultimately show ?thesis by (simp add: core_cycles_2)
  qed
qed

text \<open>
  C12. Exactly these words are executed, in the terms of the manual's encodings: a core gets from
  decoding a word to the memory stage if and only if the word spells an instruction of RV32I
  other than \<open>ECALL\<close> (it is its encoding, up to the lower bits of \<open>funct7\<close> of a
  register instruction and the \<open>funct7\<close> of a shift), or it is a branch with one of the two
  reserved conditions.
\<close>

theorem executed_words:
  assumes st: "c_state c = DECODE"
  shows "(\<exists>c'. core_cycles j 2 c = Inr c' \<and> c_state c' = MEMORY) \<longleftrightarrow>
      (\<exists>i. i \<noteq> Ecall \<and> spells i (c_instruction c))
      \<or> (\<exists>h r2 r1 f3. f3 \<in> {2, 3} \<and> c_instruction c = enc_B h r2 r1 f3 0x63)"
  unfolding outcome_Runs_iff [symmetric] outcome_Stale_iff [symmetric]
proof (cases "outcome (c_instruction c)")
  case (Runs i)
  obtain c' where "core_cycles j 2 c = Inr c'" "c_state c' = MEMORY"
    using word_runs [OF st Runs, of j] by auto
  then show "(\<exists>c'. core_cycles j 2 c = Inr c' \<and> c_state c' = MEMORY) \<longleftrightarrow>
      (\<exists>i. outcome (c_instruction c) = Runs i) \<or> (\<exists>h. outcome (c_instruction c) = Stale h)"
    using Runs by simp
next
  case (Traps n k)
  then show "(\<exists>c'. core_cycles j 2 c = Inr c' \<and> c_state c' = MEMORY) \<longleftrightarrow>
      (\<exists>i. outcome (c_instruction c) = Runs i) \<or> (\<exists>h. outcome (c_instruction c) = Stale h)"
    using traps_stay [OF st Traps, of j] by simp
next
  case Aborts
  then show "(\<exists>c'. core_cycles j 2 c = Inr c' \<and> c_state c' = MEMORY) \<longleftrightarrow>
      (\<exists>i. outcome (c_instruction c) = Runs i) \<or> (\<exists>h. outcome (c_instruction c) = Stale h)"
    using word_aborts(1) [OF st Aborts, of j] by simp
next
  case (Stale h)
  obtain c' where "core_cycles j 2 c = Inr c'" "c_state c' = MEMORY"
    using word_stale [OF st Stale, of j] by auto
  then show "(\<exists>c'. core_cycles j 2 c = Inr c' \<and> c_state c' = MEMORY) \<longleftrightarrow>
      (\<exists>i. outcome (c_instruction c) = Runs i) \<or> (\<exists>h. outcome (c_instruction c) = Stale h)"
    using Stale by simp
qed

lemma fence_spells_nothing:
  "\<not> (\<exists>i. i \<noteq> Ecall \<and> spells i 0x0000000f)" "\<not> (\<exists>h r2 r1 f3. f3 \<in> {2, 3} \<and> 0x0000000f = enc_B h r2 r1 f3 0x63)"
  using outcome_Runs_iff [of "0x0000000f"] outcome_Stale_iff [of "0x0000000f"] decoding_simps(2)
  by (metis outcome.distinct(1), metis outcome.distinct(9))

theorem executed_words_witness:
  "(\<exists>c'. core_cycles (\<lambda>_. 0) 2 (decoding 0x022081b3) = Inr c' \<and> c_state c' = MEMORY)
   \<and> \<not> (\<exists>c'. core_cycles (\<lambda>_. 0) 2 (decoding 0x0000000f) = Inr c' \<and> c_state c' = MEMORY)"
proof
  have d: "c_state (decoding w) = DECODE" "c_instruction (decoding w) = w" for w by simp_all
  note w = executed_words [OF d(1), of "\<lambda>_. 0", unfolded d(2)]
  have "spells (Op Add 3 1 2) 0x022081b3" by code_simp
  then show "\<exists>c'. core_cycles (\<lambda>_. 0) 2 (decoding 0x022081b3) = Inr c' \<and> c_state c' = MEMORY"
    unfolding w by (intro disjI1 exI [of _ "Op Add 3 1 2"]) simp
  show "\<not> (\<exists>c'. core_cycles (\<lambda>_. 0) 2 (decoding 0x0000000f) = Inr c' \<and> c_state c' = MEMORY)"
    unfolding w using fence_spells_nothing by (rule_tac notI, elim disjE) (rule notE, assumption, assumption)+
qed

text \<open>Some of these words, in the forms in which assemblers write them.\<close>

lemma system_opcode_is_ecall:
  assumes "c_state c = DECODE" and "c_instruction c AND 0x7f = 0x73"
  shows "\<exists>c'. core_cycles j 2 c = Inr c' \<and> c_state c' = TRAP \<and> c_trap_state c' = ENTER
    \<and> csr_get (c_csr c') mcause = Inr 8 \<and> isa_of c' = isa_of c"
proof -
  obtain x where "core_cycles j 2 c = Inr (trapped (c\<lparr>c_decoded := x, c_cycle := c_cycle c + of_nat 2\<rparr>) ENV_CALL_UMODE)"
    using word_traps(1) [OF assms(1) outcome_system [OF assms(2)], of j] by blast
  then show ?thesis by (intro exI conjI, assumption) (simp_all add: csr_get_def)
qed

lemma reserved_width_aborts:
  assumes st: "c_state c = DECODE"
    and "c_instruction c = enc_I imm r1 f3 d 0x03 \<and> f3 \<in> {3, 6, 7} \<or>
         c_instruction c = enc_S imm r2 r1 f3 0x23 \<and> f3 \<in> {3, 4, 5, 6, 7}"
  shows "core_cycles j 2 c = Inl Assert_Failed"
proof (rule word_aborts(1) [OF st])
  show "outcome (c_instruction c) = Aborts"
    using assms(2) by (elim disjE conjE) (simp_all only: outcome_reserved_width)
qed

lemma funct7_low_bits_ignored:
  assumes st: "c_state c = DECODE"
    and w: "c_instruction c = enc_R f7 r2 r1 (fst (r_funct f)) d 0x33"
    and f7: "drop_bit 5 f7 = drop_bit 5 (snd (r_funct f))"
  shows "\<exists>c'. core_cycles j 2 c = Inr c' \<and> c_state c' = MEMORY \<and>
    carries (c_decoded c') (c_aluOut c') (action_of (Op f d r1 r2) (c_pc c) (REG_R c))"
proof -
  have "outcome (c_instruction c) = Runs (Op f d r1 r2)" unfolding w by (rule outcome_funct7 [OF f7])
  from word_runs [OF st this, of j] obtain x a where
    "core_cycles j 2 c = Inr (c\<lparr>c_decoded := x, c_aluOut := a, c_cycle := c_cycle c + 2, c_state := MEMORY\<rparr>)"
    "carries x a (action_of (Op f d r1 r2) (c_pc c) (REG_R c))" by blast
  then show ?thesis by (simp del: action_of.simps)
qed

lemma reserved_branch_uses_stale_alu:
  assumes st: "c_state c = DECODE" and w: "c_instruction c = enc_B h r2 r1 f3 0x63"
    and f3: "f3 \<in> {2, 3}"
  shows "\<exists>c'. core_cycles j 2 c = Inr c' \<and> c_state c' = MEMORY \<and>
    carries (c_decoded c') (c_aluOut c')
      (Branch_To (if c_aluOut c = 1 then Some (c_pc c + 2 * scast h) else None))"
  using word_stale [OF st, of h j] outcome_reserved_condition [OF f3] w by auto

section \<open>From the fetch on\<close>

text \<open>
  A core that fetches a word that traps: \<open>n\<close> cycles pass, the next one enters the trap and
  leaves registers, program counter and memory as they were. Before a word that aborts two
  cycles pass.
\<close>

lemma pipeline_traps:
  assumes wf: "core_wf c" and st: "c_state c = FETCH"
    and coh: "coherent c (c_pc c)" and fe: "fetchable c"
    and instr: "outcome (mem_word (imem (isa_of c)) (c_pc c) 4) = Traps n k"
  shows "\<exists>c1 c2. core_cycles j n c = Inr c1 \<and> untrapped j n c \<and> core_cycle (j n) c1 = Inr c2
    \<and> c_state c2 = TRAP \<and> c_trap_state c2 = ENTER \<and> csr_get (c_csr c2) mcause = Inr (ucast (cause_code k))
    \<and> in_flight c c2 \<and> (n = 1 \<or> n = 2)"
proof -
  obtain c1 where c1: "core_cycle (j 0) c = Inr c1" "in_flight c c1" "c_state c1 = DECODE"
    "outcome (c_instruction c1) = Traps n k"
    using fetch_stage [OF wf st coh fe, of "j 0"] instr by auto
  let ?j = "\<lambda>i. j (Suc i)"
  note w = word_traps(1,2) [OF c1(3,4), of ?j] word_traps(3) [OF c1(3,4)]
  obtain m where n: "n = Suc m" using w(3) by (cases n) auto
  have "untrapped j (Suc m) c" using untrapped_Suc [where n = m and j = j, OF c1(1)] w(2) n st by simp
  moreover from this obtain d where d: "core_cycles j (Suc m) c = Inr d"
    unfolding untrapped_def by blast
  moreover obtain x where "core_cycles ?j n c1 = Inr (trapped (c1\<lparr>c_decoded := x, c_cycle := c_cycle c1 + of_nat n\<rparr>) k)"
    using w(1) by blast
  then have "core_cycles j (n + 1) c = Inr (trapped (c1\<lparr>c_decoded := x, c_cycle := c_cycle c1 + of_nat n\<rparr>) k)"
    using c1(1) by simp
  then have "core_cycle (j n) d = Inr (trapped (c1\<lparr>c_decoded := x, c_cycle := c_cycle c1 + of_nat n\<rparr>) k)"
    unfolding core_cycles_add using d n core_cycles_1 [of "\<lambda>k. j (n + k)" d] by (simp del: core_cycles.simps)
  ultimately show ?thesis
    using c1(2) w(3) n by (auto simp: in_flight_def csr_get_def)
qed

lemma pipeline_aborts:
  assumes wf: "core_wf c" and st: "c_state c = FETCH"
    and coh: "coherent c (c_pc c)" and fe: "fetchable c"
    and instr: "outcome (mem_word (imem (isa_of c)) (c_pc c) 4) = Aborts"
  shows "\<exists>c2. core_cycles j 2 c = Inr c2 \<and> untrapped j 2 c \<and> core_cycle (j 2) c2 = Inl Assert_Failed"
proof -
  obtain c1 where c1: "core_cycle (j 0) c = Inr c1" "in_flight c c1" "c_state c1 = DECODE"
    "outcome (c_instruction c1) = Aborts"
    using fetch_stage [OF wf st coh fe, of "j 0"] instr by auto
  obtain c2 where c2: "core_cycle (j 1) c1 = Inr c2" "c_state c2 = EXECUTE"
    using word_aborts(2) [OF c1(3,4), of "\<lambda>i. j (Suc i)"] unfolding core_cycles_1 by auto
  have "core_cycle (j 2) c2 = Inl Assert_Failed"
    using word_aborts(1) [OF c1(3,4), of "\<lambda>i. j (Suc i)", unfolded core_cycles_2] c2(1)
    by (simp add: numeral_2_eq_2)
  moreover have "untrapped j (Suc (Suc 0)) c"
    using c1(1,3) c2 st by (intro untrapped_Suc untrapped_0) (assumption | simp)+
  then have "untrapped j 2 c" by (simp only: numeral_2_eq_2)
  ultimately show ?thesis using c1(1) c2(1) by (simp add: core_cycles_2)
qed

end
