(* ===== verification/Protection.thy ===== *)
theory Protection
  imports Word_Spec
begin

text \<open>
  Accesses that the memory does not take. Inside of the RAM a refused load or store is not
  noticed: no trap follows, a load delivers a value that is not in memory, a store is lost.
  Outside of every device the memory stage traps with an access fault. The theorems on whole
  runs (\<open>Run_Spec\<close>, \<open>User_Run\<close>) cover both.
\<close>

section \<open>Refused accesses\<close>

text \<open>
  What is left of an action whose access is refused: a load of a byte delivers an uninitialised
  byte \<open>j\<close>, a wider one delivers 0.
\<close>

fun refused :: "u8 \<Rightarrow> action \<Rightarrow> action" where
  "refused j (Load_At d a w) = Put d (if w = BYTE then ucast j else 0)"
| "refused j (Store_At a w v) = Branch_To None"
| "refused j act = act"

lemma refused_bus:
  assumes "bus_wf b"
  shows "bus_wf (ram_after b ERROR BUS_OK ((ram_mmu b)\<lparr>mmu_state := st\<rparr>))"
    and "bus_byte (ram_after b ERROR BUS_OK ((ram_mmu b)\<lparr>mmu_state := st\<rparr>)) = bus_byte b"
    and "same_memory (ram_mmu (ram_after b ERROR BUS_OK ((ram_mmu b)\<lparr>mmu_state := st\<rparr>))) (ram_mmu b)"
    and "dev_ranges (ram_after b ERROR BUS_OK ((ram_mmu b)\<lparr>mmu_state := st\<rparr>)) = dev_ranges b"
proof -
  have m: "mmu_wf (ram_mmu b)" using assms by (simp add: bus_wf_def)
  then show "same_memory (ram_mmu (ram_after b ERROR BUS_OK ((ram_mmu b)\<lparr>mmu_state := st\<rparr>))) (ram_mmu b)"
    by simp
  then show "bus_byte (ram_after b ERROR BUS_OK ((ram_mmu b)\<lparr>mmu_state := st\<rparr>)) = bus_byte b"
    by (rule same_memory_byte)
  show "bus_wf (ram_after b ERROR BUS_OK ((ram_mmu b)\<lparr>mmu_state := st\<rparr>))"
    using m by (simp add: bus_wf_ram_after [OF assms])
qed (simp add: assms)

lemma memory_refused:
  assumes wf: "bus_wf (c_bus c)" and car: "carries (c_decoded c) (c_aluOut c) act"
    and at: "access_at act = Some p" "in_block (ram_mmu (c_bus c)) p 1"
    and no: "\<not> mem_ready (ram_mmu (c_bus c)) act"
  shows "\<exists>a b. memory_access j c = Inr (c\<lparr>c_aluOut := a, c_bus := b\<rparr>) \<and> bus_wf b
    \<and> \<not> bus_ready b \<and> bus_byte b = mem_after (refused j act) (bus_byte (c_bus c)) \<and> same_memory (ram_mmu b) (ram_mmu (c_bus c))
    \<and> (if writeRd (c_decoded c) then Some (rd (c_decoded c), a) else None)
        = result_of (refused j act) (bus_byte (c_bus c)) \<and> dev_ranges b = dev_ranges (c_bus c)"
proof (cases act)
  case (Load_At d q w)
  with at(1) have q: "q = p" by simp
  have "mmu_rd (ram_mmu (c_bus c)) p (width_bytes w) = None" using no Load_At q by simp
  then show ?thesis
    using bus_read_single_ram [OF wf at(2), of j w] refused_bus [OF wf] car Load_At q
    by (auto simp: memory_access_def)
next
  case (Store_At q w v)
  with at(1) have q: "q = p" by simp
  have "mmu_wr (ram_mmu (c_bus c)) p (bytes_of_word (width_bytes w) v) = None" using no Store_At q by simp
  then have "memory_access j c = Inr (c\<lparr>c_bus := ram_after (c_bus c) ERROR BUS_OK
      ((ram_mmu (c_bus c))\<lparr>mmu_state := wr_fault (ram_mmu (c_bus c)) p (width_bytes w)\<rparr>)\<rparr>)"
    using bus_write_single_ram [OF wf at(2), of v w] car Store_At q by (simp add: memory_access_def)
  then show ?thesis
    using refused_bus [OF wf] car Store_At by (intro exI [of _ "c_aluOut c"] exI) (rule conjI, force+)
qed (use at in simp_all)

text \<open>The last two stages after a refused access.\<close>

lemma refused_back:
  assumes wf: "core_wf c" and st: "c_state c = MEMORY" and coh: "coherent c (c_pc c + 4)"
    and car: "carries (c_decoded c) (c_aluOut c) act"
    and at: "access_at act = Some p" "in_block (ram_mmu (c_bus c)) p 1"
    and no: "\<not> mem_ready (ram_mmu (c_bus c)) act"
  shows "\<exists>c4 c5. core_cycle j3 c = Inr c4 \<and> core_cycle j4 c4 = Inr c5 \<and> c_state c4 = WRITEBACK
    \<and> c_state c5 = FETCH \<and> c_cycle c5 = c_cycle c + 2 \<and> core_wf c5 \<and> c_trap_handler c5 = c_trap_handler c
    \<and> isa_of c5 = apply_action (refused j3 act) (isa_of c) \<and> c_pc c5 = c_pc c + 4 \<and> coherent c5 (c_pc c5)
    \<and> same_memory (ram_mmu (c_bus c5)) (ram_mmu (c_bus c)) \<and> \<not> bus_ready (c_bus c5)
    \<and> dev_ranges (c_bus c5) = dev_ranges (c_bus c)"
proof -
  have bwf: "bus_wf (c_bus c)" using wf by (simp add: core_wf_def)
  obtain a b where mem: "memory_access j3 c = Inr (c\<lparr>c_aluOut := a, c_bus := b\<rparr>)" "bus_wf b"
    "bus_byte b = mem_after (refused j3 act) (bus_byte (c_bus c))" "same_memory (ram_mmu b) (ram_mmu (c_bus c))"
    "(if writeRd (c_decoded c) then Some (rd (c_decoded c), a) else None)
      = result_of (refused j3 act) (bus_byte (c_bus c))" "\<not> bus_ready b" "dev_ranges b = dev_ranges (c_bus c)"
    using memory_refused [OF bwf car at no, of j3] by blast
  have none: "target_of (refused j3 act) = None" "target_of act = None" "mem_after (refused j3 act) = id"
    using at(1) by (cases act; simp add: fun_eq_iff)+
  with carries_target [OF car] have "(if isJump (c_decoded c) then Some (jumpTarget (c_decoded c)) else None)
      = target_of (refused j3 act)" by simp
  from pipeline_finish [OF wf st coh mem(1-3,5) this, of j4] obtain c4 c5 where
    c: "core_cycle j3 c = Inr c4" "core_cycle j4 c4 = Inr c5" "c_state c4 = WRITEBACK" "c_state c5 = FETCH"
      "c_cycle c5 = c_cycle c + 2" "isa_of c5 = apply_action (refused j3 act) (isa_of c)" "core_wf c5"
      "c_trap_handler c5 = c_trap_handler c" "c_bus c5 = b"
    and coh5: "same_code (imem (isa_of c5)) (imem (isa_of c)) (c_pc c + 4) \<longrightarrow> coherent c5 (c_pc c5)" by blast
  have "imem (isa_of c5) = imem (isa_of c)" using mem(3) c(9) none(3) by (simp add: isa_of_def)
  then have "coherent c5 (c_pc c5)" using coh5 by (simp add: same_code_def)
  moreover have "ipc (isa_of c5) = c_pc c + 4"
    unfolding c(6) by (simp add: apply_action_def none isa_of_def)
  then have "c_pc c5 = c_pc c + 4" by (simp add: isa_of_def)
  ultimately show ?thesis using c mem(4,6,7) by auto
qed

lemma refused_five:
  assumes wf: "core_wf c" and st: "c_state c = FETCH" and coh: "coherent c (c_pc c)" and fe: "fetchable c"
    and instr: "outcome (mem_word (imem (isa_of c)) (c_pc c) 4) = Runs i"
    and at: "access_at (action_of i (c_pc c) (REG_R c)) = Some p" "in_block (ram_mmu (c_bus c)) p 1"
    and no: "\<not> mem_ready (ram_mmu (c_bus c)) (action_of i (c_pc c) (REG_R c))"
  shows "\<exists>c'. core_cycles j 5 c = Inr c' \<and> untrapped j 5 c \<and> c_state c' = FETCH \<and> core_wf c'
    \<and> c_cycle c' = c_cycle c + 5 \<and> c_trap_handler c' = c_trap_handler c
    \<and> isa_of c' = apply_action (refused (j 3) (action_of i (c_pc c) (REG_R c))) (isa_of c)
    \<and> c_pc c' = c_pc c + 4 \<and> same_memory (ram_mmu (c_bus c')) (ram_mmu (c_bus c)) \<and> coherent c' (c_pc c')
    \<and> \<not> bus_ready (c_bus c') \<and> dev_ranges (c_bus c') = dev_ranges (c_bus c)"
proof -
  let ?act = "action_of i (c_pc c) (REG_R c)"
  obtain c1 c2 c3 where f: "core_cycle (j 0) c = Inr c1" "core_cycle (j 1) c1 = Inr c2"
      "core_cycle (j 2) c2 = Inr c3" "c_state c1 = DECODE" "c_state c2 = EXECUTE" "c_state c3 = MEMORY"
    and fl: "in_flight c c3" and c3: "coherent c3 (c_pc c + 4)" "c_cycle c3 = c_cycle c + 3"
    and car: "carries (c_decoded c3) (c_aluOut c3) ?act"
    using pipeline_front [OF wf st coh fe instr, of "j 0" "j 1" "j 2"] by auto
  note fl = in_flightD [OF fl]
  have m: "mmu_wf (ram_mmu (c_bus c))" using wf by (simp add: core_wf_def bus_wf_def)
  have at3: "in_block (ram_mmu (c_bus c3)) p 1" "\<not> mem_ready (ram_mmu (c_bus c3)) ?act"
    using at(2) no same_memoryD [OF fl(5)] mem_ready_same [OF fl(5) m] by simp_all
  have coh3: "coherent c3 (c_pc c3 + 4)" using c3(1) fl(2) by simp
  from refused_back [OF fl(1) f(6) coh3 car at(1) at3, of "j 3" "j 4"] obtain c4 c5 where
    c: "core_cycle (j 3) c3 = Inr c4" "core_cycle (j 4) c4 = Inr c5" "c_state c4 = WRITEBACK" "c_state c5 = FETCH"
      "c_cycle c5 = c_cycle c3 + 2" "core_wf c5" "c_trap_handler c5 = c_trap_handler c3"
      "isa_of c5 = apply_action (refused (j 3) ?act) (isa_of c3)" "c_pc c5 = c_pc c3 + 4" "coherent c5 (c_pc c5)"
      "same_memory (ram_mmu (c_bus c5)) (ram_mmu (c_bus c3))" "\<not> bus_ready (c_bus c5)"
      "dev_ranges (c_bus c5) = dev_ranges (c_bus c3)" by blast
  have "core_cycles j 5 c = Inr c5" "untrapped j 5 c"
    using five_cycles [OF f(1-3) c(1,2)] f(4-6) c(3,4) st by simp_all
  then show ?thesis
    using c(4-13) c3(2) fl same_memory_trans [OF c(11) fl(5)] by (intro exI [of _ c5]) simp
qed

text \<open>
  C30. Memory protection is silent. Let a well-formed core be about to fetch, its prefetch buffer
  agree with memory, the fetch find its word (the buffer is not empty, or the 32 bytes at the
  program counter can be read), and the word run as a load or store whose address is in the RAM
  but which the memory refuses: the range is not readable or not writable, has never been
  written, or runs off the end. Then the instruction completes in five cycles without a trap.
  A refused store changes no byte and no register; a refused load puts 0 in its register,
  or an uninitialised byte when it loads one byte. The core is about to fetch the next
  instruction. What stays is the error state of the RAM device: on the bus as it is then, a
  transfer of a block to any address of the RAM (the emulator's \<open>read\<close> and \<open>fstat\<close>) ends
  the emulator in an assertion.
\<close>

theorem refused_access_untrapped:
  assumes wf: "core_wf c" and st: "c_state c = FETCH" and coh: "coherent c (c_pc c)" and fe: "fetchable c"
    and instr: "outcome (mem_word (imem (isa_of c)) (c_pc c) 4) = Runs i"
    and at: "access_at (action_of i (c_pc c) (REG_R c)) = Some p" "in_block (ram_mmu (c_bus c)) p 1"
    and no: "\<not> mem_ready (ram_mmu (c_bus c)) (action_of i (c_pc c) (REG_R c))"
  shows "\<exists>c'. core_cycles j 5 c = Inr c' \<and> untrapped j 5 c \<and> c_state c' = FETCH \<and> core_wf c'
    \<and> isa_of c' = apply_action (refused (j 3) (action_of i (c_pc c) (REG_R c))) (isa_of c)
    \<and> c_pc c' = c_pc c + 4 \<and> same_memory (ram_mmu (c_bus c')) (ram_mmu (c_bus c)) \<and> coherent c' (c_pc c')
    \<and> (\<forall>q src count aw. in_block (ram_mmu (c_bus c')) q 1 \<longrightarrow>
        bus_write_multiple (c_bus c') (ucast q) src count aw = Inl Assert_Failed)"
proof -
  obtain c' where c': "core_cycles j 5 c = Inr c'" "untrapped j 5 c" "c_state c' = FETCH" "core_wf c'"
    "isa_of c' = apply_action (refused (j 3) (action_of i (c_pc c) (REG_R c))) (isa_of c)"
    "c_pc c' = c_pc c + 4" "same_memory (ram_mmu (c_bus c')) (ram_mmu (c_bus c))" "coherent c' (c_pc c')"
    "\<not> bus_ready (c_bus c')"
    using refused_five [OF assms, of j] by blast
  have "bus_wf (c_bus c')" using c'(4) by (simp add: core_wf_def)
  then have "bus_write_multiple (c_bus c') (ucast q) src count aw = Inl Assert_Failed"
    if "in_block (ram_mmu (c_bus c')) q 1" for q src count aw
    using that c'(9) by (rule bus_write_multiple_not_ready)
  then show ?thesis using c'(1-8) by blast
qed

text \<open>A store to 0x110 and a load from 0 in memory that can be read but not written.\<close>

definition guarded_mmu :: mmu_t where
  "guarded_mmu = (tiny_mmu 5)\<lparr>mmu_data := [0x23, 0x28, 0x00, 0x10, 0x83, 0x20, 0, 0] @ replicate 56 0\<rparr>"

definition guarded_core :: "u32 \<Rightarrow> core_t" where
  "guarded_core pc = (zero_core (tiny_bus guarded_mmu))\<lparr>c_pc := pc\<rparr>"

lemma guarded_mmu_simps [simp]:
  "mmu_wf guarded_mmu" "mmu_base guarded_mmu = 0x100" "mmu_size guarded_mmu = 64"
  "in_block guarded_mmu a n = in_block (tiny_mmu 5) a n" "allowed guarded_mmu a n p = allowed (tiny_mmu 5) a n p"
  "bus_byte (tiny_bus guarded_mmu) = mmu_byte guarded_mmu"
  by (simp_all add: guarded_mmu_def tiny_mmu_def mmu_wf_def in_block_def allowed_def offset_def bus_byte_def fun_eq_iff)

lemma guarded_mmu_words [simp]:
  "mem_word (mmu_byte guarded_mmu) 0x100 4 = encode (Store Sw 0 0 0x110)"
  "mem_word (mmu_byte guarded_mmu) 0x104 4 = encode (Load Lw 1 0 0)"
  by code_simp+

lemma guarded_mmu_outcomes:
  "outcome (mem_word (mmu_byte guarded_mmu) 0x100 4) = Runs (Store Sw 0 0 0x110)"
  "outcome (mem_word (mmu_byte guarded_mmu) 0x104 4) = Runs (Load Lw 1 0 0)"
  unfolding guarded_mmu_words by (rule outcome_insn, simp)+

lemma guarded_core_simps [simp]:
  "core_wf (guarded_core pc)" "c_state (guarded_core pc) = FETCH" "c_pc (guarded_core pc) = pc"
  "coherent (guarded_core pc) a" "REG_R (guarded_core pc) = (\<lambda>_. 0)" "c_bus (guarded_core pc) = tiny_bus guarded_mmu"
  "imem (isa_of (guarded_core pc)) = mmu_byte guarded_mmu"
  "256 \<le> unat pc \<Longrightarrow> unat pc + 32 \<le> 320 \<Longrightarrow> fetchable (guarded_core pc)"
proof -
  have "unat (r :: reg) < 32" for r using unsigned_less [of r, where 'a = nat] by simp
  then show "REG_R (guarded_core pc) = (\<lambda>_. 0)"
    by (simp add: guarded_core_def zero_core_def REG_R_def fun_eq_iff)
qed (simp_all add: guarded_core_def zero_core_def core_wf_def coherent_def window_def isa_of_def fetchable_def
  mmu_rd_eq perm_allows_def)

lemma guarded_store_refused: "\<not> mem_ready guarded_mmu (action_of (Store Sw 0 0 0x110) 0x100 (\<lambda>_. 0))"
proof -
  have "mmu_wr guarded_mmu 0x110 (bytes_of_word (width_bytes WORD) 0) = None"
    using mmu_wr_eq [of guarded_mmu "bytes_of_word (width_bytes WORD) 0" "0x110"]
    by (simp add: width_bytes_def perm_allows_def)
  then show ?thesis by simp
qed

theorem refused_access_untrapped_witness:
  "\<exists>c'. core_cycles (\<lambda>_. 0) 5 (guarded_core 0x100) = Inr c' \<and> untrapped (\<lambda>_. 0) 5 (guarded_core 0x100)
    \<and> c_pc c' = 0x104"
  using guarded_store_refused guarded_mmu_outcomes(1)
    refused_access_untrapped [of "guarded_core 0x100" "Store Sw 0 0 0x110" "0x110" "\<lambda>_. 0"]
  by (auto simp del: guarded_mmu_words)

section \<open>Addresses outside of every device\<close>

fun access_fault :: "action \<Rightarrow> trap_cause_t" where
  "access_fault (Load_At d a w) = LOAD_ACCESS_FAULT"
| "access_fault act = STORE_ACCESS_FAULT"

lemma find_dev_NoneI: "\<forall>d \<in> set ds. \<not> covers d x \<Longrightarrow> find_dev ds x = None"
  by (induction ds) simp_all

lemma memory_unmapped:
  assumes wf: "core_wf c" and car: "carries (c_decoded c) (c_aluOut c) act"
    and at: "access_at act = Some p" and no: "find_dev (mmio_devices (c_bus c)) (ucast p) = None"
  shows "\<exists>a b. memory_access j c = Inr (trapped (c\<lparr>c_aluOut := a, c_bus := b\<rparr>) (access_fault act))
    \<and> bus_wf b \<and> ram_mmu b = ram_mmu (c_bus c) \<and> (bus_ready (c_bus c) \<longrightarrow> bus_ready b)
    \<and> dev_ranges b = dev_ranges (c_bus c)"
proof -
  let ?b = "(c_bus c)\<lparr>bus_status := BUS_ADDRESS_NOT_FOUND\<rparr>"
  have b: "bus_wf (c_bus c)" "\<not> mutex_held (c_bus c)" using wf by (auto simp: core_wf_def bus_wf_def)
  have off: "(c_bus c)\<lparr>mutex_held := False\<rparr> = c_bus c" using b(2) by (cases "c_bus c") simp
  have "\<exists>a. memory_access j c = Inr (trapped (c\<lparr>c_aluOut := a, c_bus := ?b\<rparr>) (access_fault act))"
  proof (cases act)
    case (Load_At d q w)
    then have "bus_read_single j (c_bus c) (ucast p) w = Inr (0x0badc0de, ?b)"
      using b(2) no at off by (simp add: bus_read_single_def bus_op_defs bus_find_device_def)
    then show ?thesis
      using car Load_At at by (auto simp: memory_access_def cause_trap_eq)
  next
    case (Store_At q w v)
    then have "bus_write_single (c_bus c) (ucast p) v w = Inr ?b"
      using b(2) no at off by (simp add: bus_write_single_def bus_op_defs bus_find_device_def)
    then show ?thesis
      using car Store_At at by (intro exI [of _ "c_aluOut c"]) (auto simp: memory_access_def cause_trap_eq)
  qed (use at in simp_all)
  moreover have "bus_wf ?b" using b(1) by (simp add: bus_wf_def split: list.splits)
  ultimately show ?thesis
    by (elim exE) (rule exI, rule exI [of _ ?b], simp add: bus_ready_def dev_ranges_def)
qed

text \<open>
  A load or store to an address that no device covers traps in the fourth cycle with cause 5
  or 7; the registers, the program counter and the memory are as they were when the
  instruction was fetched.
\<close>

lemma pipeline_unmapped:
  assumes wf: "core_wf c" and st: "c_state c = FETCH" and coh: "coherent c (c_pc c)" and fe: "fetchable c"
    and instr: "outcome (mem_word (imem (isa_of c)) (c_pc c) 4) = Runs i"
    and at: "access_at (action_of i (c_pc c) (REG_R c)) = Some p"
    and no: "find_dev (mmio_devices (c_bus c)) (ucast p) = None"
  shows "\<exists>c3 c4. core_cycles j 3 c = Inr c3 \<and> untrapped j 3 c \<and> core_cycle (j 3) c3 = Inr c4
    \<and> c_state c4 = TRAP \<and> c_trap_state c4 = ENTER
    \<and> csr_get (c_csr c4) mcause
        = Inr (ucast (cause_code (access_fault (action_of i (c_pc c) (REG_R c))))) \<and> in_flight c c4"
proof -
  let ?act = "action_of i (c_pc c) (REG_R c)"
  obtain c1 c2 c3 where f: "core_cycle (j 0) c = Inr c1" "core_cycle (j 1) c1 = Inr c2"
      "core_cycle (j 2) c2 = Inr c3" "c_state c1 = DECODE" "c_state c2 = EXECUTE" "c_state c3 = MEMORY"
    and fl: "in_flight c c3" and car: "carries (c_decoded c3) (c_aluOut c3) ?act"
    using pipeline_front [OF wf st coh fe instr, of "j 0" "j 1" "j 2"] by auto
  have "find_dev (mmio_devices (c_bus c3)) (ucast p) = None"
    unfolding find_dev_ranges [OF in_flightD(8) [OF fl]] by (rule no)
  from memory_unmapped [OF in_flightD(1) [OF fl] car at this, of "j 3"]
  obtain a b where m: "memory_access (j 3) c3 = Inr (trapped (c3\<lparr>c_aluOut := a, c_bus := b\<rparr>) (access_fault ?act))"
    "bus_wf b" "ram_mmu b = ram_mmu (c_bus c3)" "bus_ready (c_bus c3) \<longrightarrow> bus_ready b"
    "dev_ranges b = dev_ranges (c_bus c3)" by blast
  let ?c = "stage_next (trapped (c3\<lparr>c_aluOut := a, c_bus := b\<rparr>) (access_fault ?act)) WRITEBACK"
  have "core_cycle (j 3) c3 = Inr ?c" using f(6) m(1) by (simp add: core_cycle_def)
  moreover have "core_cycles j 3 c = Inr c3" using f(1-3) by (simp add: eval_nat_numeral)
  moreover have "untrapped j (Suc (Suc (Suc 0))) c"
    using f st by (intro untrapped_Suc untrapped_0) (assumption | simp add: eval_nat_numeral)+
  then have "untrapped j 3 c" by (simp only: numeral_3_eq_3)
  moreover have "in_flight c ?c" using fl m(2-5) by (simp add: in_flight_def)
  ultimately show ?thesis
    by - (rule exI [of _ c3], rule exI [of _ ?c], simp add: csr_get_def)
qed

end
