(* ===== verification/Simulation.thy ===== *)
theory Simulation
  imports Main
begin

text \<open>
  Simulation of a machine that makes steps by one that runs for a bounded time for each. The
  interface is used twice: the cycles of a core simulate instructions (\<open>Run_Spec\<close>), and
  the iterations of the thread simulate instructions and system calls (\<open>User_Run\<close>).
\<close>

text \<open>
  \<open>run t c k c'\<close>: started at time \<open>t\<close> from \<open>c\<close>, the machine is at \<open>c'\<close> after
  \<open>k\<close> units of time. Each step costs between \<open>lo\<close> and \<open>hi\<close> of them.
\<close>

locale simulation =
  fixes rel :: "'c \<Rightarrow> 'a \<Rightarrow> bool"
    and step :: "'a \<Rightarrow> 'a \<Rightarrow> bool"
    and run :: "nat \<Rightarrow> 'c \<Rightarrow> nat \<Rightarrow> 'c \<Rightarrow> bool"
    and lo :: nat
    and hi :: nat
  assumes run_0: "rel c a \<Longrightarrow> run t c 0 c"
    and run_add: "\<lbrakk> run t c k d; run (t + k) d l e \<rbrakk> \<Longrightarrow> run t c (k + l) e"
    and step_run: "\<lbrakk> rel c a; step a a' \<rbrakk> \<Longrightarrow> \<exists>c' k. lo \<le> k \<and> k \<le> hi \<and> rel c' a' \<and> run t c k c'"
begin

lemma steps_run:
  assumes "rel c a" and "(step ^^ n) a a'"
  shows "\<exists>c' k. lo * n \<le> k \<and> k \<le> hi * n \<and> rel c' a' \<and> run t c k c'"
  using assms(2)
proof (induction n arbitrary: a')
  case 0
  then show ?case using assms(1) run_0 by (intro exI [of _ c] exI [of _ 0]) simp
next
  case (Suc n)
  from Suc.prems obtain b where b: "(step ^^ n) a b" "step b a'" by auto
  from Suc.IH [OF b(1)] obtain d k where
    d: "lo * n \<le> k" "k \<le> hi * n" "rel d b" "run t c k d" by blast
  from step_run [OF d(3) b(2)] obtain c' l where
    c': "lo \<le> l" "l \<le> hi" "rel c' a'" "run (t + k) d l c'" by blast
  have "run t c (k + l) c'" by (rule run_add [OF d(4) c'(4)])
  then show ?case using d(1,2) c'(1-3) by (intro exI [of _ c'] exI [of _ "k + l"]) simp
qed

text \<open>A machine with an infinite run keeps the other one busy for any length of time.\<close>

lemma runs_on:
  assumes "rel c a" and "\<forall>n. \<exists>a'. (step ^^ n) a a'" and "0 < lo"
  shows "\<exists>c' k. n \<le> k \<and> run t c k c'"
proof -
  obtain a' where "(step ^^ n) a a'" using assms(2) by blast
  from steps_run [OF assms(1) this] obtain c' k where "lo * n \<le> k" "run t c k c'" by blast
  moreover have "n \<le> lo * n" using assms(3) by simp
  ultimately show ?thesis using le_trans by blast
qed

end

end
