(* ===== verification/Run_Spec.thy ===== *)
theory Run_Spec
  imports Protection Simulation
begin

text \<open>
  Whole runs. \<open>mstep\<close> is one step of a machine without a pipeline, over a program
  counter, registers and the memory with its permissions, \<open>rstep\<close> one whose load or store
  the memory refuses; the pipeline simulates both, five cycles a step, for as long as they run.
\<close>

section \<open>The machine without a pipeline\<close>

type_synonym mach = "u32 \<times> (reg \<Rightarrow> u32) \<times> mmu_t"

text \<open>
  A step needs a word that runs at the program counter, 32 readable bytes there, memory that
  allows the access, and must not overwrite the words that may have been fetched ahead.
\<close>

inductive mstep :: "mach \<Rightarrow> mach \<Rightarrow> bool" where
  step: "\<lbrakk> outcome (mem_word (mmu_byte m) pc 4) = Runs i; mmu_rd m pc 32 \<noteq> None;
    act = action_of i pc r; mem_ready m act; m' = mmu_after act m;
    s = emu_step i \<lparr>ipc = pc, ireg = r, imem = mmu_byte m\<rparr>;
    same_code (mmu_byte m') (mmu_byte m) (pc + 4) \<rbrakk>
    \<Longrightarrow> mstep (pc, r, m) (ipc s, ireg s, m')"

inductive_cases mstepE: "mstep (pc, r, m) s'"
inductive_simps mstep_iff: "mstep (pc, r, m) s'"

definition simulates :: "core_t \<Rightarrow> mach \<Rightarrow> bool" where
  "simulates c s \<longleftrightarrow> (case s of (pc, r, m) \<Rightarrow>
     core_wf c \<and> c_state c = FETCH \<and> c_pc c = pc \<and> REG_R c = r \<and> coherent c pc \<and>
     same_memory (ram_mmu (c_bus c)) m)"

lemma simulates_at:
  assumes "simulates c (pc, r, m)" and "mmu_rd m pc 32 \<noteq> None"
  shows "core_wf c" "c_state c = FETCH" "coherent c (c_pc c)" "fetchable c" "mmu_wf m"
    "isa_of c = \<lparr>ipc = pc, ireg = r, imem = mmu_byte m\<rparr>" "same_memory (ram_mmu (c_bus c)) m"
    "c_pc c = pc" "REG_R c = r"
proof -
  have c: "core_wf c" "c_pc c = pc" "REG_R c = r" "same_memory (ram_mmu (c_bus c)) m"
    using assms(1) by (auto simp: simulates_def)
  then show "core_wf c" "c_pc c = pc" "REG_R c = r" "same_memory (ram_mmu (c_bus c)) m" by blast+
  show "c_state c = FETCH" "coherent c (c_pc c)" using assms(1) by (auto simp: simulates_def)
  show "mmu_wf m" using c(1,4) same_memoryD(1) by (auto simp: core_wf_def bus_wf_def)
  have "bus_byte (c_bus c) = mmu_byte m"
    using c(4) by (intro ext) (simp add: bus_byte_def mmu_byte_def same_memoryD)
  then show "isa_of c = \<lparr>ipc = pc, ireg = r, imem = mmu_byte m\<rparr>" using c(2,3) by (simp add: isa_of_def)
  show "fetchable c" using assms(2) c(2) same_memoryD(3) [OF c(4)] by (simp add: fetchable_def)
qed

text \<open>The steps that go to the memory or jump.\<close>

fun settles_at :: "mach \<Rightarrow> bool" where
  "settles_at (pc, r, m) \<longleftrightarrow> (case outcome (mem_word (mmu_byte m) pc 4) of
     Runs i \<Rightarrow> settles (action_of i pc r) | _ \<Rightarrow> False)"

lemma simulates_step:
  assumes sim: "simulates c s" and step: "mstep s s'"
  shows "\<exists>c'. core_cycles j 5 c = Inr c' \<and> untrapped j 5 c \<and> simulates c' s'
    \<and> c_cycle c' = c_cycle c + 5 \<and> (steady c \<or> settles_at s \<longrightarrow> steady c')
    \<and> c_trap_handler c' = c_trap_handler c \<and> dev_ranges (c_bus c') = dev_ranges (c_bus c)"
proof -
  from step obtain m pc i r where s: "s = (pc, r, m)" and e: "outcome (mem_word (mmu_byte m) pc 4) = Runs i"
    "mmu_rd m pc 32 \<noteq> None" "mem_ready m (action_of i pc r)"
    and s': "s' = (ipc (emu_step i \<lparr>ipc = pc, ireg = r, imem = mmu_byte m\<rparr>),
      ireg (emu_step i \<lparr>ipc = pc, ireg = r, imem = mmu_byte m\<rparr>), mmu_after (action_of i pc r) m)"
    and code: "same_code (mmu_byte (mmu_after (action_of i pc r) m)) (mmu_byte m) (pc + 4)"
    by (auto elim: mstep.cases)
  note c = simulates_at [OF sim [unfolded s] e(2)]
  have "mem_ready (ram_mmu (c_bus c)) (action_of i pc r)"
    using e(3) mem_ready_same [OF c(7,5)] by simp
  then obtain c' where c': "core_cycles j 5 c = Inr c'" "c_state c' = FETCH"
    "c_cycle c' = c_cycle c + 5" "isa_of c' = emu_step i (isa_of c)" "core_wf c'"
    "same_memory (ram_mmu (c_bus c')) (mmu_after (action_of i pc r) (ram_mmu (c_bus c)))"
    "same_code (imem (isa_of c')) (mmu_byte m) (pc + 4) \<longrightarrow> coherent c' (c_pc c')" "untrapped j 5 c"
    "steady c \<or> settles (action_of i pc r) \<longrightarrow> steady c'" "c_trap_handler c' = c_trap_handler c"
    "dev_ranges (c_bus c') = dev_ranges (c_bus c)"
    using pipeline_five [OF c(1-4), of i j] e(1) c(6,8,9) by auto
  have mem: "same_memory (ram_mmu (c_bus c')) (mmu_after (action_of i pc r) m)"
    by (rule same_memory_trans [OF c'(6) mmu_after_same [OF c(7,5)]])
  then have "imem (isa_of c') = mmu_byte (mmu_after (action_of i pc r) m)"
    by (intro ext) (simp add: isa_of_def bus_byte_def mmu_byte_def same_memoryD)
  with code c'(7) have "coherent c' (c_pc c')" by simp
  moreover have "c_pc c' = ipc (isa_of c')" "REG_R c' = ireg (isa_of c')" by (simp_all add: isa_of_def)
  ultimately show ?thesis
    using c' mem c(6) s s' e(1) by (simp add: simulates_def)
qed

section \<open>Steps with a refused access\<close>

text \<open>
  A step whose load or store the memory refuses: a store is lost, a load of a word or a
  half-word gives 0. (A refused load of a byte gives an uninitialised value and is no step.)
\<close>

inductive rstep :: "mach \<Rightarrow> mach \<Rightarrow> bool" where
  refuse: "\<lbrakk> outcome (mem_word (mmu_byte m) pc 4) = Runs i; mmu_rd m pc 32 \<noteq> None;
    act = action_of i pc r; access_at act = Some p; in_block m p 1; \<not> mem_ready m act;
    \<forall>d. act \<noteq> Load_At d p BYTE;
    s = apply_action (refused 0 act) \<lparr>ipc = pc, ireg = r, imem = mmu_byte m\<rparr> \<rbrakk>
    \<Longrightarrow> rstep (pc, r, m) (ipc s, ireg s, m)"

definition pstep :: "mach \<Rightarrow> mach \<Rightarrow> bool" where
  "pstep s s' \<longleftrightarrow> mstep s s' \<or> rstep s s'"

lemma msteps_psteps: "(mstep ^^ n) s s' \<Longrightarrow> (pstep ^^ n) s s'"
  by (rule relpowp_mono [of mstep]) (simp_all add: pstep_def)

lemma refused_indet: "access_at act = Some p \<Longrightarrow> \<forall>d. act \<noteq> Load_At d p BYTE \<Longrightarrow> refused j act = refused 0 act"
  by (cases act) auto

lemma simulates_refused:
  assumes sim: "simulates c s" and step: "rstep s s'"
  shows "\<exists>c'. core_cycles j 5 c = Inr c' \<and> untrapped j 5 c \<and> simulates c' s' \<and> c_cycle c' = c_cycle c + 5
    \<and> c_trap_handler c' = c_trap_handler c \<and> dev_ranges (c_bus c') = dev_ranges (c_bus c)"
  using step
proof cases
  case (refuse m pc i act r p t)
  note c = simulates_at [OF sim [unfolded refuse(1)] refuse(4)]
  have "in_block (ram_mmu (c_bus c)) p 1" "\<not> mem_ready (ram_mmu (c_bus c)) act"
    using refuse(7,8) same_memoryD [OF c(7)] mem_ready_same [OF c(7,5)] by simp_all
  then obtain c' where c': "core_cycles j 5 c = Inr c'" "untrapped j 5 c" "c_state c' = FETCH" "core_wf c'"
    "c_cycle c' = c_cycle c + 5" "isa_of c' = apply_action (refused (j 3) act) (isa_of c)"
    "same_memory (ram_mmu (c_bus c')) (ram_mmu (c_bus c))" "coherent c' (c_pc c')"
    "c_trap_handler c' = c_trap_handler c" "dev_ranges (c_bus c') = dev_ranges (c_bus c)"
    using refused_five [OF c(1-4), of i p j] refuse(3,5,6) c(6,8,9) by auto
  have "same_memory (ram_mmu (c_bus c')) m" by (rule same_memory_trans [OF c'(7) c(7)])
  moreover have "isa_of c' = t"
    unfolding c'(6) refuse(10) c(6) using refused_indet [OF refuse(6,9), of "j 3"] by simp
  moreover have "c_pc c' = ipc (isa_of c')" "REG_R c' = ireg (isa_of c')" by (simp_all add: isa_of_def)
  ultimately show ?thesis
    using c'(1-5,8-10) refuse(2) by (simp add: simulates_def)
qed

lemma simulates_pstep:
  assumes "simulates c s" and "pstep s s'"
  shows "\<exists>c'. core_cycles j 5 c = Inr c' \<and> untrapped j 5 c \<and> simulates c' s' \<and> c_cycle c' = c_cycle c + 5"
  using assms simulates_step [of c s s' j] simulates_refused [of c s s' j] unfolding pstep_def by blast

section \<open>Runs\<close>

lemma untrapped_add:
  assumes "untrapped j m c" and "core_cycles j m c = Inr d" and "untrapped (\<lambda>k. j (m + k)) n d"
  shows "untrapped j (m + n) c"
  unfolding untrapped_def
proof (intro allI impI)
  fix k assume k: "k \<le> m + n"
  show "\<exists>e. core_cycles j k c = Inr e \<and> c_state e \<noteq> TRAP"
  proof (cases "k \<le> m")
    case True
    then show ?thesis using assms(1) by (simp add: untrapped_def)
  next
    case False
    then obtain i where i: "k = m + i" "i \<le> n" using k by (metis le_Suc_ex nat_add_left_cancel_le nat_le_linear)
    then show ?thesis using assms(2,3) by (auto simp: untrapped_def core_cycles_add)
  qed
qed

text \<open>The cycles of a core, as the runs of the simulation.\<close>

definition cycles_to :: "(nat \<Rightarrow> u8) \<Rightarrow> nat \<Rightarrow> core_t \<Rightarrow> nat \<Rightarrow> core_t \<Rightarrow> bool" where
  "cycles_to j t c k c' \<longleftrightarrow> core_cycles (\<lambda>i. j (t + i)) k c = Inr c' \<and> untrapped (\<lambda>i. j (t + i)) k c
     \<and> c_cycle c' = c_cycle c + of_nat k"

interpretation cycle_sim: simulation simulates pstep "cycles_to j" 5 5 for j
proof
  fix c s t
  assume "simulates c s"
  then have "c_state c \<noteq> TRAP" by (cases s) (simp add: simulates_def)
  then show "cycles_to j t c 0 c" by (simp add: cycles_to_def untrapped_0)
next
  fix t c k d l e
  assume "cycles_to j t c k d" and "cycles_to j (t + k) d l e"
  then show "cycles_to j t c (k + l) e"
    using untrapped_add [of "\<lambda>i. j (t + i)" k c d l]
    by (simp add: cycles_to_def core_cycles_add add.assoc)
next
  fix c s s' t
  assume "simulates c s" and "pstep s s'"
  from simulates_pstep [OF this, of "\<lambda>i. j (t + i)"]
  show "\<exists>c' k. 5 \<le> k \<and> k \<le> 5 \<and> simulates c' s' \<and> cycles_to j t c k c'"
    by (auto simp: cycles_to_def intro!: exI [of _ 5])
qed

text \<open>
  C1. Refinement of runs. If a core simulates the machine without a pipeline and that machine
  can make \<open>n\<close> steps, some of which may be loads and stores that the memory refuses, then
  \<open>5 n\<close> cycles of the core complete, without an abort or a trap on the way, in a core that
  simulates the machine after the \<open>n\<close> steps, with the cycle counter advanced by \<open>5 n\<close>.
\<close>

theorem pipeline_run:
  assumes "simulates c s" and "(pstep ^^ n) s s'"
  shows "\<exists>c'. core_cycles j (5 * n) c = Inr c' \<and> untrapped j (5 * n) c \<and> simulates c' s' \<and>
    c_cycle c' = c_cycle c + of_nat (5 * n)"
proof -
  from cycle_sim.steps_run [OF assms, of j 0] obtain c' k where
    "5 * n \<le> k" "k \<le> 5 * n" "simulates c' s'" "cycles_to j 0 c k c'" by blast
  then show ?thesis by (auto simp: cycles_to_def intro!: exI [of _ c'])
qed

text \<open>The program's two instructions as steps of the machine.\<close>

lemma prog_mstep:
  assumes "mem_word (mmu_byte prog_mmu) pc 4 = encode i" and "256 \<le> unat pc" "unat pc + 32 \<le> 320"
    and "action_of i pc r = Put d v" and "i \<noteq> Ecall"
    and "s = emu_step i \<lparr>ipc = pc, ireg = r, imem = mmu_byte prog_mmu\<rparr>"
  shows "mstep (pc, r, prog_mmu) (ipc s, ireg s, prog_mmu)"
proof (rule mstep.step [where act = "Put d v"])
  show "mmu_rd prog_mmu pc 32 \<noteq> None" using assms(2,3) by (simp add: prog_mmu_readable)
  show "outcome (mem_word (mmu_byte prog_mmu) pc 4) = Runs i" unfolding assms(1) by (rule outcome_insn [OF assms(5)])
qed (use assms in \<open>simp_all add: same_code_def\<close>)

lemma prog_msteps:
  "(pstep ^^ 2) (0x100, \<lambda>_. 0, prog_mmu) (0x108, (\<lambda>_. 0)(1 := 5, 2 := 10), prog_mmu)"
proof -
  have "mstep (0x100, \<lambda>_. 0, prog_mmu) (0x104, (\<lambda>_. 0)(1 := 5), prog_mmu)"
    using prog_mstep [OF prog_mmu_words(1), of "\<lambda>_. 0" 1 5] by (simp add: isa_next_def isa_put_def)
  moreover have "mstep (0x104, (\<lambda>_. 0)(1 := 5), prog_mmu) (0x108, (\<lambda>_. 0)(1 := 5, 2 := 10), prog_mmu)"
    using prog_mstep [OF prog_mmu_words(2), of "(\<lambda>_. 0)(1 := 5)" 2 10]
    by (simp add: isa_next_def isa_put_def)
  ultimately have "pstep (0x100, \<lambda>_. 0, prog_mmu) (0x104, (\<lambda>_. 0)(1 := 5), prog_mmu)"
    "pstep (0x104, (\<lambda>_. 0)(1 := 5), prog_mmu) (0x108, (\<lambda>_. 0)(1 := 5, 2 := 10), prog_mmu)"
    unfolding pstep_def by blast+
  then show ?thesis by (auto simp: numeral_2_eq_2)
qed

lemma prog_simulates: "simulates prog_core (0x100, \<lambda>_. 0, prog_mmu)"
  by (simp add: simulates_def)

text \<open>The store of \<open>guarded_core\<close> is a step with a refused access.\<close>

lemma guarded_rstep: "rstep (0x100, \<lambda>_. 0, guarded_mmu) (0x104, \<lambda>_. 0, guarded_mmu)"
proof -
  let ?act = "action_of (Store Sw 0 0 0x110) 0x100 (\<lambda>_. 0)"
  let ?s = "apply_action (refused 0 ?act) \<lparr>ipc = 0x100, ireg = \<lambda>_. 0, imem = mmu_byte guarded_mmu\<rparr>"
  have "mmu_rd guarded_mmu 0x100 32 \<noteq> None" by (simp add: mmu_rd_eq perm_allows_def)
  then have "rstep (0x100, \<lambda>_. 0, guarded_mmu) (ipc ?s, ireg ?s, guarded_mmu)"
    by (rule rstep.refuse [where p = "0x110", OF guarded_mmu_outcomes(1) _ refl _ _ guarded_store_refused _ refl])
      simp_all
  then show ?thesis by (simp add: apply_action_def)
qed

theorem pipeline_run_witness:
  "(\<exists>c'. core_cycles (\<lambda>_. 0) 10 prog_core = Inr c' \<and> c_pc c' = 0x108 \<and> REG_R c' 2 = 10)
   \<and> (\<exists>c'. core_cycles (\<lambda>_. 0) 5 (guarded_core 0x100) = Inr c' \<and> c_pc c' = 0x104)"
proof -
  have "simulates (guarded_core 0x100) (0x100, \<lambda>_. 0, guarded_mmu)" by (simp add: simulates_def)
  moreover have "(pstep ^^ 1) (0x100, \<lambda>_. 0, guarded_mmu) (0x104, \<lambda>_. 0, guarded_mmu)"
    unfolding relpowp_1 pstep_def using guarded_rstep by blast
  ultimately obtain c' where "core_cycles (\<lambda>_. 0) (5 * 1) (guarded_core 0x100) = Inr c'"
    "simulates c' (0x104, \<lambda>_. 0, guarded_mmu)"
    using pipeline_run [of "guarded_core 0x100" _ 1 _ "\<lambda>_. 0"] by blast
  then show ?thesis
    using pipeline_run [OF prog_simulates prog_msteps, of "\<lambda>_. 0"] by (auto simp: simulates_def)
qed

end
