(* ===== verification/Syscall.thy ===== *)
theory Syscall
  imports Run_Spec
begin

text \<open>
  The system calls of \<^verbatim>\<open>src/syscall.c\<close>. The host operating system is a parameter: a record
  of the functions the code calls, over a host state \<open>'h\<close> that the model never looks into.
  A returned C \<open>int\<close> or \<open>ssize_t\<close> is the 32-bit word that the code stores from it. A buffer
  is the list of its bytes, a null pointer the empty one; bytes nobody has set come from
  the heap parameter. The emulator's \<open>mmu\<close> is the memory behind the core's bus.
\<close>

section \<open>The host\<close>

text \<open>
  \<open>os_read\<close> takes the descriptor, whether the buffer pointer is valid, and the size, and
  returns the result and the bytes put at the start of the buffer; \<open>os_fstat\<close> returns the
  bytes of the structure if it filled it.
\<close>

record 'h os_t =
  os_read :: "'h \<Rightarrow> u32 \<Rightarrow> bool \<Rightarrow> u32 \<Rightarrow> u32 \<times> u8 list \<times> 'h"
  os_write :: "'h \<Rightarrow> u32 \<Rightarrow> u8 list \<Rightarrow> u32 \<times> 'h"
  os_fstat :: "'h \<Rightarrow> u32 \<Rightarrow> u32 \<times> u8 list option \<times> 'h"
  os_close :: "'h \<Rightarrow> u32 \<Rightarrow> u32 \<times> 'h"
  os_open :: "'h \<Rightarrow> u8 list \<Rightarrow> u32 \<Rightarrow> u32 \<Rightarrow> u32 \<times> 'h"
  os_lseek :: "'h \<Rightarrow> u32 \<Rightarrow> u64 \<Rightarrow> u32 \<Rightarrow> u64 \<times> 'h"

text \<open>An \<open>off_t\<close> has 64 bits; the unsigned argument of \<open>lseek\<close> is extended with zeros.\<close>

text \<open>\<open>sizeof(struct stat)\<close> on the host, the 144 of the comment in \<open>sys_fstat\<close>.\<close>

definition sizeof_stat :: nat where [simp]: "sizeof_stat = 144"

type_synonym 'h sys_res = "(bool \<times> core_t \<times> 'h) res"

text \<open>\<open>core->trap_regs[10] = v\<close>, the return value of the call.\<close>

definition set_a0 :: "core_t \<Rightarrow> u32 \<Rightarrow> core_t res" where
  "set_a0 core v = rbind (arr_set (c_trap_regs core) 10 v) (\<lambda>rs. Inr (core\<lparr>c_trap_regs := rs\<rparr>))"

section \<open>The calls\<close>

definition sys_read ::
    "'h os_t \<Rightarrow> alloc_env \<Rightarrow> core_t \<Rightarrow> 'h \<Rightarrow> u32 \<Rightarrow> u32 \<Rightarrow> u32 \<Rightarrow> 'h sys_res" where
  "sys_read os h core s arg0 arg1 arg2 =
     (let ok = alloc_ok h 0;
          (r, bs, s') = os_read os s arg0 ok arg2;
          mem = (if ok then blit 0 bs (malloc_bytes h (unat arg2)) else [])
      in
      rbind (set_a0 core r) (\<lambda>c1.
      rbind (bus_write_multiple (c_bus c1) (ucast arg1) mem (ucast arg2) BYTE) (\<lambda>(_, b').
      Inr (True, c1\<lparr>c_bus := b'\<rparr>, s'))))"

text \<open>The 256 bytes of the local \<open>buf\<close> are indeterminate before the bus fills them.\<close>

definition sys_write ::
    "'h os_t \<Rightarrow> alloc_env \<Rightarrow> core_t \<Rightarrow> 'h \<Rightarrow> u32 \<Rightarrow> u32 \<Rightarrow> u32 \<Rightarrow> 'h sys_res" where
  "sys_write os h core s arg0 arg1 arg2 =
     rbind (c_assert (arg0 \<le> 2)) (\<lambda>_.
     rbind (c_assert (arg2 < 256)) (\<lambda>_.
     let buf = malloc_bytes h 256 in
     rbind (bus_read_multiple (c_bus core) (ucast arg1) (ucast arg2) BYTE) (\<lambda>(_, bs, b').
     let buf' = (case bs of None \<Rightarrow> buf | Some x \<Rightarrow> blit 0 x buf);
         (r, s') = os_write os s arg0 (take (unat arg2) buf')
     in
     rbind (set_a0 (core\<lparr>c_bus := b'\<rparr>) r) (\<lambda>c1. Inr (True, c1, s')))))"

definition sys_fstat ::
    "'h os_t \<Rightarrow> alloc_env \<Rightarrow> core_t \<Rightarrow> 'h \<Rightarrow> u32 \<Rightarrow> u32 \<Rightarrow> 'h sys_res" where
  "sys_fstat os h core s arg0 arg1 =
     (let (r, bs, s') = os_fstat os s arg0;
          buf = (case bs of None \<Rightarrow> malloc_bytes h sizeof_stat | Some x \<Rightarrow> x)
      in
      rbind (set_a0 core r) (\<lambda>c1.
      rbind (bus_write_multiple (c_bus c1) (ucast arg1) buf 112 BYTE) (\<lambda>(_, b').
      Inr (True, c1\<lparr>c_bus := b'\<rparr>, s'))))"

definition sys_close :: "'h os_t \<Rightarrow> core_t \<Rightarrow> 'h \<Rightarrow> u32 \<Rightarrow> 'h sys_res" where
  "sys_close os core s arg0 =
     (if arg0 \<ge> 0 \<and> arg0 \<le> 2 then rbind (set_a0 core 0) (\<lambda>c1. Inr (True, c1, s))
      else
        let (r, s') = os_close os s arg0 in
        rbind (set_a0 core r) (\<lambda>c1. Inr (True, c1, s')))"

text \<open>\<open>indet\<close> gives the indeterminate byte of each bus read, as in \<open>bus_read_string\<close>.\<close>

definition sys_open ::
    "'h os_t \<Rightarrow> (nat \<Rightarrow> u8) \<Rightarrow> core_t \<Rightarrow> 'h \<Rightarrow> u32 \<Rightarrow> u32 \<Rightarrow> u32 \<Rightarrow> 'h sys_res" where
  "sys_open os indet core s arg0 arg1 arg2 =
     rbind (bus_read_string indet (c_bus core) (ucast arg0) 256) (\<lambda>(_, buf, b').
     let c1 = core\<lparr>c_bus := b'\<rparr> in
     if bus_status b' \<noteq> BUS_OK then Inr (False, c1, s)
     else
       let (r, s') = os_open os s (takeWhile (\<lambda>c. c \<noteq> 0) buf) arg1 arg2 in
       rbind (set_a0 c1 r) (\<lambda>c2. Inr (True, c2, s')))"

definition sys_lseek :: "'h os_t \<Rightarrow> core_t \<Rightarrow> 'h \<Rightarrow> u32 \<Rightarrow> u32 \<Rightarrow> u32 \<Rightarrow> 'h sys_res" where
  "sys_lseek os core s arg0 arg1 arg2 =
     (let (r, s') = os_lseek os s arg0 (ucast arg1) arg2 in
      rbind (set_a0 core (ucast r)) (\<lambda>c1. Inr (True, c1, s')))"

definition sys_brk :: "core_t \<Rightarrow> 'h \<Rightarrow> u32 \<Rightarrow> 'h sys_res" where
  "sys_brk core s arg0 =
     (let vaddr = arg0;
          requested_increase = (if arg0 = 0 then 0 else ((arg0 - vaddr) + 0x100) AND 0xffffff00)
      in
      if requested_increase > 0 then
        rbind (mmu_allocate (ram_mmu (c_bus core)) (ucast requested_increase)
                 (MPERM_RAW OR MPERM_WRITE)) (\<lambda>(_, m').
        rbind (set_a0 (core\<lparr>c_bus := (c_bus core)\<lparr>ram_mmu := m'\<rparr>\<rparr>) vaddr) (\<lambda>c1.
        Inr (True, c1, s)))
      else
        let vaddr' = ucast (mmu_curr_vaddr (ram_mmu (c_bus core))) in
        rbind (set_a0 core vaddr') (\<lambda>c1. Inr (True, c1, s)))"

section \<open>The dispatcher\<close>

definition SYS_close :: u32 where [simp]: "SYS_close = 57"
definition SYS_lseek :: u32 where [simp]: "SYS_lseek = 62"
definition SYS_read :: u32 where [simp]: "SYS_read = 63"
definition SYS_write :: u32 where [simp]: "SYS_write = 64"
definition SYS_fstat :: u32 where [simp]: "SYS_fstat = 80"
definition SYS_exit :: u32 where [simp]: "SYS_exit = 93"
definition SYS_exit_group :: u32 where [simp]: "SYS_exit_group = 94"
definition SYS_brk :: u32 where [simp]: "SYS_brk = 214"
definition SYS_open :: u32 where [simp]: "SYS_open = 1024"

definition handle_syscall ::
    "'h os_t \<Rightarrow> alloc_env \<Rightarrow> (nat \<Rightarrow> u8) \<Rightarrow> core_t \<Rightarrow> 'h \<Rightarrow> u32
     \<Rightarrow> u32 \<Rightarrow> u32 \<Rightarrow> u32 \<Rightarrow> u32 \<Rightarrow> u32 \<Rightarrow> 'h sys_res" where
  "handle_syscall os h indet core s n arg0 arg1 arg2 arg3 arg4 =
     (if n = SYS_exit then Inr (False, core, s)
      else if n = SYS_exit_group then Inr (False, core, s)
      else if n = SYS_brk then sys_brk core s arg0
      else if n = SYS_read then sys_read os h core s arg0 arg1 arg2
      else if n = SYS_write then sys_write os h core s arg0 arg1 arg2
      else if n = SYS_open then sys_open os indet core s arg0 arg1 arg2
      else if n = SYS_close then sys_close os core s arg0
      else if n = SYS_lseek then sys_lseek os core s arg0 arg1 arg2
      else if n = SYS_fstat then sys_fstat os h core s arg0 arg1
      else Inr (False, core, s))"

end
