(* ===== verification/Syscall_Spec.thy ===== *)
theory Syscall_Spec
  imports Syscall
begin

text \<open>
  What the system calls do to the core, to guest memory and to the host, and what a failing
  copy leaves behind.
\<close>

lemma set_a0_eq:
  "length (c_trap_regs c) = NUMREGS \<Longrightarrow> set_a0 c v = Inr (c\<lparr>c_trap_regs := (c_trap_regs c)[10 := v]\<rparr>)"
  by (simp add: set_a0_def)

lemma set_a0_InrD: "set_a0 c v = Inr c' \<Longrightarrow> c' = c\<lparr>c_trap_regs := (c_trap_regs c)[10 := v]\<rparr>"
  by (auto simp: set_a0_def arr_set_def rbind_Inr_iff split: if_splits)

text \<open>What any call leaves alone.\<close>

definition sys_frame :: "core_t \<Rightarrow> core_t \<Rightarrow> bool" where
  "sys_frame c c' \<longleftrightarrow> (\<exists>rs b. c' = c\<lparr>c_trap_regs := rs, c_bus := b\<rparr> \<and>
     (rs = c_trap_regs c \<or> (\<exists>v. rs = (c_trap_regs c)[10 := v])))"

lemma sys_frameI:
  "sys_frame c c"
  "sys_frame c (c\<lparr>c_trap_regs := (c_trap_regs c)[10 := v]\<rparr>)"
  "sys_frame c (c\<lparr>c_bus := b\<rparr>)"
  "sys_frame c (c\<lparr>c_trap_regs := (c_trap_regs c)[10 := v], c_bus := b\<rparr>)"
  "sys_frame c (c\<lparr>c_bus := b, c_trap_regs := (c_trap_regs c)[10 := v]\<rparr>)"
proof -
  have "c = c\<lparr>c_trap_regs := c_trap_regs c, c_bus := c_bus c\<rparr>" by simp
  then show "sys_frame c c" unfolding sys_frame_def by blast
  have "c\<lparr>c_trap_regs := rs\<rparr> = c\<lparr>c_trap_regs := rs, c_bus := c_bus c\<rparr>" for rs by simp
  then show "sys_frame c (c\<lparr>c_trap_regs := (c_trap_regs c)[10 := v]\<rparr>)"
    unfolding sys_frame_def by blast
  have "c\<lparr>c_bus := b\<rparr> = c\<lparr>c_trap_regs := c_trap_regs c, c_bus := b\<rparr>" by simp
  then show "sys_frame c (c\<lparr>c_bus := b\<rparr>)" unfolding sys_frame_def by blast
  show "sys_frame c (c\<lparr>c_trap_regs := (c_trap_regs c)[10 := v], c_bus := b\<rparr>)"
    unfolding sys_frame_def by blast
  have "c\<lparr>c_bus := b, c_trap_regs := rs\<rparr> = c\<lparr>c_trap_regs := rs, c_bus := b\<rparr>" for rs by simp
  then show "sys_frame c (c\<lparr>c_bus := b, c_trap_regs := (c_trap_regs c)[10 := v]\<rparr>)"
    unfolding sys_frame_def by blast
qed

lemma handle_syscall_frame:
  assumes "handle_syscall os h indet c s n a0 a1 a2 a3 a4 = Inr (ok, c', s')"
  shows "sys_frame c c'"
proof -
  note simps = Let_def rbind_Inr_iff
  have "sys_frame c c'" if "sys_brk c s a0 = Inr (ok, c', s')"
    using that by (auto simp: sys_brk_def simps sys_frameI dest!: set_a0_InrD split: if_splits)
  moreover have "sys_frame c c'" if "sys_read os h c s a0 a1 a2 = Inr (ok, c', s')"
    using that by (auto simp: sys_read_def simps sys_frameI dest!: set_a0_InrD split: prod.splits)
  moreover have "sys_frame c c'" if "sys_write os h c s a0 a1 a2 = Inr (ok, c', s')"
    using that by (auto simp: sys_write_def simps split_def sys_frameI dest!: set_a0_InrD)
  moreover have "sys_frame c c'" if "sys_open os indet c s a0 a1 a2 = Inr (ok, c', s')"
    using that by (auto simp: sys_open_def simps sys_frameI dest!: set_a0_InrD
        split: prod.splits if_splits)
  moreover have "sys_frame c c'" if "sys_close os c s a0 = Inr (ok, c', s')"
    using that by (auto simp: sys_close_def simps sys_frameI dest!: set_a0_InrD
        split: prod.splits if_splits)
  moreover have "sys_frame c c'" if "sys_lseek os c s a0 a1 a2 = Inr (ok, c', s')"
    using that by (auto simp: sys_lseek_def simps sys_frameI dest!: set_a0_InrD split: prod.splits)
  moreover have "sys_frame c c'" if "sys_fstat os h c s a0 a1 = Inr (ok, c', s')"
    using that by (auto simp: sys_fstat_def simps sys_frameI dest!: set_a0_InrD split: prod.splits)
  ultimately show ?thesis
    using assms by (auto simp: handle_syscall_def sys_frameI split: if_splits)
qed

text \<open>
  C25. The frame of the system calls. Whatever the call, its arguments and the host do, a call
  that returns has changed nothing of the core but the saved register \<open>a0\<close> and what is
  behind the bus; program counter, registers, CSRs, trap state and pipeline are untouched.
\<close>

theorem syscall_frame:
  assumes "handle_syscall os h indet c s n a0 a1 a2 a3 a4 = Inr (ok, c', s')"
  shows "sys_frame c c'"
  using assms by (rule handle_syscall_frame)

text \<open>
  A host that reads two bytes and counts the bytes written, and a core over a memory with
  one permission at every byte.
\<close>

definition test_os :: "nat os_t" where
  "test_os = \<lparr>os_read = \<lambda>s fd ok n. (2, [7, 9], s), os_write = \<lambda>s fd bs. (of_nat (length bs), s + length bs),
     os_fstat = \<lambda>s fd. (- 1, None, s), os_close = \<lambda>s fd. (- 1, s), os_open = \<lambda>s path fl mode. (3, s),
     os_lseek = \<lambda>s fd off wh. (off, s)\<rparr>"

definition tiny_core :: "mperm_t \<Rightarrow> core_t" where
  "tiny_core p = zero_core (tiny_bus (tiny_mmu p))"

lemma tiny_core_simps [simp]:
  "core_wf (tiny_core p)" "c_bus (tiny_core p) = tiny_bus (tiny_mmu p)" "c_state (tiny_core p) = FETCH"
  "c_registers (tiny_core p) = replicate 32 0" "c_trap_regs (tiny_core p) = replicate 32 0"
  "c_prefetch_cnt (tiny_core p) = 0" "c_pc (tiny_core p) = 0"
  by (simp_all add: tiny_core_def zero_core_def core_wf_def)

theorem syscall_frame_witness:
  "\<exists>c' s'. handle_syscall test_os plenty (\<lambda>_. 0) (tiny_core 6) 0 SYS_lseek 3 20 0 0 0 = Inr (True, c', s')
    \<and> c_pc c' = 0 \<and> c_registers c' = replicate 32 0"
proof -
  have "handle_syscall test_os plenty (\<lambda>_. 0) (tiny_core 6) 0 SYS_lseek 3 20 0 0 0
      = Inr (True, (tiny_core 6)\<lparr>c_trap_regs := (replicate 32 0)[10 := 20]\<rparr>, 0)"
    by (simp add: handle_syscall_def sys_lseek_def test_os_def set_a0_def)
  from this syscall_frame [OF this] show ?thesis by (simp add: sys_frame_def)
qed

section \<open>Copies between host and guest\<close>

lemma write_multiple_bytes:
  assumes wf: "bus_wf b" and ready: "dev_state (hd (mmio_devices b)) = READY"
    and n: "0 < unat (n :: u32)" "length src = unat n" and wr: "mmu_wr (ram_mmu b) a src = Some m'"
  shows "bus_write_multiple b (ucast a) src (ucast n) BYTE = Inr (ucast n, ram_after b READY BUS_OK m')"
    and "bus_wf (ram_after b READY BUS_OK m')"
    and "bus_byte (ram_after b READY BUS_OK m') = mem_store (bus_byte b) a src"
proof -
  have m: "mmu_wf (ram_mmu b)" using wf by (simp add: bus_wf_def)
  note D = mmu_wr_SomeD [OF m wr]
  have blk: "in_block (ram_mmu b) a 1" using in_block_1 [OF D(2)] n by simp
  have n32: "unat n < 2 ^ 32" by simp
  show "bus_write_multiple b (ucast a) src (ucast n) BYTE = Inr (ucast n, ram_after b READY BUS_OK m')"
    using bus_write_multiple_ram [OF wf blk ready, of "ucast n" BYTE src] n n32 wr
    by (simp add: width_bytes_def)
  show "bus_wf (ram_after b READY BUS_OK m')"
    using mmu_store.invar_wr [OF m wr] D(4) by (simp add: bus_wf_ram_after [OF wf])
  show "bus_byte (ram_after b READY BUS_OK m') = mem_store (bus_byte b) a src"
    using mmu_store.byte_wr [OF m wr] by (intro ext) (simp add: bus_byte_def mem_store_def)
qed







text \<open>
  C38. \<open>brk\<close> ignores the address it is asked for. For a non-zero address it allocates 256
  bytes at the bump pointer when there is room for them (strictly below the end of the block): the
  pointer moves by 256, the permissions of the 256 bytes become write and read-after-write, no
  byte of memory changes. Without room nothing changes. It answers with the requested address
  either way, also below the base or far behind the end of memory. For zero it answers with the
  bump pointer and changes nothing. (For a well-formed core whose memory is not at address 0.)
\<close>

theorem sys_brk_ignores_request:
  fixes c :: core_t
  defines "m \<equiv> ram_mmu (c_bus c)"
  assumes wf: "core_wf c" and base: "mmu_base m \<noteq> 0"
  shows "\<exists>m'. sys_brk c s arg = Inr (True, c\<lparr>c_bus := (c_bus c)\<lparr>ram_mmu := m'\<rparr>,
      c_trap_regs := (c_trap_regs c)[10 := if arg = 0 then ucast (mmu_curr_vaddr m) else arg]\<rparr>, s)
    \<and> (if arg \<noteq> 0 \<and> unat (mmu_curr_vaddr m) + 256 < unat (mmu_base m) + unat (mmu_size m)
       then mmu_curr_vaddr m' = mmu_curr_vaddr m + 256
         \<and> mmu_abs m' = (\<lambda>x. if unat (mmu_curr_vaddr m) \<le> x \<and> x < unat (mmu_curr_vaddr m) + 256
             then Some (mmu_byte m x, MPERM_RAW OR MPERM_WRITE) else mmu_abs m x)
       else m' = m)"
proof -
  have m: "mmu_wf m" using wf by (simp add: core_wf_def bus_wf_def m_def)
  have r: "round16 256 = 256" by (simp add: round16_def)
  have len: "length (c_trap_regs c) = NUMREGS" using wf by (simp add: core_wf_def)
  have same: "(c_bus c)\<lparr>ram_mmu := m\<rparr> = c_bus c" "c\<lparr>c_bus := c_bus c\<rparr> = c" by (simp_all add: m_def)
  have perm: "MPERM_RAW OR MPERM_WRITE = (10 :: mperm_t)" by code_simp
  show ?thesis
  proof (cases "arg = 0")
    case True
    then show ?thesis
      using len by (intro exI [of _ m]) (simp add: sys_brk_def set_a0_eq same, simp add: m_def)
  next
    case False
    note al = mmu_allocate_eq [OF m base, where sz = "0x100" and perm = 10]
    show ?thesis
    proof (cases "unat (mmu_curr_vaddr m) + 256 < unat (mmu_base m) + unat (mmu_size m)")
      case True
      then have "mmu_allocate m 0x100 10 = Inr (ucast (mmu_curr_vaddr m), mmu_allocated m 256 10)"
        using al r by simp
      moreover have "mmu_curr_vaddr (mmu_allocated m 256 10) = mmu_curr_vaddr m + 256"
        using r by (simp add: mmu_allocated_def)
      ultimately show ?thesis
        unfolding perm
        using False True len mmu_abs_allocated [OF m, of 256 10] r
        by (intro exI [of _ "mmu_allocated m 256 10"]) (simp add: sys_brk_def set_a0_eq m_def [symmetric])
    next
      case full: False
      then have "mmu_allocate m 0x100 10 = Inr (0, m)" using al r by simp
      then show ?thesis
        using False full len by (intro exI [of _ m]) (simp add: sys_brk_def set_a0_eq m_def [symmetric])
    qed
  qed
qed

text \<open>A block of 8 kB takes the 256 bytes, one of 64 bytes does not.\<close>

definition boot_mmu :: mmu_t where
  "boot_mmu = \<lparr>mmu_size = 0x2000, mmu_base = 0x10000, mmu_curr_vaddr = 0x10000,
     mmu_data = replicate 0x2000 0, mmu_perm = replicate 0x2000 10, mmu_dirty = replicate 129 False,
     mmu_state = MMU_OK\<rparr>"

lemma boot_mmu_simps [simp]:
  "mmu_wf boot_mmu" "mmu_base boot_mmu = 0x10000" "mmu_size boot_mmu = 0x2000"
  "mmu_curr_vaddr boot_mmu = 0x10000"
  by (simp_all add: boot_mmu_def mmu_wf_def)

theorem sys_brk_ignores_request_witness:
  "(\<exists>m'. sys_brk (zero_core (tiny_bus boot_mmu)) () 0x10 = Inr (True, (zero_core (tiny_bus boot_mmu))\<lparr>
      c_bus := (tiny_bus boot_mmu)\<lparr>ram_mmu := m'\<rparr>, c_trap_regs := (replicate 32 0)[10 := 0x10]\<rparr>, ())
      \<and> mmu_curr_vaddr m' = 0x10100 \<and> mmu_abs m' 0x100ff = Some (0, 10))
   \<and> (\<exists>m'. sys_brk (tiny_core 4) () 0x10 = Inr (True, (tiny_core 4)\<lparr>
      c_bus := (tiny_bus (tiny_mmu 4))\<lparr>ram_mmu := m'\<rparr>, c_trap_regs := (replicate 32 0)[10 := 0x10]\<rparr>, ())
      \<and> m' = tiny_mmu 4)"
proof
  let ?c = "zero_core (tiny_bus boot_mmu)"
  have c: "core_wf ?c" "c_bus ?c = tiny_bus boot_mmu" "c_trap_regs ?c = replicate 32 0"
    by (simp_all add: zero_core_def core_wf_def)
  have "mmu_byte boot_mmu 0x100ff = 0" by (simp add: mmu_byte_def mmu_abs_def boot_mmu_def)
  then show "\<exists>m'. sys_brk ?c () 0x10 = Inr (True, ?c\<lparr>
      c_bus := (tiny_bus boot_mmu)\<lparr>ram_mmu := m'\<rparr>, c_trap_regs := (replicate 32 0)[10 := 0x10]\<rparr>, ())
      \<and> mmu_curr_vaddr m' = 0x10100 \<and> mmu_abs m' 0x100ff = Some (0, 10)"
    using sys_brk_ignores_request [OF c(1), of "()" "0x10"] by (auto simp: c(2,3))
  show "\<exists>m'. sys_brk (tiny_core 4) () 0x10 = Inr (True, (tiny_core 4)\<lparr>
      c_bus := (tiny_bus (tiny_mmu 4))\<lparr>ram_mmu := m'\<rparr>, c_trap_regs := (replicate 32 0)[10 := 0x10]\<rparr>, ())
      \<and> m' = tiny_mmu 4"
    using sys_brk_ignores_request [of "tiny_core 4" "()" "0x10"] by auto
qed

end
