(* ===== verification/Elf.thy ===== *)
theory Elf
  imports Mmu_Spec
begin

text \<open>
  The ELF loader of \<^verbatim>\<open>src/elf32.c\<close> with the headers of \<^verbatim>\<open>src/elf32.h\<close>. The file
  is the list of its bytes; a field of a header is read at its offset in the structure, in
  the order the code reads it, and reading behind the end of the file is
  \<open>Out_Of_Bounds\<close>. The heap is a parameter: whether \<open>malloc\<close> gives the \<open>Elf32\<close>
  object, and the heap \<open>mmu_add_memory\<close> sees in each iteration.
\<close>

section \<open>Headers\<close>

definition rd8 :: "u8 list \<Rightarrow> nat \<Rightarrow> u8 res" where
  "rd8 bs off = arr_get bs off"

definition rd16 :: "u8 list \<Rightarrow> nat \<Rightarrow> u32 res" where
  "rd16 bs off = rbind (mem_get off 2 bs) (\<lambda>x. Inr (word_of_bytes x))"

definition rd32 :: "u8 list \<Rightarrow> nat \<Rightarrow> u32 res" where
  "rd32 bs off = rbind (mem_get off 4 bs) (\<lambda>x. Inr (word_of_bytes x))"

text \<open>Offsets of the fields of \<open>Elf32_Ehdr\<close> and \<open>Elf32_Phdr\<close>, and the latter's size.\<close>

definition EI_CLASS :: nat where [simp]: "EI_CLASS = 4"
definition EI_DATA :: nat where [simp]: "EI_DATA = 5"
definition off_e_entry :: nat where [simp]: "off_e_entry = 24"
definition off_e_phoff :: nat where [simp]: "off_e_phoff = 28"
definition off_e_phnum :: nat where [simp]: "off_e_phnum = 44"

definition off_p_type :: nat where [simp]: "off_p_type = 0"
definition off_p_offset :: nat where [simp]: "off_p_offset = 4"
definition off_p_vaddr :: nat where [simp]: "off_p_vaddr = 8"
definition off_p_paddr :: nat where [simp]: "off_p_paddr = 12"
definition off_p_filesz :: nat where [simp]: "off_p_filesz = 16"
definition off_p_memsz :: nat where [simp]: "off_p_memsz = 20"
definition off_p_flags :: nat where [simp]: "off_p_flags = 24"
definition off_p_align :: nat where [simp]: "off_p_align = 28"
definition sizeof_Phdr :: nat where [simp]: "sizeof_Phdr = 32"

record Elf32 =
  entry :: vaddr_t

section \<open>The loader\<close>

definition phdr_perm :: "u32 \<Rightarrow> mperm_t" where
  "phdr_perm f =
     (if f AND 4 \<noteq> 0 then MPERM_READ else 0) OR
     (if f AND 2 \<noteq> 0 then MPERM_WRITE else 0) OR
     (if f AND 1 \<noteq> 0 then MPERM_EXEC else 0) OR
     (if f AND 4 \<noteq> 0 \<and> f AND 2 = 0 then MPERM_RAW else 0)"

text \<open>
  One iteration over the program headers: \<open>False\<close> with the memory when the loader
  gives up and returns \<open>NULL\<close>.
\<close>

definition elf_segment :: "alloc_env \<Rightarrow> u8 list \<Rightarrow> nat \<Rightarrow> mmu_t \<Rightarrow> (bool \<times> mmu_t) res" where
  "elf_segment h elf ph m =
     rbind (rd32 elf (ph + off_p_type)) (\<lambda>ty.
     if ty = 1 then
       rbind (rd32 elf (ph + off_p_vaddr)) (\<lambda>vaddr.
       rbind (rd32 elf (ph + off_p_memsz)) (\<lambda>memsz.
       rbind (mmu_add_memory h m vaddr (ucast memsz) (MPERM_WRITE OR MPERM_RAW)) (\<lambda>(ok, m1).
       if \<not> ok then Inr (False, m1)
       else
         rbind (rd32 elf (ph + off_p_offset)) (\<lambda>offs.
         rbind (rd32 elf (ph + off_p_filesz)) (\<lambda>filesz.
         rbind (mmu_write_from m1 (drop (unat offs) elf) vaddr (ucast filesz)) (\<lambda>(_, m2).
         rbind (rd32 elf (ph + off_p_flags)) (\<lambda>f.
         rbind (mmu_setperm m2 vaddr (ucast filesz) (phdr_perm f)) (\<lambda>m3.
         Inr (True, m3)))))))))
     else Inr (True, m))"

fun elf_segments ::
    "(nat \<Rightarrow> alloc_env) \<Rightarrow> u8 list \<Rightarrow> nat \<Rightarrow> nat \<Rightarrow> nat \<Rightarrow> mmu_t \<Rightarrow> (bool \<times> mmu_t) res" where
  "elf_segments hs elf phoff i 0 m = Inr (True, m)"
| "elf_segments hs elf phoff i (Suc n) m =
     rbind (elf_segment (hs i) elf (phoff + i * sizeof_Phdr) m) (\<lambda>(ok, m').
     if ok then elf_segments hs elf phoff (Suc i) n m' else Inr (False, m'))"

definition elf_load ::
    "bool \<Rightarrow> (nat \<Rightarrow> alloc_env) \<Rightarrow> u8 list \<Rightarrow> mmu_t \<Rightarrow> (Elf32 option \<times> mmu_t) res" where
  "elf_load malloc_ok hs elf m =
     (if \<not> malloc_ok then Inr (None, m)
      else
        rbind (rd8 elf EI_CLASS) (\<lambda>cls.
        rbind (c_assert (cls = 1)) (\<lambda>_.
        rbind (rd8 elf EI_DATA) (\<lambda>dat.
        rbind (c_assert (dat = 1)) (\<lambda>_.
        rbind (rd32 elf off_e_phoff) (\<lambda>phoff.
        rbind (rd16 elf off_e_phnum) (\<lambda>phnum.
        rbind (elf_segments hs elf (unat phoff) 0 (unat phnum) m) (\<lambda>(ok, m').
        if \<not> ok then Inr (None, m')
        else
          rbind (rd32 elf off_e_entry) (\<lambda>e.
          Inr (Some \<lparr>entry = e\<rparr>, m'))))))))))"

section \<open>The image a file describes\<close>

record phdr_t =
  p_type :: u32
  p_offset :: u32
  p_vaddr :: u32
  p_paddr :: u32
  p_filesz :: u32
  p_memsz :: u32
  p_flags :: u32
  p_align :: u32

definition phdr_at :: "u8 list \<Rightarrow> nat \<Rightarrow> phdr_t" where
  "phdr_at elf ph = \<lparr>p_type = word_of_bytes (segment (ph + off_p_type) 4 elf),
     p_offset = word_of_bytes (segment (ph + off_p_offset) 4 elf),
     p_vaddr = word_of_bytes (segment (ph + off_p_vaddr) 4 elf),
     p_paddr = word_of_bytes (segment (ph + off_p_paddr) 4 elf),
     p_filesz = word_of_bytes (segment (ph + off_p_filesz) 4 elf),
     p_memsz = word_of_bytes (segment (ph + off_p_memsz) 4 elf),
     p_flags = word_of_bytes (segment (ph + off_p_flags) 4 elf),
     p_align = word_of_bytes (segment (ph + off_p_align) 4 elf)\<rparr>"

definition phdrs :: "u8 list \<Rightarrow> phdr_t list" where
  "phdrs elf = map (\<lambda>i. phdr_at elf (unat (word_of_bytes (segment off_e_phoff 4 elf)) + i * sizeof_Phdr))
     [0..<unat (word_of_bytes (segment off_e_phnum 2 elf))]"

text \<open>
  A segment put into the abstract memory: the bytes of the file with the permission of the
  flags, then memory that can be written but not yet read.
\<close>

definition am_segment :: "u8 list \<Rightarrow> phdr_t \<Rightarrow> amem \<Rightarrow> amem" where
  "am_segment elf p M = (if p_type p \<noteq> 1 then M else (\<lambda>x.
     if unat (p_vaddr p) \<le> x \<and> x < unat (p_vaddr p) + unat (p_filesz p)
     then Some (elf ! (unat (p_offset p) + (x - unat (p_vaddr p))), phdr_perm (p_flags p))
     else if unat (p_vaddr p) \<le> x \<and> x < unat (p_vaddr p) + unat (p_memsz p)
     then map_option (\<lambda>(b, _). (b, MPERM_WRITE OR MPERM_RAW)) (M x)
     else M x))"

text \<open>A loadable segment that lies in the memory block and in the file.\<close>

definition seg_ok :: "mmu_t \<Rightarrow> u8 list \<Rightarrow> phdr_t \<Rightarrow> bool" where
  "seg_ok m elf p \<longleftrightarrow> (p_type p = 1 \<longrightarrow>
     in_block m (p_vaddr p) (unat (p_memsz p)) \<and> p_filesz p \<le> p_memsz p \<and>
     unat (p_offset p) + unat (p_filesz p) \<le> length elf)"

text \<open>The abstract memory with another permission, or with other bytes, in a range.\<close>

definition am_perm :: "u32 \<Rightarrow> nat \<Rightarrow> mperm_t \<Rightarrow> amem \<Rightarrow> amem" where
  "am_perm a n p M = (\<lambda>x. if unat a \<le> x \<and> x < unat a + n then map_option (\<lambda>(b, _). (b, p)) (M x) else M x)"

definition am_bytes :: "u32 \<Rightarrow> u8 list \<Rightarrow> amem \<Rightarrow> amem" where
  "am_bytes a bs M = (\<lambda>x. if unat a \<le> x \<and> x < unat a + length bs
     then map_option (\<lambda>(b, p). (bs ! (x - unat a), perm_written p)) (M x) else M x)"

lemma mmu_abs_setperm:
  assumes wf: "mmu_wf m" and blk: "in_block m a n"
  shows "mmu_abs (m\<lparr>mmu_perm := map_range (offset m a) n (\<lambda>_. p) (mmu_perm m)\<rparr>) = am_perm a n p (mmu_abs m)"
proof (rule ext)
  fix x
  show "mmu_abs (m\<lparr>mmu_perm := map_range (offset m a) n (\<lambda>_. p) (mmu_perm m)\<rparr>) x = am_perm a n p (mmu_abs m) x"
  proof (cases "unat (mmu_base m) \<le> x \<and> x < unat (mmu_base m) + unat (mmu_size m)")
    case True
    obtain k where k: "x = unat (mmu_base m) + k" "k < unat (mmu_size m)"
      using True by (metis le_Suc_ex nat_add_left_cancel_less)
    have "offset m a \<le> k \<and> k < offset m a + n \<longleftrightarrow> unat a \<le> x \<and> x < unat a + n"
      using k blk by (auto simp: offset_def in_block_def)
    then show ?thesis
      using True k in_block_offset [OF wf blk] wf
      by (simp add: mmu_abs_def nth_map_range mmu_wf_def am_perm_def)
  next
    case False
    then show ?thesis by (auto simp: mmu_abs_def am_perm_def)
  qed
qed

definition same_range :: "mmu_t \<Rightarrow> mmu_t \<Rightarrow> bool" where
  "same_range m' m \<longleftrightarrow> mmu_base m' = mmu_base m \<and> mmu_size m' = mmu_size m"

text \<open>What the three calls of the loader do to a range inside of the memory.\<close>

lemma load_setperm:
  assumes wf: "mmu_wf m" and blk: "in_block m a (unat (n :: u32))"
  shows "\<exists>m'. mmu_setperm m a (ucast n) p = Inr m' \<and> mmu_wf m' \<and> same_range m' m
    \<and> mmu_abs m' = am_perm a (unat n) p (mmu_abs m) \<and> mmu_curr_vaddr m' = mmu_curr_vaddr m"
proof -
  let ?m = "m\<lparr>mmu_perm := map_range (offset m a) (unat n) (\<lambda>_. p) (mmu_perm m)\<rparr>"
  have "mmu_setperm m a (ucast n) p = Inr ?m"
    using mmu_setperm_in [OF wf, of "ucast n" a p] blk less_trans [OF unat_lt_32 [of n], of "2 ^ 63"] by simp
  moreover have "mmu_wf ?m" using wf in_block_offset(2) [OF wf blk] by (simp add: mmu_wf_def)
  ultimately show ?thesis
    using mmu_abs_setperm [OF wf blk, of p] by (intro exI [of _ ?m]) (simp add: same_range_def)
qed

lemma load_add_memory:
  assumes wf: "mmu_wf m" and blk: "in_block m a (unat (n :: u32))"
  shows "\<exists>m'. mmu_add_memory h m a (ucast n) p = Inr (True, m') \<and> mmu_wf m' \<and> same_range m' m
    \<and> mmu_abs m' = am_perm a (unat n) p (mmu_abs m) \<and> mmu_curr_vaddr m' = ucast a + ucast n
    \<and> (\<forall>k<unat n. mmu_perm m' ! (offset m' a + k) = p)"
proof -
  have n: "unat (ucast n :: u64) < 2 ^ 63" using less_trans [OF unat_lt_32 [of n], of "2 ^ 63"] by simp
  let ?m = "m\<lparr>mmu_curr_vaddr := ucast a + ucast n,
    mmu_perm := map_range (offset m a) (unat n) (\<lambda>_. p) (mmu_perm m)\<rparr>"
  have "unat (ucast a + ucast n :: u64) = unat a + unat n" using unat_vaddr_plus [OF n, of a] by simp
  then have "mmu_wf ?m"
    using wf blk in_block_offset(2) [OF wf blk] by (simp add: mmu_wf_def in_block_def)
  moreover have "mmu_abs ?m = am_perm a (unat n) p (mmu_abs m)"
    unfolding mmu_abs_setperm [OF wf blk, of p, symmetric] by (rule ext) (simp add: mmu_abs_def cong: if_cong)
  ultimately show ?thesis
    using mmu_add_memory_in [OF wf n, of a h p] blk in_block_offset(2) [OF wf blk]
    by (intro exI [of _ ?m]) (simp add: same_range_def offset_def nth_map_range)
qed

lemma load_write:
  assumes wf: "mmu_wf m" and blk: "in_block m a (unat (n :: u32))" and all: "allowed m a (unat n) MPERM_WRITE"
    and src: "unat n \<le> length src"
  shows "\<exists>m'. mmu_write_from m src a (ucast n) = Inr (ucast n, m') \<and> mmu_wf m' \<and> same_range m' m
    \<and> mmu_abs m' = am_bytes a (take (unat n) src) (mmu_abs m) \<and> mmu_curr_vaddr m' = mmu_curr_vaddr m"
proof -
  let ?m = "mmu_written m (take (unat n) src) a"
  have blk': "in_block m a (length (take (unat n) src))" using blk src by simp
  have "mmu_write_from m src a (ucast n) = Inr (ucast n, ?m)"
    using mmu_write_from_eq [OF wf, of "ucast n" src a] less_trans [OF unat_lt_32 [of n], of "2 ^ 63"]
      blk all src by simp
  moreover have "mmu_abs ?m = am_bytes a (take (unat n) src) (mmu_abs m)"
    by (rule ext) (simp add: mmu_abs_written [OF wf blk'] am_bytes_def)
  ultimately show ?thesis
    using mmu_written_wf [OF wf blk'] by (intro exI [of _ ?m]) (simp add: same_range_def mmu_written_def)
qed

lemma elf_segment_skip:
  assumes "ph + sizeof_Phdr \<le> length elf" and "p_type (phdr_at elf ph) \<noteq> 1"
  shows "elf_segment h elf ph m = Inr (True, m)"
  using assms by (simp add: elf_segment_def rd32_def phdr_at_def)

text \<open>The three effects together are the segment.\<close>

lemma am_segment_effects:
  assumes ty: "p_type p = 1" and ms: "unat (p_filesz p) \<le> unat (p_memsz p)"
    and len: "unat (p_offset p) + unat (p_filesz p) \<le> length elf"
    and blk: "\<And>x. unat (p_vaddr p) \<le> x \<Longrightarrow> x < unat (p_vaddr p) + unat (p_memsz p) \<Longrightarrow> M x \<noteq> None"
  shows "am_perm (p_vaddr p) (unat (p_filesz p)) (phdr_perm (p_flags p))
      (am_bytes (p_vaddr p) (take (unat (p_filesz p)) (drop (unat (p_offset p)) elf))
      (am_perm (p_vaddr p) (unat (p_memsz p)) 10 M)) = am_segment elf p M"
proof (rule ext)
  fix x
  let ?a = "unat (p_vaddr p)"
  have "take (unat (p_filesz p)) (drop (unat (p_offset p)) elf) ! (x - ?a) = elf ! (unat (p_offset p) + (x - ?a))"
    if "?a \<le> x" "x < ?a + unat (p_filesz p)"
  proof -
    have "x - ?a < unat (p_filesz p)" using that by simp
    then show ?thesis using len by simp
  qed
  then show "am_perm (p_vaddr p) (unat (p_filesz p)) (phdr_perm (p_flags p))
      (am_bytes (p_vaddr p) (take (unat (p_filesz p)) (drop (unat (p_offset p)) elf))
      (am_perm (p_vaddr p) (unat (p_memsz p)) 10 M)) x = am_segment elf p M x"
    using ty ms len blk [of x] by (auto simp: am_perm_def am_bytes_def am_segment_def)
qed

lemma elf_segment_load:
  assumes wf: "mmu_wf m" and hdr: "ph + sizeof_Phdr \<le> length elf"
    and ty: "p_type (phdr_at elf ph) = 1" and ok: "seg_ok m elf (phdr_at elf ph)"
  shows "\<exists>m'. elf_segment h elf ph m = Inr (True, m') \<and> mmu_wf m' \<and> mmu_base m' = mmu_base m
    \<and> mmu_size m' = mmu_size m \<and> mmu_abs m' = am_segment elf (phdr_at elf ph) (mmu_abs m)
    \<and> mmu_curr_vaddr m' = ucast (p_vaddr (phdr_at elf ph)) + ucast (p_memsz (phdr_at elf ph))"
proof -
  let ?p = "phdr_at elf ph"
  let ?a = "p_vaddr ?p" and ?fs = "unat (p_filesz ?p)" and ?ms = "unat (p_memsz ?p)"
  have s: "in_block m ?a ?ms" "?fs \<le> ?ms" "unat (p_offset ?p) + ?fs \<le> length elf"
    using ok ty by (auto simp: seg_ok_def word_le_nat_alt)
  obtain m1 where m1: "mmu_add_memory h m ?a (ucast (p_memsz ?p)) 10 = Inr (True, m1)" "mmu_wf m1"
    "same_range m1 m" "mmu_abs m1 = am_perm ?a ?ms 10 (mmu_abs m)"
    "mmu_curr_vaddr m1 = ucast ?a + ucast (p_memsz ?p)" "\<forall>k<?ms. mmu_perm m1 ! (offset m1 ?a + k) = 10"
    using load_add_memory [OF wf s(1), of h 10] by blast
  have blk1: "in_block m1 ?a ?fs" using s(1,2) m1(3) by (simp add: in_block_def same_range_def)
  have all: "allowed m1 ?a ?fs MPERM_WRITE"
    using s(2) m1(6) by (auto simp: allowed_def perm_allows_write)
  have src: "?fs \<le> length (drop (unat (p_offset ?p)) elf)" using s(3) by simp
  obtain m2 where m2: "mmu_write_from m1 (drop (unat (p_offset ?p)) elf) ?a (ucast (p_filesz ?p))
      = Inr (ucast (p_filesz ?p), m2)" "mmu_wf m2" "same_range m2 m1"
    "mmu_abs m2 = am_bytes ?a (take ?fs (drop (unat (p_offset ?p)) elf)) (mmu_abs m1)"
    "mmu_curr_vaddr m2 = mmu_curr_vaddr m1"
    using load_write [OF m1(2) blk1 all src] by blast
  have blk2: "in_block m2 ?a ?fs" using blk1 m2(3) by (simp add: in_block_def same_range_def)
  obtain m3 where m3: "mmu_setperm m2 ?a (ucast (p_filesz ?p)) (phdr_perm (p_flags ?p)) = Inr m3"
    "mmu_wf m3" "same_range m3 m2" "mmu_abs m3 = am_perm ?a ?fs (phdr_perm (p_flags ?p)) (mmu_abs m2)"
    "mmu_curr_vaddr m3 = mmu_curr_vaddr m2"
    using load_setperm [OF m2(2) blk2, of "phdr_perm (p_flags ?p)"] by blast
  have "mmu_abs m x \<noteq> None" if "unat ?a \<le> x" "x < unat ?a + ?ms" for x
    using in_block_abs [OF s(1) that] by auto
  then have "mmu_abs m3 = am_segment elf ?p (mmu_abs m)"
    unfolding m3(4) m2(4) m1(4) by (rule am_segment_effects [OF ty s(2,3)])
  moreover have rd: "rd32 elf (ph + k) = Inr (word_of_bytes (segment (ph + k) 4 elf))" if "k + 4 \<le> 32" for k
    using hdr that by (simp add: rd32_def)
  have "elf_segment h elf ph m = Inr (True, m3)"
    using ty m1(1) m2(1) m3(1) unfolding elf_segment_def
    by (simp add: rd rd [of 0, simplified] phdr_at_def)
  ultimately show ?thesis
    using m1(3,5) m2(3,5) m3(2,3,5) by (intro exI [of _ m3]) (simp add: same_range_def)
qed

lemma seg_ok_block:
  "mmu_base m' = mmu_base m \<Longrightarrow> mmu_size m' = mmu_size m \<Longrightarrow> seg_ok m' elf p = seg_ok m elf p"
  by (simp add: seg_ok_def in_block_def)

text \<open>Where the bump pointer stands after a segment: at its end.\<close>

definition seg_end :: "phdr_t \<Rightarrow> u64 \<Rightarrow> u64" where
  "seg_end p cv = (if p_type p = 1 then ucast (p_vaddr p) + ucast (p_memsz p) else cv)"

lemma elf_segments_fold:
  assumes "mmu_wf m" and "phoff + (i + n) * sizeof_Phdr \<le> length elf"
    and "\<forall>k<n. seg_ok m elf (phdr_at elf (phoff + (i + k) * sizeof_Phdr))"
  shows "\<exists>m'. elf_segments hs elf phoff i n m = Inr (True, m') \<and> mmu_wf m'
    \<and> mmu_base m' = mmu_base m \<and> mmu_size m' = mmu_size m
    \<and> mmu_abs m' = fold (am_segment elf)
        (map (\<lambda>k. phdr_at elf (phoff + k * sizeof_Phdr)) [i..<i + n]) (mmu_abs m)
    \<and> mmu_curr_vaddr m' = fold seg_end
        (map (\<lambda>k. phdr_at elf (phoff + k * sizeof_Phdr)) [i..<i + n]) (mmu_curr_vaddr m)"
  using assms
proof (induction n arbitrary: i m)
  case 0
  then show ?case by simp
next
  case (Suc n)
  let ?ph = "phoff + i * sizeof_Phdr"
  have hdr: "?ph + sizeof_Phdr \<le> length elf" using Suc.prems(2) by (simp add: algebra_simps)
  have ok: "seg_ok m elf (phdr_at elf ?ph)" using Suc.prems(3) by force
  obtain m1 where m1: "elf_segment (hs i) elf ?ph m = Inr (True, m1)" "mmu_wf m1"
    "mmu_base m1 = mmu_base m" "mmu_size m1 = mmu_size m"
    "mmu_abs m1 = am_segment elf (phdr_at elf ?ph) (mmu_abs m)"
    "mmu_curr_vaddr m1 = seg_end (phdr_at elf ?ph) (mmu_curr_vaddr m)"
  proof (cases "p_type (phdr_at elf ?ph) = 1")
    case True
    show ?thesis
      using elf_segment_load [OF Suc.prems(1) hdr True ok, of "hs i"] True
      by (elim exE conjE) (rule that, simp_all add: seg_end_def)
  next
    case False
    then show ?thesis
      using elf_segment_skip [OF hdr False] Suc.prems(1) that by (simp add: am_segment_def seg_end_def)
  qed
  have "\<forall>k<n. seg_ok m1 elf (phdr_at elf (phoff + (Suc i + k) * sizeof_Phdr))"
    using Suc.prems(3) seg_ok_block [OF m1(3,4)] by (metis Suc_less_eq add_Suc_shift)
  moreover have "phoff + (Suc i + n) * sizeof_Phdr \<le> length elf" using Suc.prems(2) by simp
  ultimately obtain m' where m': "elf_segments hs elf phoff (Suc i) n m1 = Inr (True, m')"
    "mmu_wf m'" "mmu_base m' = mmu_base m1" "mmu_size m' = mmu_size m1"
    "mmu_abs m' = fold (am_segment elf)
        (map (\<lambda>k. phdr_at elf (phoff + k * sizeof_Phdr)) [Suc i..<Suc i + n]) (mmu_abs m1)"
    "mmu_curr_vaddr m' = fold seg_end
        (map (\<lambda>k. phdr_at elf (phoff + k * sizeof_Phdr)) [Suc i..<Suc i + n]) (mmu_curr_vaddr m1)"
    using Suc.IH [OF m1(2)] by blast
  have "[i..<i + Suc n] = i # [Suc i..<Suc i + n]" by (simp add: upt_conv_Cons)
  then show ?case using m1 m' by (intro exI [of _ m']) simp
qed

lemma elf_load_image:
  assumes wf: "mmu_wf m" and len: "52 \<le> length elf"
    and ident: "elf ! EI_CLASS = 1" "elf ! EI_DATA = 1"
    and hdrs: "unat (word_of_bytes (segment off_e_phoff 4 elf)) + length (phdrs elf) * sizeof_Phdr \<le> length elf"
    and ok: "\<forall>p \<in> set (phdrs elf). seg_ok m elf p"
  shows "\<exists>m'. elf_load True hs elf m
      = Inr (Some \<lparr>entry = word_of_bytes (segment off_e_entry 4 elf)\<rparr>, m')
    \<and> mmu_wf m' \<and> mmu_base m' = mmu_base m \<and> mmu_size m' = mmu_size m \<and> mmu_abs m' = fold (am_segment elf) (phdrs elf) (mmu_abs m)
    \<and> mmu_curr_vaddr m' = fold seg_end (phdrs elf) (mmu_curr_vaddr m)"
proof -
  let ?off = "unat (word_of_bytes (segment off_e_phoff 4 elf))"
  let ?n = "unat (word_of_bytes (segment off_e_phnum 2 elf))"
  have n: "length (phdrs elf) = ?n" by (simp add: phdrs_def)
  have "\<forall>k<?n. seg_ok m elf (phdr_at elf (?off + (0 + k) * sizeof_Phdr))"
    using ok by (simp add: phdrs_def)
  then obtain m' where m': "elf_segments hs elf ?off 0 ?n m = Inr (True, m')" "mmu_wf m'"
    "mmu_base m' = mmu_base m" "mmu_size m' = mmu_size m"
    "mmu_abs m' = fold (am_segment elf) (map (\<lambda>k. phdr_at elf (?off + k * sizeof_Phdr)) [0..<?n]) (mmu_abs m)"
    "mmu_curr_vaddr m' = fold seg_end (map (\<lambda>k. phdr_at elf (?off + k * sizeof_Phdr)) [0..<?n]) (mmu_curr_vaddr m)"
    using elf_segments_fold [OF wf, of ?off 0 ?n elf hs] hdrs n by auto
  have "elf_load True hs elf m
      = Inr (Some \<lparr>entry = word_of_bytes (segment off_e_entry 4 elf)\<rparr>, m')"
    using m'(1) len ident by (simp add: elf_load_def rd8_def rd16_def rd32_def)
  then show ?thesis using m' by (simp add: phdrs_def)
qed

text \<open>
  C16. Refinement of loading. For a 32-bit little-endian file whose program headers lie in the
  file, whose loadable segments lie in the file and in the memory block with a file size of
  at most the memory size, \<open>elf_load\<close> succeeds with the entry point of the header, and the
  memory is the old one with the segments put in one after the other: the bytes of the file
  with the permissions of the flags, and behind them memory that keeps its bytes and may be
  written but not read. The invariant of the memory is kept.
\<close>

theorem elf_load_refines:
  assumes wf: "mmu_wf m" and len: "52 \<le> length elf"
    and ident: "elf ! EI_CLASS = 1" "elf ! EI_DATA = 1"
    and hdrs: "unat (word_of_bytes (segment off_e_phoff 4 elf)) + length (phdrs elf) * sizeof_Phdr \<le> length elf"
    and ok: "\<forall>p \<in> set (phdrs elf). seg_ok m elf p"
  shows "\<exists>m'. elf_load True hs elf m
      = Inr (Some \<lparr>entry = word_of_bytes (segment off_e_entry 4 elf)\<rparr>, m')
    \<and> mmu_wf m' \<and> mmu_abs m' = fold (am_segment elf) (phdrs elf) (mmu_abs m)"
  using elf_load_image [OF assms, of hs] by blast

text \<open>
  A file of 88 bytes: the header with one program header at 52, the entry point 0x100, and
  a readable and executable segment at 0x100 of four bytes in the file and eight in memory.
\<close>

definition tiny_elf :: "u8 list" where
  "tiny_elf = [0x7f, 69, 76, 70, 1, 1] @ replicate 18 0 @ [0, 1, 0, 0] @ [52, 0, 0, 0]
     @ replicate 12 0 @ [1, 0] @ replicate 6 0
     @ [1, 0, 0, 0] @ [84, 0, 0, 0] @ [0, 1, 0, 0] @ [0, 0, 0, 0] @ [4, 0, 0, 0] @ [8, 0, 0, 0] @ [5, 0, 0, 0]
     @ [0, 0, 0, 0] @ [0x93, 0, 0x50, 0]"

definition tiny_phdr :: phdr_t where
  "tiny_phdr = \<lparr>p_type = 1, p_offset = 84, p_vaddr = 0x100, p_paddr = 0, p_filesz = 4, p_memsz = 8,
     p_flags = 5, p_align = 0\<rparr>"

lemma tiny_elf_header:
  "length tiny_elf = 88" "tiny_elf ! 4 = 1" "tiny_elf ! 5 = 1"
  "word_of_bytes (segment 28 4 tiny_elf) = 52"
  "word_of_bytes (segment 24 4 tiny_elf) = 0x100"
  "phdrs tiny_elf = [tiny_phdr]"
  by code_simp+

lemma tiny_seg_ok: "seg_ok (tiny_mmu 10) tiny_elf tiny_phdr"
  by (simp add: seg_ok_def tiny_phdr_def tiny_elf_header)

theorem elf_load_refines_witness:
  "\<exists>m'. elf_load True (\<lambda>_. plenty) tiny_elf (tiny_mmu 10) = Inr (Some \<lparr>entry = 0x100\<rparr>, m')
    \<and> map (mmu_byte m') [0x100..<0x105] = [0x93, 0, 0x50, 0, 0] \<and> mmu_abs m' 0x100 = Some (0x93, 13)"
proof -
  obtain m' where m': "elf_load True (\<lambda>_. plenty) tiny_elf (tiny_mmu 10) = Inr (Some \<lparr>entry = 0x100\<rparr>, m')"
    "mmu_abs m' = am_segment tiny_elf tiny_phdr (mmu_abs (tiny_mmu 10))"
    using elf_load_refines [of "tiny_mmu 10" tiny_elf "\<lambda>_. plenty"] tiny_seg_ok
    by (auto simp: tiny_elf_header)
  have "map (\<lambda>k. tiny_elf ! (84 + k)) [0..<4] = [0x93, 0, 0x50, 0]" "phdr_perm 5 = 13"
    by code_simp+
  then show ?thesis
    using m' by (simp add: mmu_byte_def am_segment_def tiny_phdr_def upt_rec)
qed

text \<open>
  A file that is not 32-bit or not little-endian is not refused with an error value: the
  loader aborts on an assertion.
\<close>

lemma elf_load_wrong_ident_aborts:
  assumes "6 \<le> length elf" and "elf ! EI_CLASS \<noteq> 1 \<or> elf ! EI_DATA \<noteq> 1"
  shows "elf_load True hs elf m = Inl Assert_Failed"
  using assms by (auto simp: elf_load_def rd8_def c_assert_def)

text \<open>
  C39. Zero-initialised data is not readable after loading: a byte behind the file part of the
  last program header's segment (its \<open>.bss\<close>) is denied to a read of any length, although
  the file asks for readable memory there.
\<close>

theorem elf_bss_unreadable:
  assumes wf: "mmu_wf m" and len: "52 \<le> length elf"
    and ident: "elf ! EI_CLASS = 1" "elf ! EI_DATA = 1"
    and hdrs: "unat (word_of_bytes (segment off_e_phoff 4 elf)) + length (phdrs elf) * sizeof_Phdr \<le> length elf"
    and ok: "\<forall>p \<in> set (phdrs elf). seg_ok m elf p"
    and p: "phdrs elf = ps @ [p]" "p_type p = 1"
    and k: "unat (p_filesz p) \<le> k" "k < unat (p_memsz p)"
    and a: "unat a = unat (p_vaddr p) + k" and n: "0 < unat n" "unat n < 2 ^ 63"
  shows "\<exists>e m1 m2. elf_load True hs elf m = Inr (Some e, m1)
    \<and> mmu_read_into m1 a n = Inr (0, None, m2) \<and> mmu_state m2 \<noteq> MMU_OK"
proof -
  obtain e m1 where m1: "elf_load True hs elf m = Inr (Some e, m1)" "mmu_wf m1"
    "mmu_base m1 = mmu_base m" "mmu_size m1 = mmu_size m"
    "mmu_abs m1 = fold (am_segment elf) (ps @ [p]) (mmu_abs m)"
    using elf_load_image [OF wf len ident hdrs ok, of hs] p(1) by auto
  have "in_block m (p_vaddr p) (unat (p_memsz p))" using ok p by (simp add: seg_ok_def)
  then have blk: "in_block m1 (p_vaddr p) (unat (p_memsz p))" using m1(3,4) by (simp add: in_block_def)
  obtain b q where bq: "mmu_abs m1 (unat a) = Some (b, q)"
    using in_block_abs [OF blk, of "unat a"] a k by auto
  have "q = 10"
    using bq m1(5) p(2) a k by (auto simp: am_segment_def split: if_splits)
  then have "\<not> am_allows (mmu_abs m1) MPERM_READ (unat a)"
    using bq by (simp add: am_allows_def perm_allows_read)
  then have "\<not> (in_block m1 a (unat n) \<and> allowed m1 a (unat n) MPERM_READ)"
    using am_allows_range [OF m1(2) n(1), of MPERM_READ a] n(1) by (auto simp: list_all_iff)
  then show ?thesis using m1(1) by (auto simp: mmu_read_into_eq [OF m1(2) n(2)])
qed

theorem elf_bss_unreadable_witness:
  "\<exists>e m1 m2. elf_load True (\<lambda>_. plenty) tiny_elf (tiny_mmu 10) = Inr (Some e, m1)
    \<and> mmu_read_into m1 0x104 4 = Inr (0, None, m2)"
  using elf_bss_unreadable [of "tiny_mmu 10" tiny_elf "[]" tiny_phdr 4 "0x104" 4 "\<lambda>_. plenty"]
    tiny_seg_ok by (auto simp: tiny_elf_header) (auto simp: tiny_phdr_def)

end
