(* ===== verification/Emulator.thy ===== *)
theory Emulator
  imports Syscall_Spec Elf
begin

text \<open>
  The machine of \<^verbatim>\<open>src/emulator.c\<close> and \<^verbatim>\<open>src/main.c\<close>: the devices on the main bus,
  loading a program, the trap handler, the thread that runs a core, and the set-up of a
  core with its stack and arguments.

  Parameters: the file system (contents by name), the heap, the host of the system calls, and
  \<open>video_init\<close>, whose source is not in the repository and which is given the bus with the
  memory. There is one core (\<open>NUMCORES\<close>), and the main thread only waits for the core's
  thread, so the bus object moves from the emulator to the core when the thread starts. The
  \<open>malloc\<close> of \<open>cpu_init\<close> and \<open>pthread_create\<close>, whose results the code does not look at, are
  taken to succeed, and \<open>main\<close> to be called with its two arguments.
\<close>

section \<open>The main bus\<close>

definition ram_device :: mmio_device_t where
  "ram_device =
     \<lparr>base_address = RAM_START, dev_size = RAM_SIZE, dev_perm = READ OR WRITE,
      dev_state = READY, dev_driver = Ram_Driver\<rparr>"

text \<open>The argument is the memory that \<open>ram_device.user\<close> points to.\<close>

definition main_bus :: "mmu_t \<Rightarrow> bus_t" where
  "main_bus m = \<lparr>mmio_devices = [ram_device, csr_mmio_device], mutex_held = False,
     bus_status = BUS_OK, ram_mmu = m\<rparr>"

record emulator_t =
  emu_bus :: bus_t
  emu_elf :: "Elf32 option"

section \<open>Loading\<close>

fun load_words :: "bus_t \<Rightarrow> u32 \<Rightarrow> u32 list \<Rightarrow> nat \<Rightarrow> nat \<Rightarrow> bus_t res" where
  "load_words b base rom i 0 = Inr b"
| "load_words b base rom i (Suc n) =
     rbind (arr_get rom i) (\<lambda>w.
     rbind (bus_write_single b (ucast base + of_nat i * 4) w WORD) (\<lambda>b'.
     load_words b' base rom (Suc i) n))"

definition load_into_ram :: "bus_t \<Rightarrow> u32 \<Rightarrow> u32 list \<Rightarrow> u64 \<Rightarrow> bus_t res" where
  "load_into_ram b base rom size_in_bytes = load_words b base rom 0 (unat (drop_bit 2 size_in_bytes))"

text \<open>
  \<open>fs\<close> gives the bytes of a file that can be opened. The size is stored in 32 bits.
\<close>

definition load_file :: "(string \<Rightarrow> u8 list option) \<Rightarrow> bool \<Rightarrow> string \<Rightarrow> u8 list option res" where
  "load_file fs malloc_ok filename =
     (case fs filename of
        None \<Rightarrow> Inr None
      | Some bytes \<Rightarrow>
          let sz = of_nat (length bytes) :: u32 in
          rbind (c_assert (sz > 0)) (\<lambda>_.
          if \<not> malloc_ok then Inr None
          else Inr (Some (take (unat sz) bytes))))"

text \<open>A memory that \<open>mmu_init\<close> could not allocate is a null pointer that is followed later.\<close>

definition emulator_init ::
    "bool \<Rightarrow> alloc_env \<Rightarrow> (bus_t \<Rightarrow> bool \<times> bus_t) \<Rightarrow> emulator_t option res" where
  "emulator_init malloc_ok h video_init =
     rbind (c_assert malloc_ok) (\<lambda>_.
     rbind (mmu_init h RAM_START (ucast RAM_SIZE)) (\<lambda>mmu.
     case mmu of
       None \<Rightarrow> Inl Null_Deref
     | Some m \<Rightarrow>
         let b = bus_init (main_bus m);
             (ok, b') = video_init b
         in if \<not> ok then Inr None else Inr (Some \<lparr>emu_bus = b', emu_elf = None\<rparr>)))"

definition emulator_load_elf ::
    "(string \<Rightarrow> u8 list option) \<Rightarrow> bool \<Rightarrow> bool \<Rightarrow> (nat \<Rightarrow> alloc_env) \<Rightarrow> emulator_t \<Rightarrow> string
     \<Rightarrow> (bool \<times> emulator_t) res" where
  "emulator_load_elf fs file_ok elf_ok hs emu filename =
     rbind (load_file fs file_ok filename) (\<lambda>file.
     case file of
       None \<Rightarrow> Inr (False, emu)
     | Some bytes \<Rightarrow>
         rbind (elf_load elf_ok hs bytes (ram_mmu (emu_bus emu))) (\<lambda>(elf, m').
         case elf of
           None \<Rightarrow> Inl Null_Deref
         | Some e \<Rightarrow>
             rbind (c_assert (entry e \<noteq> 0)) (\<lambda>_.
             Inr (True, \<lparr>emu_bus = (emu_bus emu)\<lparr>ram_mmu := m'\<rparr>, emu_elf = Some e\<rparr>))))"

section \<open>Traps and the thread of a core\<close>

definition handle_umode_call ::
    "'h os_t \<Rightarrow> alloc_env \<Rightarrow> (nat \<Rightarrow> u8) \<Rightarrow> core_t \<Rightarrow> 'h \<Rightarrow> 'h sys_res" where
  "handle_umode_call os h indet core s =
     rbind (arr_get (c_registers core) 17) (\<lambda>syscall_num.
     rbind (arr_get (c_registers core) 10) (\<lambda>arg0.
     rbind (arr_get (c_registers core) 11) (\<lambda>arg1.
     rbind (arr_get (c_registers core) 12) (\<lambda>arg2.
     rbind (arr_get (c_registers core) 13) (\<lambda>arg3.
     rbind (arr_get (c_registers core) 14) (\<lambda>arg4.
     handle_syscall os h indet core s syscall_num arg0 arg1 arg2 arg3 arg4))))))"

definition trap_handler ::
    "'h os_t \<Rightarrow> alloc_env \<Rightarrow> (nat \<Rightarrow> u8) \<Rightarrow> core_t \<Rightarrow> 'h \<Rightarrow> 'h sys_res" where
  "trap_handler os h indet core s =
     rbind (csr_read_clear32 (c_csr core) mcause 0) (\<lambda>(cause, csr1).
     rbind (csr_read_clear32 csr1 mepc 0) (\<lambda>(trap_pc, csr2).
     let c1 = core\<lparr>c_csr := csr2\<rparr> in
     if cause = cause_code ENV_CALL_UMODE then handle_umode_call os h indet c1 s
     else Inr (False, c1, s)))"

text \<open>
  One iteration of the loop of \<open>cpu_thread\<close>; the flag says whether the loop goes on. The
  report of the speed, which only prints, is left out.
\<close>

definition cpu_thread_step ::
    "'h os_t \<Rightarrow> alloc_env \<Rightarrow> (nat \<Rightarrow> u8) \<Rightarrow> core_t \<Rightarrow> 'h \<Rightarrow> 'h sys_res" where
  "cpu_thread_step os h indet core s =
     rbind (core_cycle (indet 0) core) (\<lambda>c1.
     if c_state c1 = TRAP \<and> c_trap_state c1 = HANDLE then
       (if c_trap_handler c1 then trap_handler os h (\<lambda>k. indet (Suc k)) c1 s
        else Inr (False, c1, s))
     else Inr (True, c1, s))"

text \<open>
  The thread: \<open>None\<close> when \<open>fuel\<close> iterations have not ended it. Iteration \<open>k\<close> has its
  own heap and its own indeterminate bytes.
\<close>

fun cpu_thread ::
    "'h os_t \<Rightarrow> (nat \<Rightarrow> alloc_env) \<Rightarrow> (nat \<Rightarrow> nat \<Rightarrow> u8) \<Rightarrow> nat \<Rightarrow> core_t \<Rightarrow> 'h
     \<Rightarrow> (core_t \<times> 'h) res option" where
  "cpu_thread os hs indet 0 core s = None"
| "cpu_thread os hs indet (Suc fuel) core s =
     (case cpu_thread_step os (hs 0) (indet 0) core s of
        Inl e \<Rightarrow> Some (Inl e)
      | Inr (go, core', s') \<Rightarrow>
          if go then cpu_thread os (\<lambda>k. hs (Suc k)) (\<lambda>k. indet (Suc k)) fuel core' s'
          else Some (Inr (core', s')))"

section \<open>Starting a program\<close>

text \<open>The macro \<open>push(x)\<close> on the bus and the stack pointer.\<close>

definition push :: "bus_t \<Rightarrow> u32 \<Rightarrow> u32 \<Rightarrow> (bus_t \<times> u32) res" where
  "push b x2 x =
     (let sp = x2 - 4 in
      rbind (bus_write_single b (ucast sp) x WORD) (\<lambda>b'. Inr (b', sp)))"

text \<open>A string allocated and copied with its terminating zero.\<close>

definition put_string :: "bus_t \<Rightarrow> u8 list \<Rightarrow> (vaddr_t \<times> bus_t) res" where
  "put_string b str =
     (let n = of_nat (length str) + 1 :: u64 in
      rbind (mmu_allocate (ram_mmu b) n (MPERM_RAW OR MPERM_WRITE)) (\<lambda>(av, m').
      rbind (bus_write_multiple (b\<lparr>ram_mmu := m'\<rparr>) (ucast av) (str @ [0]) n BYTE) (\<lambda>(_, b').
      Inr (av, b'))))"

text \<open>\<open>./program_name\<close>\<close>

definition argv0_bytes :: "u8 list" where
  "argv0_bytes = [46, 47, 112, 114, 111, 103, 114, 97, 109, 95, 110, 97, 109, 101]"

text \<open>The body of the first loop of \<open>emulator_run\<close> up to \<open>core_start\<close>.\<close>

definition boot_core :: "RV32I_cpu_t \<Rightarrow> bus_t \<Rightarrow> Elf32 \<Rightarrow> u32 \<Rightarrow> u8 list \<Rightarrow> core_t res" where
  "boot_core cpu b elf i argv1 =
     rbind (mmu_allocate_raw (ram_mmu b) (ucast STACK_SIZE)) (\<lambda>(stack, m1).
     let stack_top = stack + STACK_SIZE in
     rbind (core_init cpu i (entry elf)) (\<lambda>(core, cpu').
     rbind (arr_set (c_registers core) 1 0x1337c0de) (\<lambda>r1.
     rbind (put_string (b\<lparr>ram_mmu := m1\<rparr>) argv0_bytes) (\<lambda>(av0, b2).
     rbind (put_string b2 argv1) (\<lambda>(av1, b3).
     rbind (push b3 stack_top 0) (\<lambda>(b4, sp4).
     rbind (push b4 sp4 0) (\<lambda>(b5, sp5).
     rbind (push b5 sp5 0) (\<lambda>(b6, sp6).
     rbind (push b6 sp6 av1) (\<lambda>(b7, sp7).
     rbind (push b7 sp7 av0) (\<lambda>(b8, sp8).
     rbind (push b8 sp8 42) (\<lambda>(b9, sp9).
     rbind (arr_set r1 2 sp9) (\<lambda>r2.
     Inr (core\<lparr>c_registers := r2, c_trap_handler := True, c_bus := b9\<rparr>)))))))))))))"

text \<open>
  \<open>core_start\<close> runs the thread on the core, \<open>core_join\<close> waits for it. When no file
  could be loaded, \<open>emu->elf\<close> was never set; following it is \<open>Null_Deref\<close>.
\<close>

definition emulator_run ::
    "'h os_t \<Rightarrow> (nat \<Rightarrow> alloc_env) \<Rightarrow> (nat \<Rightarrow> nat \<Rightarrow> u8) \<Rightarrow> nat \<Rightarrow> emulator_t \<Rightarrow> u8 list \<Rightarrow> 'h
     \<Rightarrow> (core_t \<times> 'h) res option" where
  "emulator_run os hs indet fuel emu argv1 s =
     (case emu_elf emu of
        None \<Rightarrow> Some (Inl Null_Deref)
      | Some e \<Rightarrow>
          (case boot_core (cpu_init (emu_bus emu)) (emu_bus emu) e 0 argv1 of
             Inl err \<Rightarrow> Some (Inl err)
           | Inr core \<Rightarrow> cpu_thread os hs indet fuel core s))"

text \<open>
  When \<open>emulator_init\<close> gives \<open>NULL\<close>, the file is still looked up before the pointer is
  followed. \<open>argv2\<close> has the bytes before the terminating zero.
\<close>

definition main ::
    "'h os_t \<Rightarrow> (string \<Rightarrow> u8 list option) \<Rightarrow> (bus_t \<Rightarrow> bool \<times> bus_t) \<Rightarrow> alloc_env
     \<Rightarrow> (nat \<Rightarrow> alloc_env) \<Rightarrow> (nat \<Rightarrow> nat \<Rightarrow> u8) \<Rightarrow> nat \<Rightarrow> string \<Rightarrow> u8 list \<Rightarrow> 'h
     \<Rightarrow> (core_t \<times> 'h) res option" where
  "main os fs video_init h hs indet fuel argv1 argv2 s =
     (case emulator_init (alloc_ok h 4) h video_init of
        Inl e \<Rightarrow> Some (Inl e)
      | Inr None \<Rightarrow>
          (case load_file fs (alloc_ok h 5) argv1 of
             Inl e \<Rightarrow> Some (Inl e) | Inr _ \<Rightarrow> Some (Inl Null_Deref))
      | Inr (Some emu) \<Rightarrow>
          (case emulator_load_elf fs (alloc_ok h 5) (alloc_ok h 6) hs emu argv1 of
             Inl e \<Rightarrow> Some (Inl e)
           | Inr (_, emu') \<Rightarrow> emulator_run os hs indet fuel emu' argv2 s))"

end
