(* ===== verification/Emulator_Spec.thy ===== *)
theory Emulator_Spec
  imports Emulator
begin

text \<open>
  The machine as a whole: the set-up of the bus, the image of the stack a program starts
  with, what the trap handler decides, and the thread of a core.
\<close>

section \<open>Traps\<close>

text \<open>Reading a register with \<open>csr_read_clear32\<close> and an empty mask keeps its low half.\<close>

definition low_half :: "u64 \<Rightarrow> u64" where
  "low_half x = x AND ucast (NOT 0 :: u32)"

definition csr_peeked :: "csr_t \<Rightarrow> csr_t" where
  "csr_peeked k = k\<lparr>csr_state := (csr_state k)
     (unat mcause := low_half (csr_state k (unat mcause)),
      unat mepc := low_half (csr_state k (unat mepc)))\<rparr>"

lemma ucast_low_half [simp]: "(ucast (low_half x) :: u32) = ucast x"
  using and_ucast_not_low [of x 0] by (simp add: low_half_def)

lemma low_half_ucast [simp]: "low_half (ucast (x :: u32)) = ucast x"
  unfolding low_half_def by (rule bit_word_eqI) (auto simp: bit_simps dest: bit_imp_le_length)

lemma trap_handler_eq:
  "trap_handler os h indet c s =
     (if (ucast (csr_state (c_csr c) (unat mcause)) :: u32) = 8
      then handle_umode_call os h indet (c\<lparr>c_csr := csr_peeked (c_csr c)\<rparr>) s
      else Inr (False, c\<lparr>c_csr := csr_peeked (c_csr c)\<rparr>, s))"
proof -
  let ?k1 = "(c_csr c)\<lparr>csr_state := (csr_state (c_csr c))(unat mcause :=
    csr_state (c_csr c) (unat mcause) AND ucast (NOT 0 :: u32))\<rparr>"
  let ?k2 = "?k1\<lparr>csr_state := (csr_state ?k1)(unat mepc :=
    csr_state ?k1 (unat mepc) AND ucast (NOT 0 :: u32))\<rparr>"
  have 1: "csr_read_clear32 (c_csr c) mcause 0 = Inr (ucast (csr_state (c_csr c) (unat mcause)), ?k1)"
    by (rule csr_rc32.opr_in) simp
  have 2: "csr_read_clear32 ?k1 mepc 0 = Inr (ucast (csr_state ?k1 (unat mepc)), ?k2)"
    by (rule csr_rc32.opr_in) simp
  have k: "?k2 = csr_peeked (c_csr c)" by (simp add: csr_peeked_def low_half_def)
  show ?thesis
    unfolding trap_handler_def 1 rbind.simps prod.case 2 k by (simp add: Let_def)
qed

lemma handle_umode_call_eq:
  "length (c_registers c) = NUMREGS \<Longrightarrow> handle_umode_call os h indet c s =
     handle_syscall os h indet c s (c_registers c ! 17) (c_registers c ! 10) (c_registers c ! 11)
       (c_registers c ! 12) (c_registers c ! 13) (c_registers c ! 14)"
  by (simp add: handle_umode_call_def)

text \<open>The core that the handler is called on, from a core that enters a trap.\<close>

definition handling :: "core_t \<Rightarrow> core_t" where
  "handling c = c\<lparr>c_trap_regs := c_registers c, c_prefetch_cnt := 0, c_trap_pc := c_pc c,
    c_csr := (c_csr c)\<lparr>csr_state := (csr_state (c_csr c))
      (unat mcause := low_half (csr_state (c_csr c) (unat mcause)), unat mepc := ucast (c_pc c))\<rparr>,
    c_state := TRAP, c_trap_state := HANDLE, c_cycle := c_cycle c + 1\<rparr>"

text \<open>
  The iteration that enters a trap: an environment call is made, every other cause ends the
  loop.
\<close>

lemma handle_dispatch:
  assumes st: "c_state c = TRAP" "c_trap_state c = ENTER" and hdl: "c_trap_handler c"
  shows "cpu_thread_step os h indet c s =
     (if (ucast (csr_state (c_csr c) (unat mcause)) :: u32) = cause_code ENV_CALL_UMODE
      then handle_umode_call os h (\<lambda>k. indet (Suc k)) (handling c) s else Inr (False, handling c, s))"
proof -
  let ?c1 = "c\<lparr>c_trap_regs := c_registers c, c_prefetch_cnt := 0, c_trap_pc := c_pc c,
    c_csr := (c_csr c)\<lparr>csr_state := (csr_state (c_csr c))(unat mepc := ucast (c_pc c))\<rparr>,
    c_state := TRAP, c_trap_state := HANDLE, c_cycle := c_cycle c + 1\<rparr>"
  have 1: "core_cycle (indet 0) c = Inr ?c1"
    using st trap_enter [OF st(2)] by (simp add: core_cycle_def stage_next_def)
  have peek: "?c1\<lparr>c_csr := csr_peeked (c_csr ?c1)\<rparr> = handling c"
    by (simp add: csr_peeked_def handling_def fun_upd_twist)
  have "trap_handler os h (\<lambda>k. indet (Suc k)) ?c1 s =
     (if (ucast (csr_state (c_csr c) (unat mcause)) :: u32) = 8
      then handle_umode_call os h (\<lambda>k. indet (Suc k)) (?c1\<lparr>c_csr := csr_peeked (c_csr ?c1)\<rparr>) s
      else Inr (False, ?c1\<lparr>c_csr := csr_peeked (c_csr ?c1)\<rparr>, s))"
    unfolding trap_handler_eq by simp
  then show ?thesis
    using hdl unfolding cpu_thread_step_def 1 rbind.simps peek by simp
qed

lemma handle_step:
  assumes st: "c_state c = TRAP" "c_trap_state c = ENTER" and len: "length (c_registers c) = NUMREGS"
    and hdl: "c_trap_handler c" and cause: "(ucast (csr_state (c_csr c) (unat mcause)) :: u32) = 8"
  shows "cpu_thread_step os h indet c s =
     handle_syscall os h (\<lambda>k. indet (Suc k)) (handling c) s (c_registers c ! 17)
       (c_registers c ! 10) (c_registers c ! 11) (c_registers c ! 12) (c_registers c ! 13)
       (c_registers c ! 14)"
  using handle_dispatch [OF st hdl, of os h indet s] cause len handle_umode_call_eq [of "handling c"]
  by (simp add: handling_def)

lemma cpu_thread_go:
  assumes "cpu_thread_step os (hs 0) (indet 0) c s = Inr (True, c', s')"
  shows "cpu_thread os hs indet (Suc fuel) c s
    = cpu_thread os (\<lambda>k. hs (Suc k)) (\<lambda>k. indet (Suc k)) fuel c' s'"
  using assms by simp

lemma ecall_return:
  assumes st: "c_state c = TRAP" "c_trap_state c = ENTER" and wf: "core_wf c"
    and hdl: "c_trap_handler c" and cause: "csr_get (c_csr c) mcause = Inr 8"
    and call: "handle_syscall os (hs 0) (\<lambda>k. indet 0 (Suc k)) (handling c) s (c_registers c ! 17)
       (c_registers c ! 10) (c_registers c ! 11) (c_registers c ! 12) (c_registers c ! 13)
       (c_registers c ! 14) = Inr (True, c2, s2)"
  shows "\<exists>c3 v. (\<forall>fuel. cpu_thread os hs indet (3 + fuel) c s
      = cpu_thread os (\<lambda>k. hs (k + 3)) (\<lambda>k. indet (k + 3)) fuel c3 s2)
    \<and> c_state c3 = FETCH \<and> c_pc c3 = c_pc c + 4 \<and> c_prefetch_cnt c3 = 0 \<and> c_bus c3 = c_bus c2
    \<and> c_registers c3 \<in> {c_registers c, (c_registers c)[10 := v]} \<and> c_registers c3 = c_trap_regs c2
    \<and> c_cycle c3 = c_cycle c + 3 \<and> c_prefetch c3 = c_prefetch c \<and> c_trap_handler c3
    \<and> c_trap_regs c3 = c_trap_regs c2"
proof -
  have len: "length (c_registers c) = NUMREGS" using wf by (simp add: core_wf_def)
  have k: "(ucast (csr_state (c_csr c) (unat mcause)) :: u32) = 8"
    using cause by (simp add: csr_get_def)
  have s1: "cpu_thread_step os (hs 0) (indet 0) c s = Inr (True, c2, s2)"
    using handle_step [OF st len hdl k, of os "hs 0" "indet 0" s] call by simp
  obtain rs b v where c2: "c2 = (handling c)\<lparr>c_trap_regs := rs, c_bus := b\<rparr>"
    and rs: "rs = c_registers c \<or> rs = (c_registers c)[10 := v]"
    using handle_syscall_frame [OF call] by (auto simp: sys_frame_def handling_def)
  have t2: "c_state c2 = TRAP" "c_trap_state c2 = HANDLE" "c_trap_regs c2 = rs" "c_cycle c2 = c_cycle c + 1"
    "csr_state (c_csr c2) (unat mepc) = ucast (c_pc c)" "c_prefetch c2 = c_prefetch c" "c_trap_handler c2"
    using hdl by (simp_all add: c2 handling_def)
  let ?c = "stage_next (c2\<lparr>c_trap_state := EXIT\<rparr>) FETCH"
  have s2: "cpu_thread_step os h i c2 s' = Inr (True, ?c, s')" for h i s'
    using t2 by (simp add: cpu_thread_step_def core_cycle_def trap_def)
  have t3: "c_trap_state ?c = EXIT" "c_state ?c = TRAP" "c_csr ?c = c_csr c2"
    "c_trap_regs ?c = rs" "c_bus ?c = c_bus c2" "c_cycle ?c = c_cycle c + 2"
    "c_prefetch ?c = c_prefetch c" "c_trap_handler ?c"
    using t2 by (simp_all add: stage_next_def)
  obtain q where q: "trap ?c = Inr (?c\<lparr>c_registers := rs, c_csr := q,
      c_pc := c_pc c + 4, c_trap_state := NONE, c_state := FETCH, c_prefetch_cnt := 0\<rparr>)"
    using trap_exit [OF t3(1)] t3(3,4) t2(5) by auto
  let ?d = "stage_next (?c\<lparr>c_registers := rs, c_csr := q, c_pc := c_pc c + 4,
      c_trap_state := NONE, c_state := FETCH, c_prefetch_cnt := 0\<rparr>) FETCH"
  have s3: "cpu_thread_step os h i ?c s' = Inr (True, ?d, s')" for h i s'
    using t3(2) q by (simp add: cpu_thread_step_def core_cycle_def)
  have run: "cpu_thread os hs indet (3 + fuel) c s
      = cpu_thread os (\<lambda>k. hs (k + 3)) (\<lambda>k. indet (k + 3)) fuel ?d s2" for fuel
    using cpu_thread_go [of os hs indet c s, OF s1] cpu_thread_go [of os _ _ c2, OF s2]
      cpu_thread_go [of os _ _ ?c, OF s3]
    by (simp add: numeral_3_eq_3 del: cpu_thread.simps)
  show ?thesis
    by (rule exI [of _ ?d], rule exI [of _ v])
      (use run rs t2 t3 in \<open>auto simp del: cpu_thread.simps\<close>)
qed

text \<open>
  C18. An environment call and its return. A core that enters a trap with cause 8 has the
  system call of its registers made on it; when the call succeeds, two more iterations bring
  the thread back to fetching at the instruction after the call, with the registers it had
  except that \<open>a0\<close> may hold the result, and the bus as the call left it.
\<close>

theorem ecall_returns:
  assumes st: "c_state c = TRAP" "c_trap_state c = ENTER" and wf: "core_wf c"
    and hdl: "c_trap_handler c" and cause: "csr_get (c_csr c) mcause = Inr 8"
    and call: "handle_syscall os (hs 0) (\<lambda>k. indet 0 (Suc k)) (handling c) s (c_registers c ! 17)
       (c_registers c ! 10) (c_registers c ! 11) (c_registers c ! 12) (c_registers c ! 13)
       (c_registers c ! 14) = Inr (True, c2, s2)"
  shows "\<exists>c3 v. (\<forall>fuel. cpu_thread os hs indet (3 + fuel) c s
      = cpu_thread os (\<lambda>k. hs (k + 3)) (\<lambda>k. indet (k + 3)) fuel c3 s2)
    \<and> c_state c3 = FETCH \<and> c_pc c3 = c_pc c + 4 \<and> c_prefetch_cnt c3 = 0 \<and> c_bus c3 = c_bus c2
    \<and> c_registers c3 \<in> {c_registers c, (c_registers c)[10 := v]} \<and> c_registers c3 = c_trap_regs c2
    \<and> c_cycle c3 = c_cycle c + 3"
  using ecall_return [where hs = hs and indet = indet, OF assms] by blast

text \<open>A core that has just met an \<open>ECALL\<close> with the number \<open>n\<close> in \<open>a7\<close>.\<close>

definition ecall_core :: "u32 \<Rightarrow> core_t" where
  "ecall_core n = (tiny_core 6)\<lparr>c_state := TRAP, c_trap_state := ENTER, c_trap_handler := True,
     c_csr := \<lparr>csr_state = \<lambda>_. 8\<rparr>, c_registers := (replicate 32 0)[17 := n]\<rparr>"

lemma ecall_core_simps [simp]:
  "c_state (ecall_core n) = TRAP" "c_trap_state (ecall_core n) = ENTER" "core_wf (ecall_core n)"
  "c_trap_handler (ecall_core n)" "csr_get (c_csr (ecall_core n)) 0x342 = Inr 8"
  "c_registers (ecall_core n) = (replicate 32 0)[17 := n]" "c_pc (ecall_core n) = 0"
  "c_trap_regs (handling (ecall_core n)) = (replicate 32 0)[17 := n]"
  using tiny_core_simps(1,2)
  by (simp_all add: ecall_core_def csr_get_def core_wf_def handling_def del: tiny_core_simps(1))

theorem ecall_returns_witness:
  "\<exists>c3. \<forall>fuel. cpu_thread test_os (\<lambda>_. plenty) (\<lambda>_ _. 0) (3 + fuel) (ecall_core SYS_close) 0
      = cpu_thread test_os (\<lambda>_. plenty) (\<lambda>_ _. 0) fuel c3 0 \<and> c_pc c3 = 4 \<and> c_state c3 = FETCH"
proof -
  let ?c = "ecall_core SYS_close"
  have call: "handle_syscall test_os plenty (\<lambda>k. 0) (handling ?c) 0 (c_registers ?c ! 17)
       (c_registers ?c ! 10) (c_registers ?c ! 11) (c_registers ?c ! 12) (c_registers ?c ! 13)
       (c_registers ?c ! 14)
     = Inr (True, (handling ?c)\<lparr>c_trap_regs := (replicate 32 0)[17 := SYS_close, 10 := 0]\<rparr>, 0)"
    by (simp add: handle_syscall_def sys_close_def set_a0_def)
  have "csr_get (c_csr ?c) mcause = Inr 8" by simp
  from ecall_returns [where hs = "\<lambda>_. plenty" and indet = "\<lambda>_ _. 0", OF _ _ _ _ this call]
  show ?thesis by auto
qed

section \<open>The thread\<close>

text \<open>
  The exit calls end the thread: a core that enters a trap with cause 8 and \<open>a7\<close> equal
  to 93 (\<open>exit\<close>) or 94 (\<open>exit_group\<close>), or to a number without a case, stops its thread
  in the next iteration, without touching the host; the thread's core has served no call.
\<close>

lemma exit_ends_thread:
  assumes st: "c_state c = TRAP" "c_trap_state c = ENTER" and wf: "core_wf c"
    and hdl: "c_trap_handler c" and cause: "csr_get (c_csr c) mcause = Inr 8"
    and a7: "c_registers c ! 17 \<notin> {SYS_brk, SYS_read, SYS_write, SYS_open, SYS_close, SYS_lseek, SYS_fstat}"
  shows "cpu_thread os hs indet (Suc fuel) c s = Some (Inr (handling c, s))"
proof -
  have len: "length (c_registers c) = NUMREGS" using wf by (simp add: core_wf_def)
  have k: "(ucast (csr_state (c_csr c) (unat mcause)) :: u32) = 8"
    using cause by (simp add: csr_get_def)
  have "cpu_thread_step os (hs 0) (indet 0) c s = Inr (False, handling c, s)"
    using handle_step [OF st len hdl k, of os "hs 0" "indet 0" s] a7 by (simp add: handle_syscall_def)
  then show ?thesis by simp
qed

text \<open>Untrapped cycles are iterations of the thread that go on.\<close>

lemma thread_follows_cycles:
  assumes "untrapped (\<lambda>k. indet k 0) n c" and "core_cycles (\<lambda>k. indet k 0) n c = Inr d"
  shows "cpu_thread os hs indet (n + fuel) c s
    = cpu_thread os (\<lambda>k. hs (n + k)) (\<lambda>k. indet (n + k)) fuel d s"
  using assms
proof (induction n arbitrary: c hs indet)
  case (Suc n)
  from Suc.prems(2) obtain c1 where c1: "core_cycle (indet 0 0) c = Inr c1"
    "core_cycles (\<lambda>k. indet (Suc k) 0) n c1 = Inr d" by (auto elim: rbind_InrE)
  have u: "untrapped (\<lambda>k. indet (Suc k) 0) n c1"
    unfolding untrapped_def
  proof (intro allI impI)
    fix k assume "k \<le> n"
    then have "\<exists>e. core_cycles (\<lambda>k. indet k 0) (Suc k) c = Inr e \<and> c_state e \<noteq> TRAP"
      using Suc.prems(1) unfolding untrapped_def by (metis Suc_le_mono)
    then show "\<exists>e. core_cycles (\<lambda>k. indet (Suc k) 0) k c1 = Inr e \<and> c_state e \<noteq> TRAP"
      using c1(1) by simp
  qed
  then have "c_state c1 \<noteq> TRAP" by (auto simp: untrapped_def dest: spec [of _ 0])
  then have "cpu_thread_step os (hs 0) (indet 0) c s = Inr (True, c1, s)"
    using c1(1) by (simp add: cpu_thread_step_def)
  then show ?case
    using Suc.IH [of "\<lambda>k. indet (Suc k)" c1 "\<lambda>k. hs (Suc k)"] u c1(2) by simp
qed simp

text \<open>
  The result of the thread does not depend on the fuel: if it ends within some number of
  iterations, it ends with the same result for every larger number.
\<close>

lemma cpu_thread_fuel:
  assumes "cpu_thread os hs indet fuel c s = Some r" and "fuel \<le> fuel'"
  shows "cpu_thread os hs indet fuel' c s = Some r"
  using assms
proof (induction fuel arbitrary: hs indet c s fuel')
  case (Suc fuel)
  then obtain g where "fuel' = Suc g" "fuel \<le> g" by (cases fuel') auto
  with Suc show ?case by (auto split: sum.splits if_splits)
qed simp

section \<open>Set-up\<close>

text \<open>Memory that takes writes; the operations of the set-up never take that away.\<close>

definition writable :: "mmu_t \<Rightarrow> vaddr_t \<Rightarrow> nat \<Rightarrow> bool" where
  "writable m a n \<longleftrightarrow> in_block m a n \<and> allowed m a n MPERM_WRITE"

lemma writable_wr:
  assumes "mmu_wf m" and "writable m a (length bs)" and "length bs < 2 ^ 32"
  shows "mmu_wr m a bs = Some (mmu_written m bs a)"
  using assms by (simp add: mmu_wr_eq writable_def)

lemma writable_sub:
  assumes w: "writable m a n" and b: "unat b = unat a + k" and l: "k + l \<le> n"
  shows "writable m b l"
proof -
  have blk: "in_block m b l" using w b l by (simp add: writable_def in_block_def)
  have "allowed m b l MPERM_WRITE"
    unfolding allowed_def
  proof (intro allI impI)
    fix i assume "i < l"
    then have "perm_allows MPERM_WRITE (mmu_perm m ! (offset m a + (k + i)))"
      using w l unfolding writable_def allowed_def by simp
    moreover have "offset m b + i = offset m a + (k + i)"
      using w b by (simp add: writable_def in_block_def offset_def)
    ultimately show "perm_allows MPERM_WRITE (mmu_perm m ! (offset m b + i))"
      by (simp add: add.assoc)
  qed
  with blk show ?thesis by (simp add: writable_def)
qed

lemma writable_map_range:
  assumes wf: "mmu_wf m" and w: "writable m b n"
    and same: "mmu_base m' = mmu_base m" "mmu_size m' = mmu_size m"
    and perm: "mmu_perm m' = map_range off k f (mmu_perm m)" "off + k \<le> length (mmu_perm m)"
    and f: "\<And>p. perm_allows MPERM_WRITE p \<Longrightarrow> perm_allows MPERM_WRITE (f p)"
  shows "writable m' b n"
proof -
  have blk: "in_block m b n" and al: "allowed m b n MPERM_WRITE" using w by (auto simp: writable_def)
  have "allowed m' b n MPERM_WRITE"
    unfolding allowed_def
  proof (intro allI impI)
    fix i assume i: "i < n"
    have off: "offset m' b = offset m b" by (simp add: offset_def same)
    have lt: "offset m b + i < length (mmu_perm m)" using in_block_offset(2) [OF wf blk] i by simp
    have p: "perm_allows MPERM_WRITE (mmu_perm m ! (offset m b + i))"
      using al i by (simp add: allowed_def)
    show "perm_allows MPERM_WRITE (mmu_perm m' ! (offset m' b + i))"
      unfolding off perm(1) nth_map_range [OF perm(2) lt] using p f by simp
  qed
  moreover have "in_block m' b n" using blk by (simp add: in_block_def same)
  ultimately show ?thesis by (simp add: writable_def)
qed

lemma writable_written:
  assumes wf: "mmu_wf m" and blk: "in_block m a (length bs)" and w: "writable m b n"
  shows "writable (mmu_written m bs a) b n"
  by (rule writable_map_range [OF wf w, where f = perm_written])
    (use in_block_offset(2) [OF wf blk] in \<open>simp_all add: mmu_written_def perm_allows_write
      perm_written_write [simplified]\<close>)

lemma writable_allocated:
  assumes wf: "mmu_wf m"
    and room: "unat (mmu_curr_vaddr m) + round16 k < unat (mmu_base m) + unat (mmu_size m)"
  shows "writable m b n \<Longrightarrow> writable (mmu_allocated m k 10) b n"
    and "writable (mmu_allocated m k 10) (ucast (mmu_curr_vaddr m)) k"
proof -
  let ?a = "ucast (mmu_curr_vaddr m) :: u32"
  have c: "unat ?a = unat (mmu_curr_vaddr m)"
    using wf by (auto simp: mmu_wf_def unsigned_ucast_eq take_bit_nat_eq_self)
  have blk: "in_block m ?a k"
    using wf room c round16_bounds(1) [of k] by (simp add: in_block_def mmu_wf_def)
  note off = in_block_offset(2) [OF wf blk]
  show "writable (mmu_allocated m k 10) b n" if "writable m b n"
    by (rule writable_map_range [OF wf that, where f = "\<lambda>_. 10"])
      (use off in \<open>simp_all add: mmu_allocated_def perm_allows_write\<close>)
  show "writable (mmu_allocated m k 10) ?a k"
    using off blk by (auto simp: writable_def allowed_def mmu_allocated_def offset_def in_block_def
        nth_map_range perm_allows_write)
qed

lemma mmu_abs_allocated_below:
  assumes wf: "mmu_wf m"
    and room: "unat (mmu_curr_vaddr m) + round16 k < unat (mmu_base m) + unat (mmu_size m)"
    and x: "x < unat (mmu_curr_vaddr m)"
  shows "mmu_abs (mmu_allocated m k p) x = mmu_abs m x"
  using mmu_abs_allocated [OF wf room, of p] x by simp

text \<open>
  What a step of the set-up keeps: the bus stays well-formed and its RAM ready, the block
  stays where it is, what was writable stays so, and the memory below \<open>lo\<close> is not
  touched.
\<close>

definition grows :: "nat \<Rightarrow> bus_t \<Rightarrow> bus_t \<Rightarrow> bool" where
  "grows lo b b' \<longleftrightarrow> bus_wf b' \<and> bus_ready b'
     \<and> mmu_base (ram_mmu b') = mmu_base (ram_mmu b) \<and> mmu_size (ram_mmu b') = mmu_size (ram_mmu b)
     \<and> (\<forall>a n. writable (ram_mmu b) a n \<longrightarrow> writable (ram_mmu b') a n)
     \<and> (\<forall>x<lo. mmu_abs (ram_mmu b') x = mmu_abs (ram_mmu b) x)"

lemma grows_trans: "grows lo a b \<Longrightarrow> grows lo b c \<Longrightarrow> grows lo a c"
  by (simp add: grows_def)

lemma ram_after_grows:
  assumes wf: "bus_wf b" and blk: "in_block (ram_mmu b) a (length bs)" and lo: "lo \<le> unat a"
  shows "grows lo b (ram_after b READY BUS_OK (mmu_written (ram_mmu b) bs a))"
proof -
  have m: "mmu_wf (ram_mmu b)" using wf by (simp add: bus_wf_def)
  have "bus_wf (ram_after b READY BUS_OK (mmu_written (ram_mmu b) bs a))"
    using mmu_written_wf [OF m blk] by (simp add: bus_wf_ram_after [OF wf])
  then show ?thesis
    using writable_written [OF m blk] lo
    by (auto simp: grows_def bus_ready_def ram_after_def mmu_written_def mmu_abs_written [OF m blk, unfolded mmu_written_def])
qed

lemma store_word_ok:
  assumes wf: "bus_wf b" and w: "writable (ram_mmu b) a 4" and lo: "lo \<le> unat a"
  shows "\<exists>b'. bus_write_single b (ucast a) x WORD = Inr b' \<and> grows lo b b'
    \<and> bus_byte b' = mem_store (bus_byte b) a (bytes_of_word 4 x)
    \<and> mmu_curr_vaddr (ram_mmu b') = mmu_curr_vaddr (ram_mmu b)"
proof -
  let ?bs = "bytes_of_word (width_bytes WORD) x"
  have m: "mmu_wf (ram_mmu b)" using wf by (simp add: bus_wf_def)
  have blk: "in_block (ram_mmu b) a 4" using w by (simp add: writable_def)
  have wr: "mmu_wr (ram_mmu b) a ?bs = Some (mmu_written (ram_mmu b) ?bs a)"
    using writable_wr [OF m, of a ?bs] w by (simp add: width_bytes_def)
  have st: "bus_write_single b (ucast a) x WORD
      = Inr (ram_after b READY BUS_OK (mmu_written (ram_mmu b) ?bs a))"
    using bus_write_single_ram [OF wf in_block_1 [OF blk], of x WORD] wr by simp
  have byt: "bus_byte (ram_after b READY BUS_OK (mmu_written (ram_mmu b) ?bs a))
      = mem_store (bus_byte b) a ?bs"
    using mmu_store.byte_wr [OF m wr] by (intro ext) (simp add: bus_byte_def mem_store_def)
  show ?thesis
    using st byt ram_after_grows [OF wf, of a ?bs lo] blk lo
    by (intro exI [of _ "ram_after b READY BUS_OK (mmu_written (ram_mmu b) ?bs a)"])
      (simp add: width_bytes_def)
qed

lemma push_ok:
  assumes "bus_wf b" and "writable (ram_mmu b) (sp - 4) 4" and "lo \<le> unat (sp - 4)"
  shows "\<exists>b'. push b sp x = Inr (b', sp - 4) \<and> grows lo b b'
    \<and> bus_byte b' = mem_store (bus_byte b) (sp - 4) (bytes_of_word 4 x)
    \<and> mmu_curr_vaddr (ram_mmu b') = mmu_curr_vaddr (ram_mmu b)"
  using store_word_ok [OF assms, of x] by (auto simp: push_def Let_def)

lemma mem_store_word:
  "mem_word (mem_store m a (bytes_of_word 4 x)) a 4 = x"
proof -
  have "map (mem_store m a (bytes_of_word 4 x)) (span a 4) = bytes_of_word 4 x"
    by (rule nth_equalityI) (simp_all add: mem_store_def)
  then show ?thesis by (simp add: mem_word_def)
qed

lemma mem_store_bytes:
  "k < length bs \<Longrightarrow> mem_store m a bs (unat a + k) = bs ! k"
  by (simp add: mem_store_def)

lemma mem_store_other:
  "x < unat a \<or> unat a + length bs \<le> x \<Longrightarrow> mem_store m a bs x = m x"
  by (auto simp: mem_store_def)

lemma mem_word_other:
  assumes "unat b + n \<le> unat a \<or> unat a + length bs \<le> unat b"
  shows "mem_word (mem_store m a bs) b n = mem_word m b n"
proof -
  have "map (mem_store m a bs) (span b n) = map m (span b n)"
    using assms by (intro map_cong refl) (auto simp: mem_store_def)
  then show ?thesis unfolding mem_word_def by (rule arg_cong)
qed

text \<open>Copying an image of words.\<close>

lemma ucast_plus_4:
  assumes "unat (a :: u32) + 4 * k < 2 ^ 32"
  shows "(ucast a + of_nat k * 4 :: u64) = ucast (a + 4 * of_nat k)"
proof -
  have "unat (of_nat (4 * k) :: u64) = 4 * k" using assms by (intro unat_of_nat_64) simp
  then have "unat (ucast a + of_nat (4 * k) :: u64) = unat a + 4 * k"
    using assms unat_add_lem [of "ucast a :: u64" "of_nat (4 * k)"] by simp
  then show ?thesis using unat_plus_4 [OF assms] by (simp add: word_unat_eq_iff mult.commute)
qed

lemma load_words_ok:
  assumes "bus_wf b" and "writable (ram_mmu b) base (4 * (i + n))" and "i + n \<le> length rom"
  shows "\<exists>b'. load_words b base rom i n = Inr b' \<and> (n = 0 \<or> grows (unat base) b b')
    \<and> (\<forall>j. i \<le> j \<longrightarrow> j < i + n \<longrightarrow> mem_word (bus_byte b') (base + 4 * of_nat j) 4 = rom ! j)
    \<and> (\<forall>x. x < unat base + 4 * i \<or> unat base + 4 * (i + n) \<le> x \<longrightarrow> bus_byte b' x = bus_byte b x)"
  using assms
proof (induction n arbitrary: b i)
  case (Suc n)
  let ?a = "base + 4 * of_nat i"
  have lim: "unat base + 4 * (i + Suc n) < 2 ^ 32"
    using Suc.prems(1,2) by (auto simp: writable_def in_block_def bus_wf_def mmu_wf_def)
  have addr: "unat (base + 4 * of_nat j) = unat base + 4 * j" if "j \<le> i + n" for j
    using lim that by (intro unat_plus_4) simp
  have a64: "(ucast base + of_nat i * 4 :: u64) = ucast ?a"
    using lim by (intro ucast_plus_4) simp
  have "writable (ram_mmu b) ?a 4"
    by (rule writable_sub [OF Suc.prems(2) addr]) simp_all
  from store_word_ok [OF Suc.prems(1) this, of "unat base" "rom ! i"] addr [of i] obtain b1 where
    b1: "bus_write_single b (ucast ?a) (rom ! i) WORD = Inr b1" "grows (unat base) b b1"
    "bus_byte b1 = mem_store (bus_byte b) ?a (bytes_of_word 4 (rom ! i))" by auto
  have "bus_wf b1" "writable (ram_mmu b1) base (4 * (Suc i + n))"
    using b1(2) Suc.prems(2) by (simp_all add: grows_def)
  from Suc.IH [OF this] Suc.prems(3) obtain b' where
    b': "load_words b1 base rom (Suc i) n = Inr b'" "n = 0 \<or> grows (unat base) b1 b'"
    "\<forall>j. Suc i \<le> j \<longrightarrow> j < Suc i + n \<longrightarrow> mem_word (bus_byte b') (base + 4 * of_nat j) 4 = rom ! j"
    "\<forall>x. x < unat base + 4 * Suc i \<or> unat base + 4 * (Suc i + n) \<le> x \<longrightarrow> bus_byte b' x = bus_byte b1 x"
    by auto
  have "mem_word (bus_byte b') ?a 4 = mem_word (bus_byte b1) ?a 4"
    unfolding mem_word_def using b'(4) addr [of i]
    by (intro arg_cong [where f = word_of_bytes] map_cong refl) auto
  then have "mem_word (bus_byte b') ?a 4 = rom ! i" by (simp add: b1(3) mem_store_word)
  then have "mem_word (bus_byte b') (base + 4 * of_nat j) 4 = rom ! j" if "i \<le> j" "j < i + Suc n" for j
    using b'(3) that by (cases "j = i") auto
  moreover have "bus_byte b' x = bus_byte b x"
    if "x < unat base + 4 * i \<or> unat base + 4 * (i + Suc n) \<le> x" for x
  proof -
    have "bus_byte b' x = bus_byte b1 x" using b'(4) that by auto
    then show ?thesis using that addr [of i] by (auto simp: b1(3) mem_store_other)
  qed
  moreover have "load_words b base rom i (Suc n) = Inr b'"
    using Suc.prems(3) a64 b1(1) b'(1) by simp
  moreover have "grows (unat base) b b'"
    using b1(2) b'(1,2) grows_trans [OF b1(2)] by (cases "n = 0") auto
  ultimately show ?case by blast
qed simp

text \<open>
  \<open>load_into_ram\<close> copies the image: when the memory at \<open>base\<close> takes writes for the
  whole words of \<open>size_in_bytes\<close> and the image has that many, the words of the memory from
  \<open>base\<close> on are those of the image, no other byte has changed, the bus stays well-formed,
  and odd bytes at the end are not copied.
\<close>

lemma load_into_ram_copies:
  assumes "bus_wf b" and "writable (ram_mmu b) base (4 * (unat sz div 4))" and "unat sz div 4 \<le> length rom"
  shows "\<exists>b'. load_into_ram b base rom sz = Inr b' \<and> bus_wf b'
    \<and> map (\<lambda>j. mem_word (bus_byte b') (base + 4 * of_nat j) 4) [0..<unat sz div 4] = take (unat sz div 4) rom
    \<and> (\<forall>x. x < unat base \<or> unat base + 4 * (unat sz div 4) \<le> x \<longrightarrow> bus_byte b' x = bus_byte b x)"
proof -
  let ?n = "unat sz div 4"
  have n: "unat (drop_bit 2 sz) = ?n" by (simp only: unat_drop_bit_eq) (simp add: drop_bit_eq_div)
  obtain b' where b': "load_words b base rom 0 ?n = Inr b'" "?n = 0 \<or> grows (unat base) b b'"
    "\<forall>j<?n. mem_word (bus_byte b') (base + 4 * of_nat j) 4 = rom ! j"
    "\<forall>x. x < unat base \<or> unat base + 4 * ?n \<le> x \<longrightarrow> bus_byte b' x = bus_byte b x"
    using load_words_ok [of b base 0 ?n rom] assms by auto
  have "bus_wf b'" using b'(1,2) assms(1) by (cases "?n = 0") (auto simp: grows_def)
  moreover have "map (\<lambda>j. mem_word (bus_byte b') (base + 4 * of_nat j) 4) [0..<?n] = take ?n rom"
    by (rule nth_equalityI) (use b'(3) assms(3) in simp_all)
  ultimately show ?thesis
    using b'(1,4) n by (intro exI [of _ b']) (simp add: load_into_ram_def)
qed

lemma allocate_grows:
  assumes wf: "bus_wf b" and ready: "bus_ready b" and lo: "lo \<le> unat (mmu_curr_vaddr (ram_mmu b))"
    and room: "unat (mmu_curr_vaddr (ram_mmu b)) + round16 k
      < unat (mmu_base (ram_mmu b)) + unat (mmu_size (ram_mmu b))"
  defines "b' \<equiv> b\<lparr>ram_mmu := mmu_allocated (ram_mmu b) k 10\<rparr>"
  shows "grows lo b b'" and "bus_byte b' = bus_byte b"
    and "unat (mmu_curr_vaddr (ram_mmu b')) = unat (mmu_curr_vaddr (ram_mmu b)) + round16 k"
    and "writable (ram_mmu b') (ucast (mmu_curr_vaddr (ram_mmu b))) k"
proof -
  have m: "mmu_wf (ram_mmu b)" using wf by (simp add: bus_wf_def)
  have m': "mmu_wf (ram_mmu b')" using mmu_allocated_wf [OF m room] by (simp add: b'_def)
  have same: "mmu_base (ram_mmu b') = mmu_base (ram_mmu b)" "mmu_size (ram_mmu b') = mmu_size (ram_mmu b)"
    "mmu_data (ram_mmu b') = mmu_data (ram_mmu b)" "mmio_devices b' = mmio_devices b"
    "mutex_held b' = mutex_held b"
    by (simp_all add: b'_def mmu_allocated_def)
  have "bus_wf b'"
    using wf m' same by (auto simp: bus_wf_def ram_slot_def split: list.splits)
  moreover have "mmu_abs (ram_mmu b') x = mmu_abs (ram_mmu b) x" if "x < lo" for x
    using mmu_abs_allocated_below [OF m room] that lo by (simp add: b'_def)
  ultimately show "grows lo b b'"
    using same ready writable_allocated(1) [OF m room] by (simp add: grows_def b'_def bus_ready_def)
  show "bus_byte b' = bus_byte b"
    by (rule ext) (simp add: bus_byte_def mmu_byte_def mmu_abs_def same)
  have "unat (of_nat (round16 k) :: u64) = round16 k"
    using room m by (intro unat_of_nat_64) (simp add: mmu_wf_def)
  then show "unat (mmu_curr_vaddr (ram_mmu b')) = unat (mmu_curr_vaddr (ram_mmu b)) + round16 k"
    using room m by (simp add: b'_def mmu_allocated_def mmu_wf_def unat_add_64)
  show "writable (ram_mmu b') (ucast (mmu_curr_vaddr (ram_mmu b))) k"
    using writable_allocated(2) [OF m room] by (simp add: b'_def)
qed

lemma put_string_ok:
  assumes wf: "bus_wf b" and ready: "bus_ready b" and lo: "lo \<le> unat (mmu_curr_vaddr (ram_mmu b))"
    and base: "mmu_base (ram_mmu b) \<noteq> 0" and len: "length str < 2 ^ 16"
    and room: "unat (mmu_curr_vaddr (ram_mmu b)) + round16 (length str + 1)
      < unat (mmu_base (ram_mmu b)) + unat (mmu_size (ram_mmu b))"
  shows "\<exists>b'. put_string b str = Inr (ucast (mmu_curr_vaddr (ram_mmu b)), b') \<and> grows lo b b'
    \<and> bus_byte b' = mem_store (bus_byte b) (ucast (mmu_curr_vaddr (ram_mmu b))) (str @ [0])
    \<and> unat (mmu_curr_vaddr (ram_mmu b')) = unat (mmu_curr_vaddr (ram_mmu b)) + round16 (length str + 1)"
proof -
  let ?n = "of_nat (length str) + 1 :: u64" and ?a = "ucast (mmu_curr_vaddr (ram_mmu b)) :: u32"
  let ?bs = "str @ [0]"
  let ?b1 = "b\<lparr>ram_mmu := mmu_allocated (ram_mmu b) (length str + 1) 10\<rparr>"
  have m: "mmu_wf (ram_mmu b)" using wf by (simp add: bus_wf_def)
  have "?n = of_nat (length str + 1)" by simp
  then have n: "unat ?n = length str + 1" using len by (simp only:) (intro unat_of_nat_64, simp)
  have al: "mmu_allocate (ram_mmu b) ?n 10 = Inr (?a, mmu_allocated (ram_mmu b) (length str + 1) 10)"
    using mmu_allocate_eq [OF m base, where sz = ?n and perm = 10] n len room by simp
  note g = allocate_grows [OF wf ready lo room]
  have b1: "bus_wf ?b1" "dev_state (hd (mmio_devices ?b1)) = READY"
    using g(1) by (auto simp: grows_def bus_ready_def)
  have m1: "mmu_wf (ram_mmu ?b1)" using b1 by (simp add: bus_wf_def)
  have blk: "in_block (ram_mmu ?b1) ?a (length ?bs)" using g(4) by (simp add: writable_def)
  have wr: "mmu_wr (ram_mmu ?b1) ?a ?bs = Some (mmu_written (ram_mmu ?b1) ?bs ?a)"
    using writable_wr [OF m1, of ?a ?bs] g(4) len by simp
  let ?b2 = "ram_after ?b1 READY BUS_OK (mmu_written (ram_mmu ?b1) ?bs ?a)"
  have st: "bus_write_multiple ?b1 (ucast ?a) ?bs ?n BYTE = Inr (?n, ?b2)"
    using bus_write_multiple_ram [OF b1(1) in_block_1 [OF blk] b1(2), of ?n BYTE ?bs] n len wr
    by (simp add: width_bytes_def)
  have byt: "bus_byte ?b2 = mem_store (bus_byte ?b1) ?a ?bs"
    using mmu_store.byte_wr [OF m1 wr] by (intro ext) (simp add: bus_byte_def mem_store_def)
  have "unat ?a = unat (mmu_curr_vaddr (ram_mmu b))"
    using m by (auto simp: mmu_wf_def unsigned_ucast_eq take_bit_nat_eq_self)
  then have "grows lo b ?b2"
    using lo by (intro grows_trans [OF g(1) ram_after_grows [OF b1(1) blk]]) simp
  moreover have "put_string b str = Inr (?a, ?b2)"
    using al st by (simp add: put_string_def Let_def)
  ultimately show ?thesis
    using byt g(2,3) by (intro exI [of _ ?b2]) simp
qed

lemma core_init_zero:
  assumes "i = 0"
  shows "core_init (cpu_init b) i pc = Inr ((zero_core b)\<lparr>c_pc := pc\<rparr>,
    (cpu_init b)\<lparr>cores := [(zero_core b)\<lparr>c_pc := pc\<rparr>]\<rparr>)"
  using assms by (simp add: core_init_def cpu_init_def zero_core_def Let_def)

lemma round16_argv0: "round16 (length argv0_bytes + 1) = 16" "length argv0_bytes = 14"
  by (simp_all add: argv0_bytes_def round16_def)

text \<open>Several words pushed one after the other; the stack then holds them in reverse.\<close>

fun push_all :: "bus_t \<Rightarrow> u32 \<Rightarrow> u32 list \<Rightarrow> (bus_t \<times> u32) res" where
  "push_all b sp [] = Inr (b, sp)"
| "push_all b sp (x # xs) = rbind (push b sp x) (\<lambda>(b', sp'). push_all b' sp' xs)"

lemma push_all_ok:
  assumes "bus_wf b" and "bus_ready b" and "writable (ram_mmu b) stk (4 * m)" and "lo \<le> unat stk"
    and "unat sp = unat stk + 4 * m" and "length xs \<le> m"
  shows "\<exists>b'. push_all b sp xs = Inr (b', sp - 4 * of_nat (length xs)) \<and> grows lo b b'
    \<and> (\<forall>k<length xs. mem_word (bus_byte b') (sp - 4 * of_nat (Suc k)) 4 = xs ! k)
    \<and> (\<forall>x. unat sp \<le> x \<longrightarrow> bus_byte b' x = bus_byte b x)"
  using assms
proof (induction xs arbitrary: b sp m)
  case Nil
  then show ?case by (simp add: grows_def)
next
  case (Cons w xs)
  then obtain m' where m: "m = Suc m'" "length xs \<le> m'" by (cases m) auto
  have u: "unat (sp - 4) = unat stk + 4 * m'"
    using Cons.prems(5) m(1) unat_sub [of 4 sp] by (simp add: word_le_nat_alt)
  have "writable (ram_mmu b) (sp - 4) 4"
    by (rule writable_sub [OF Cons.prems(3) u]) (simp add: m)
  from push_ok [OF Cons.prems(1) this, of lo w] Cons.prems(4) u obtain b1 where
    b1: "push b sp w = Inr (b1, sp - 4)" "grows lo b b1"
    "bus_byte b1 = mem_store (bus_byte b) (sp - 4) (bytes_of_word 4 w)" by auto
  have "writable (ram_mmu b1) stk (4 * m)" using b1(2) Cons.prems(3) by (simp add: grows_def)
  then have w1: "writable (ram_mmu b1) stk (4 * m')"
    by (rule writable_sub [of _ _ _ _ 0]) (simp_all add: m)
  have "bus_wf b1" "bus_ready b1" using b1(2) by (simp_all add: grows_def)
  from Cons.IH [OF this w1 Cons.prems(4) u m(2)] obtain b' where
    b': "push_all b1 (sp - 4) xs = Inr (b', sp - 4 - 4 * of_nat (length xs))" "grows lo b1 b'"
    "\<forall>k<length xs. mem_word (bus_byte b') (sp - 4 - 4 * of_nat (Suc k)) 4 = xs ! k"
    "\<forall>x. unat (sp - 4) \<le> x \<longrightarrow> bus_byte b' x = bus_byte b1 x" by blast
  have "mem_word (bus_byte b') (sp - 4) 4 = mem_word (bus_byte b1) (sp - 4) 4"
    unfolding mem_word_def using b'(4) by (intro arg_cong [where f = word_of_bytes] map_cong refl) auto
  then have 0: "mem_word (bus_byte b') (sp - 4) 4 = w" by (simp add: b1(3) mem_store_word)
  have "mem_word (bus_byte b') (sp - 4 * of_nat (Suc k)) 4 = (w # xs) ! k" if "k < length (w # xs)" for k
    using that 0 b'(3) by (cases k) (simp_all add: algebra_simps)
  moreover have "bus_byte b' x = bus_byte b x" if "unat sp \<le> x" for x
    using b'(4) that u Cons.prems(5) m(1) by (simp add: b1(3) mem_store_other)
  moreover have "push_all b sp (w # xs) = Inr (b', sp - 4 * of_nat (length (w # xs)))"
    using b1(1) b'(1) by (simp add: algebra_simps)
  ultimately show ?case using grows_trans [OF b1(2) b'(2)] by blast
qed

lemma boot_core_pushes:
  "boot_core cpu b elf i argv1 =
     rbind (mmu_allocate_raw (ram_mmu b) (ucast STACK_SIZE)) (\<lambda>(stack, m1).
     rbind (core_init cpu i (entry elf)) (\<lambda>(core, cpu').
     rbind (arr_set (c_registers core) 1 0x1337c0de) (\<lambda>r1.
     rbind (put_string (b\<lparr>ram_mmu := m1\<rparr>) argv0_bytes) (\<lambda>(av0, b2).
     rbind (put_string b2 argv1) (\<lambda>(av1, b3).
     rbind (push_all b3 (stack + STACK_SIZE) [0, 0, 0, av1, av0, 42]) (\<lambda>(b9, sp).
     rbind (arr_set r1 2 sp) (\<lambda>r2.
     Inr (core\<lparr>c_registers := r2, c_trap_handler := True, c_bus := b9\<rparr>))))))))"
  by (simp add: boot_core_def Let_def rbind_assoc split_def)

lemma REG_R_boot:
  assumes "c_registers c = (replicate 32 0)[1 := v, 2 := w]"
  shows "REG_R c = (\<lambda>_. 0)(1 := v, 2 := w)"
proof (rule ext)
  fix x :: reg
  have x: "unat x < 32" using unsigned_less [of x, where 'a = nat] by simp
  have "1 = unat x \<longleftrightarrow> x = 1" "2 = unat x \<longleftrightarrow> x = 2" by (auto simp: word_unat_eq_iff)
  then show "REG_R c x = ((\<lambda>_. 0)(1 := v, 2 := w)) x"
    using x assms by (simp add: REG_R_def nth_list_update)
qed

text \<open>Where the stack, the program name and the argument are put, one behind the other.\<close>

lemma boot_addresses:
  assumes m: "mmu_wf (ram_mmu b)" and n: "0 < n"
    and room: "unat (mmu_curr_vaddr (ram_mmu b)) + 4112 + n
      < unat (mmu_base (ram_mmu b)) + unat (mmu_size (ram_mmu b))"
  defines "stk \<equiv> ucast (mmu_curr_vaddr (ram_mmu b)) :: u32"
  shows "unat stk = unat (mmu_curr_vaddr (ram_mmu b))"
    and "unat (stk + 4096) = unat (mmu_curr_vaddr (ram_mmu b)) + 4096"
    and "unat (stk + 4096 + 16) = unat (mmu_curr_vaddr (ram_mmu b)) + 4112"
proof -
  have lim: "unat (mmu_curr_vaddr (ram_mmu b)) + 4112 < 2 ^ 32" using room m by (simp add: mmu_wf_def)
  show 1: "unat stk = unat (mmu_curr_vaddr (ram_mmu b))"
    using m by (auto simp: stk_def mmu_wf_def unsigned_ucast_eq take_bit_nat_eq_self)
  show 2: "unat (stk + 4096) = unat (mmu_curr_vaddr (ram_mmu b)) + 4096"
    using lim 1 unat_add_lem [of stk "4096 :: u32"] by simp
  show "unat (stk + 4096 + 16) = unat (mmu_curr_vaddr (ram_mmu b)) + 4112"
    using lim 2 unat_add_lem [of "stk + 4096" "16 :: u32"] by simp
qed

lemma vaddr_eqI: "unat (c :: u64) = unat (a :: u32) \<Longrightarrow> ucast c = a"
  by (simp add: word_unat_eq_iff unsigned_ucast_eq take_bit_nat_eq_self)

text \<open>The block of the stack, then the two strings.\<close>

lemma boot_stack_ok:
  assumes wf: "bus_wf b" and ready: "bus_ready b" and base: "mmu_base (ram_mmu b) \<noteq> 0"
    and room: "unat (mmu_curr_vaddr (ram_mmu b)) + 4096
      < unat (mmu_base (ram_mmu b)) + unat (mmu_size (ram_mmu b))"
  shows "\<exists>m1. mmu_allocate_raw (ram_mmu b) (ucast STACK_SIZE) = Inr (ucast (mmu_curr_vaddr (ram_mmu b)), m1)
    \<and> grows (unat (mmu_curr_vaddr (ram_mmu b))) b (b\<lparr>ram_mmu := m1\<rparr>)
    \<and> unat (mmu_curr_vaddr m1) = unat (mmu_curr_vaddr (ram_mmu b)) + 4096
    \<and> writable m1 (ucast (mmu_curr_vaddr (ram_mmu b))) 4096"
proof -
  have m: "mmu_wf (ram_mmu b)" using wf by (simp add: bus_wf_def)
  have r: "round16 4096 = 4096" by (simp add: round16_def)
  have "mmu_allocate_raw (ram_mmu b) (ucast STACK_SIZE)
      = Inr (ucast (mmu_curr_vaddr (ram_mmu b)), mmu_allocated (ram_mmu b) 4096 10)"
    using mmu_allocate_eq [OF m base, where sz = "4096" and perm = 10] r room
    by (simp add: mmu_allocate_raw_def)
  moreover have "unat (mmu_curr_vaddr (ram_mmu b)) + round16 4096
      < unat (mmu_base (ram_mmu b)) + unat (mmu_size (ram_mmu b))" using room r by simp
  note allocate_grows [OF wf ready order_refl this]
  ultimately show ?thesis using r by (intro exI [of _ "mmu_allocated (ram_mmu b) 4096 10"]) simp
qed

lemma boot_blocks_ok:
  assumes wf: "bus_wf b" and ready: "bus_ready b"
    and base: "mmu_base (ram_mmu b) \<noteq> 0" and len: "length argv1 < 2 ^ 16"
    and room: "unat (mmu_curr_vaddr (ram_mmu b)) + 4112 + round16 (length argv1 + 1)
      < unat (mmu_base (ram_mmu b)) + unat (mmu_size (ram_mmu b))"
  defines "stk \<equiv> ucast (mmu_curr_vaddr (ram_mmu b)) :: u32"
  shows "\<exists>m1 b2 b3. mmu_allocate_raw (ram_mmu b) (ucast STACK_SIZE) = Inr (stk, m1)
    \<and> put_string (b\<lparr>ram_mmu := m1\<rparr>) argv0_bytes = Inr (stk + 4096, b2)
    \<and> put_string b2 argv1 = Inr (stk + 4096 + 16, b3)
    \<and> grows (unat stk) b b3 \<and> writable (ram_mmu b3) stk (4 * 1024)
    \<and> (\<forall>k<15. bus_byte b3 (unat (stk + 4096) + k) = (argv0_bytes @ [0]) ! k)
    \<and> (\<forall>k\<le>length argv1. bus_byte b3 (unat (stk + 4096 + 16) + k) = (argv1 @ [0]) ! k)"
proof -
  let ?cv = "unat (mmu_curr_vaddr (ram_mmu b))"
  have m: "mmu_wf (ram_mmu b)" using wf by (simp add: bus_wf_def)
  have r: "0 < round16 (length argv1 + 1)" by (simp add: round16_def)
  note u = boot_addresses [OF m r room, folded stk_def]
  have "?cv + 4096 < unat (mmu_base (ram_mmu b)) + unat (mmu_size (ram_mmu b))" using room by simp
  from boot_stack_ok [OF wf ready base this] obtain m1 where
    al: "mmu_allocate_raw (ram_mmu b) (ucast STACK_SIZE) = Inr (stk, m1)"
    and g1: "grows ?cv b (b\<lparr>ram_mmu := m1\<rparr>)" "unat (mmu_curr_vaddr m1) = ?cv + 4096" "writable m1 stk 4096"
    unfolding stk_def by blast
  let ?b1 = "b\<lparr>ram_mmu := m1\<rparr>"
  have b1: "bus_wf ?b1" "bus_ready ?b1" "mmu_base (ram_mmu ?b1) \<noteq> 0" "unat (mmu_curr_vaddr (ram_mmu ?b1)) = ?cv + 4096"
    "unat (mmu_base (ram_mmu ?b1)) + unat (mmu_size (ram_mmu ?b1))
      = unat (mmu_base (ram_mmu b)) + unat (mmu_size (ram_mmu b))"
    using g1(1,2) base by (auto simp: grows_def)
  have "ucast (mmu_curr_vaddr (ram_mmu ?b1)) = stk + 4096" using b1(4) u(2) by (intro vaddr_eqI) simp
  then obtain b2 where b2: "put_string ?b1 argv0_bytes = Inr (stk + 4096, b2)" "grows ?cv ?b1 b2"
    "bus_byte b2 = mem_store (bus_byte ?b1) (stk + 4096) (argv0_bytes @ [0])"
    "unat (mmu_curr_vaddr (ram_mmu b2)) = ?cv + 4112"
    using put_string_ok [OF b1(1,2) _ b1(3), of ?cv argv0_bytes] room b1(4,5) round16_argv0 by auto
  have b2': "bus_wf b2" "bus_ready b2" "mmu_base (ram_mmu b2) \<noteq> 0"
    "unat (mmu_base (ram_mmu b2)) + unat (mmu_size (ram_mmu b2))
      = unat (mmu_base (ram_mmu b)) + unat (mmu_size (ram_mmu b))"
    using b2(2) b1(3,5) by (auto simp: grows_def)
  have "ucast (mmu_curr_vaddr (ram_mmu b2)) = stk + 4096 + 16" using b2(4) u(3) by (intro vaddr_eqI) simp
  then obtain b3 where b3: "put_string b2 argv1 = Inr (stk + 4096 + 16, b3)" "grows ?cv b2 b3"
    "bus_byte b3 = mem_store (bus_byte b2) (stk + 4096 + 16) (argv1 @ [0])"
    using put_string_ok [OF b2'(1,2) _ b2'(3) len, of ?cv] room b2(4) b2'(4) by auto
  have "bus_byte b3 (unat (stk + 4096) + k) = (argv0_bytes @ [0]) ! k" if "k < 15" for k
    using that u(2,3) mem_store_bytes [of k "argv0_bytes @ [0]" _ "stk + 4096"] round16_argv0(2)
    by (simp add: b3(3) mem_store_other b2(3))
  moreover have "bus_byte b3 (unat (stk + 4096 + 16) + k) = (argv1 @ [0]) ! k" if "k \<le> length argv1" for k
    using that mem_store_bytes [of k "argv1 @ [0]" _ "stk + 4096 + 16"] by (simp add: b3(3))
  moreover have "writable (ram_mmu b3) stk (4 * 1024)"
    using g1(3) b2(2) b3(2) by (simp add: grows_def stk_def)
  moreover have "grows (unat stk) b b3"
    using grows_trans [OF grows_trans [OF g1(1) b2(2)] b3(2)] by (simp add: u(1))
  ultimately show ?thesis
    using al b2(1) b3(1)
    by - (rule exI [of _ m1], rule exI [of _ b2], rule exI [of _ b3], blast)
qed

lemma boot_core_ok:
  assumes wf: "bus_wf b" and ready: "bus_ready b"
    and base: "mmu_base (ram_mmu b) \<noteq> 0" and len: "length argv1 < 2 ^ 16"
    and room: "unat (mmu_curr_vaddr (ram_mmu b)) + 4112 + round16 (length argv1 + 1)
      < unat (mmu_base (ram_mmu b)) + unat (mmu_size (ram_mmu b))"
  defines "tos \<equiv> ucast (mmu_curr_vaddr (ram_mmu b)) + 4096 :: u32"
  shows "\<exists>c. boot_core (cpu_init b) b e 0 argv1 = Inr c \<and> core_wf c \<and> c_state c = FETCH
    \<and> c_pc c = entry e \<and> c_prefetch_cnt c = 0 \<and> c_trap_handler c
    \<and> c_registers c ! 1 = 0x1337c0de \<and> c_registers c ! 2 = tos - 24
    \<and> map (\<lambda>k. mem_word (bus_byte (c_bus c)) (tos - 24 + 4 * of_nat k) 4) [0..<6]
        = [42, tos, tos + 16, 0, 0, 0]
    \<and> (\<forall>k<15. bus_byte (c_bus c) (unat tos + k) = (argv0_bytes @ [0]) ! k)
    \<and> (\<forall>k\<le>length argv1. bus_byte (c_bus c) (unat (tos + 16) + k) = (argv1 @ [0]) ! k)
    \<and> bus_ready (c_bus c) \<and> REG_R c = (\<lambda>_. 0)(1 := 0x1337c0de, 2 := tos - 24)
    \<and> (\<forall>x<unat (mmu_curr_vaddr (ram_mmu b)). mmu_abs (ram_mmu (c_bus c)) x = mmu_abs (ram_mmu b) x)"
proof -
  let ?stk = "ucast (mmu_curr_vaddr (ram_mmu b)) :: u32" and ?ws = "[0, 0, 0, tos + 16, tos, 42]"
  have m: "mmu_wf (ram_mmu b)" using wf by (simp add: bus_wf_def)
  have "0 < round16 (length argv1 + 1)" by (simp add: round16_def)
  note u = boot_addresses [OF m this room, folded tos_def]
  obtain m1 b2 b3 where boot: "mmu_allocate_raw (ram_mmu b) (ucast STACK_SIZE) = Inr (?stk, m1)"
      "put_string (b\<lparr>ram_mmu := m1\<rparr>) argv0_bytes = Inr (tos, b2)" "put_string b2 argv1 = Inr (tos + 16, b3)"
    and b3: "grows (unat ?stk) b b3" "writable (ram_mmu b3) ?stk (4 * 1024)"
      "\<forall>k<15. bus_byte b3 (unat tos + k) = (argv0_bytes @ [0]) ! k"
      "\<forall>k\<le>length argv1. bus_byte b3 (unat (tos + 16) + k) = (argv1 @ [0]) ! k"
    using boot_blocks_ok [OF wf ready base len room, folded tos_def] by blast
  have "bus_wf b3" "bus_ready b3" using b3(1) by (simp_all add: grows_def)
  moreover have tos: "unat tos = unat ?stk + 4 * 1024" using u(1,2) by simp
  ultimately obtain b9 where b9: "push_all b3 tos ?ws = Inr (b9, tos - 24)" "grows (unat ?stk) b3 b9"
      "\<forall>k<6. mem_word (bus_byte b9) (tos - 4 * of_nat (Suc k)) 4 = ?ws ! k"
    and high: "\<And>x. unat tos \<le> x \<Longrightarrow> bus_byte b9 x = bus_byte b3 x"
    using push_all_ok [OF _ _ b3(2) order_refl, of tos ?ws] by auto
  have g9: "grows (unat ?stk) b b9" by (rule grows_trans [OF b3(1) b9(2)])
  let ?c = "(zero_core b)\<lparr>c_pc := entry e,
    c_registers := (replicate 32 0)[1 := 0x1337c0de, 2 := tos - 24], c_trap_handler := True, c_bus := b9\<rparr>"
  have "boot_core (cpu_init b) b e 0 argv1 = Inr ?c"
    unfolding boot_core_pushes boot(1) rbind.simps prod.case Let_def core_init_zero [OF refl]
    using boot(2,3) b9(1)
    by (simp add: tos_def [symmetric] zero_core_def del: push_all.simps)
  moreover have "map (\<lambda>k. mem_word (bus_byte b9) (tos - 24 + 4 * of_nat k) 4) [0..<6]
      = [42, tos, tos + 16, 0, 0, 0]"
    using spec [OF b9(3), of 5] spec [OF b9(3), of 4] spec [OF b9(3), of 3] spec [OF b9(3), of 2]
      spec [OF b9(3), of 1] spec [OF b9(3), of 0] by (simp add: upt_rec)
  moreover have "bus_byte b9 (unat tos + k) = (argv0_bytes @ [0]) ! k" if "k < 15" for k
    using b3(3) that by (simp add: high)
  moreover have "bus_byte b9 (unat (tos + 16) + k) = (argv1 @ [0]) ! k" if "k \<le> length argv1" for k
    using b3(4) that u(2,3) by (simp add: high)
  moreover have "core_wf ?c" using g9 by (simp add: core_wf_def zero_core_def grows_def)
  moreover have "REG_R ?c = (\<lambda>_. 0)(1 := 0x1337c0de, 2 := tos - 24)"
    by (rule REG_R_boot) simp
  ultimately show ?thesis
    using g9 u(1) by (intro exI [of _ ?c] conjI allI impI) (simp_all add: zero_core_def grows_def)
qed

text \<open>
  C17. What a program finds when it starts. On a well-formed bus with room for 4096 bytes of
  stack, the program name and the argument, setting up core 0 succeeds: the core is about to
  fetch at the entry point with an empty prefetch buffer and the trap handler set; \<open>x1\<close> is
  0x1337c0de; \<open>x2\<close> points 24 bytes below the top of the stack, at the words \<open>argc\<close>,
  \<open>argv[0]\<close>, \<open>argv[1]\<close> and three zeros; the two pointers lead to the zero-terminated
  strings. \<open>argc\<close> is always 42, although two arguments are passed.
\<close>

theorem boot_core_image:
  assumes wf: "bus_wf b" and ready: "dev_state (hd (mmio_devices b)) = READY"
    and base: "mmu_base (ram_mmu b) \<noteq> 0" and len: "length argv1 < 2 ^ 16"
    and room: "unat (mmu_curr_vaddr (ram_mmu b)) + 4112 + round16 (length argv1 + 1)
      < unat (mmu_base (ram_mmu b)) + unat (mmu_size (ram_mmu b))"
  defines "tos \<equiv> ucast (mmu_curr_vaddr (ram_mmu b)) + 4096 :: u32"
  shows "\<exists>c. boot_core (cpu_init b) b e 0 argv1 = Inr c \<and> core_wf c \<and> c_state c = FETCH
    \<and> c_pc c = entry e \<and> c_prefetch_cnt c = 0 \<and> c_trap_handler c
    \<and> c_registers c ! 1 = 0x1337c0de \<and> c_registers c ! 2 = tos - 24
    \<and> map (\<lambda>k. mem_word (bus_byte (c_bus c)) (tos - 24 + 4 * of_nat k) 4) [0..<6]
        = [42, tos, tos + 16, 0, 0, 0]
    \<and> (\<forall>k<15. bus_byte (c_bus c) (unat tos + k) = (argv0_bytes @ [0]) ! k)
    \<and> (\<forall>k\<le>length argv1. bus_byte (c_bus c) (unat (tos + 16) + k) = (argv1 @ [0]) ! k)"
  using boot_core_ok [OF wf ready [folded bus_ready_def] base len room, of e] unfolding tos_def
  by (elim exE conjE) (rule exI, intro conjI; assumption)

text \<open>A memory of two pages of 4096 bytes, as the allocator hands them out.\<close>

theorem boot_core_image_witness:
  "\<exists>c. boot_core (cpu_init (tiny_bus boot_mmu)) (tiny_bus boot_mmu) \<lparr>entry = 0x10100\<rparr> 0 [104, 105] = Inr c
    \<and> c_pc c = 0x10100 \<and> c_registers c ! 2 = 0x10fe8"
proof -
  have "round16 (Suc (Suc (Suc 0))) < 4080" by (simp add: round16_def)
  then show ?thesis
    using boot_core_image [of "tiny_bus boot_mmu" "[104, 105]" "\<lparr>entry = 0x10100\<rparr>"] by auto
qed

end
