(* ===== verification/User_Run.thy ===== *)
theory User_Run
  imports Emulator_Spec
begin

text \<open>
  Programs that make system calls. \<open>abi_call\<close> says what a call does to the guest's memory
  and to the host, without core, bus or traps; \<open>ustep\<close> is one instruction, its access
  granted or refused by the memory, or one call of a machine over program counter, registers,
  memory and host; the thread of
  \<^verbatim>\<open>src/emulator.c\<close> simulates every run of that machine, up to the call that ends the
  program.
\<close>

section \<open>The machine with system calls\<close>

definition guest_string :: "mmu_t \<Rightarrow> u32 \<Rightarrow> u8 list \<Rightarrow> bool" where
  "guest_string m a t \<longleftrightarrow> length t < 256 \<and> unat a + 256 < 2 ^ 32
     \<and> (\<forall>k\<le>length t. mmu_readable m (unat a + k))
     \<and> (\<forall>k<length t. mmu_byte m (unat a + k) = t ! k \<and> t ! k \<noteq> 0)
     \<and> mmu_byte m (unat a + length t) = 0"

text \<open>
  The calls that succeed in copying what they have to: \<open>abi_call os q r m s v m' s'\<close> with
  the registers \<open>r\<close> of the caller, the result \<open>v\<close>, and memory and host before and
  after. \<open>read\<close> and \<open>fstat\<close> need a buffer the guest may write and a RAM device that
  has not refused the last access (\<open>q\<close>), \<open>write\<close> and \<open>open\<close> a buffer it may
  read, and \<open>read\<close> a host that fills the buffer.
\<close>

inductive abi_call ::
    "'h os_t \<Rightarrow> bool \<Rightarrow> (reg \<Rightarrow> u32) \<Rightarrow> mmu_t \<Rightarrow> 'h \<Rightarrow> u32 \<Rightarrow> mmu_t \<Rightarrow> 'h \<Rightarrow> bool"
  for os :: "'h os_t" and q :: bool and r :: "reg \<Rightarrow> u32" where
  abi_read: "\<lbrakk> q; r 17 = SYS_read; os_read os s (r 10) True (r 12) = (v, bs, s');
    length bs = unat (r 12); r 12 \<noteq> 0; mmu_wr m (r 11) bs = Some m' \<rbrakk>
    \<Longrightarrow> abi_call os q r m s v m' s'"
| abi_write: "\<lbrakk> r 17 = SYS_write; r 10 \<le> 2; 0 < r 12; r 12 < 256;
    mmu_rd m (r 11) (unat (r 12)) = Some bs; os_write os s (r 10) bs = (v, s') \<rbrakk>
    \<Longrightarrow> abi_call os q r m s v m s'"
| abi_fstat: "\<lbrakk> q; r 17 = SYS_fstat; os_fstat os s (r 10) = (v, Some st, s');
    mmu_wr m (r 11) (take 112 st) = Some m'; length st = sizeof_stat \<rbrakk>
    \<Longrightarrow> abi_call os q r m s v m' s'"
| abi_close: "\<lbrakk> r 17 = SYS_close; r 10 \<ge> 3; os_close os s (r 10) = (v, s') \<rbrakk>
    \<Longrightarrow> abi_call os q r m s v m s'"
| abi_close_std: "\<lbrakk> r 17 = SYS_close; r 10 \<le> 2 \<rbrakk> \<Longrightarrow> abi_call os q r m s 0 m s"
| abi_open: "\<lbrakk> r 17 = SYS_open; guest_string m (r 10) t; os_open os s t (r 11) (r 12) = (v, s') \<rbrakk>
    \<Longrightarrow> abi_call os q r m s v m s'"
| abi_lseek: "\<lbrakk> r 17 = SYS_lseek; os_lseek os s (r 10) (ucast (r 11)) (r 12) = (p, s') \<rbrakk>
    \<Longrightarrow> abi_call os q r m s (ucast p) m s'"
| abi_brk_query: "\<lbrakk> r 17 = SYS_brk; r 10 = 0 \<rbrakk>
    \<Longrightarrow> abi_call os q r m s (ucast (mmu_curr_vaddr m)) m s"
| abi_brk: "\<lbrakk> r 17 = SYS_brk; r 10 \<noteq> 0; mmu_base m \<noteq> 0;
    mmu_allocate m 0x100 (MPERM_RAW OR MPERM_WRITE) = Inr (a, m') \<rbrakk>
    \<Longrightarrow> abi_call os q r m s (r 10) m' s"

text \<open>
  A state of the machine: program counter, registers, memory, whether the RAM device is known
  not to be in its error state when the next word has been fetched, and the host.
\<close>

type_synonym 'h user = "u32 \<times> (reg \<Rightarrow> u32) \<times> mmu_t \<times> bool \<times> 'h"

text \<open>What the word at the program counter is to the emulator.\<close>

definition word_at :: "mmu_t \<Rightarrow> u32 \<Rightarrow> outcome \<Rightarrow> bool" where
  "word_at m pc out \<longleftrightarrow> outcome (mem_word (mmu_byte m) pc 4) = out \<and> mmu_rd m pc 32 \<noteq> None"

definition at_ecall :: "mmu_t \<Rightarrow> u32 \<Rightarrow> bool" where
  "at_ecall m pc \<longleftrightarrow> word_at m pc (Traps 2 ENV_CALL_UMODE)"

lemma at_ecallI:
  assumes "mem_word (mmu_byte m) pc 4 = encode Ecall" and "mmu_rd m pc 32 \<noteq> None"
  shows "at_ecall m pc"
  using assms by (simp add: at_ecall_def word_at_def outcome_Ecall del: encode.simps)

text \<open>
  A refused access leaves the RAM device in its error state, until another access goes
  through or a jump or a call empties the prefetch buffer.
\<close>

inductive ustep :: "'h os_t \<Rightarrow> 'h user \<Rightarrow> 'h user \<Rightarrow> bool" for os :: "'h os_t" where
  u_insn: "mstep (pc, r, m) (pc', r', m')
    \<Longrightarrow> ustep os (pc, r, m, q, s) (pc', r', m', q \<or> settles_at (pc, r, m), s)"
| u_refused: "rstep (pc, r, m) (pc', r', m') \<Longrightarrow> ustep os (pc, r, m, q, s) (pc', r', m', False, s)"
| u_call: "\<lbrakk> at_ecall m pc; abi_call os q r m s v m' s' \<rbrakk>
    \<Longrightarrow> ustep os (pc, r, m, q, s) (pc + 4, r(10 := v), m', True, s')"

text \<open>
  The states in which a program ends itself: a call with the number of \<open>exit\<close>,
  \<open>exit_group\<close> or of a call that the emulator does not serve.
\<close>

definition served_calls :: "u32 set" where
  "served_calls = {SYS_brk, SYS_read, SYS_write, SYS_open, SYS_close, SYS_lseek, SYS_fstat}"

fun at_exit :: "'h user \<Rightarrow> bool" where
  "at_exit (pc, r, m, q, s) \<longleftrightarrow> at_ecall m pc \<and> r 17 \<notin> served_calls"

lemma exit_not_served: "SYS_exit \<notin> served_calls" "SYS_exit_group \<notin> served_calls"
  by (simp_all add: served_calls_def)

text \<open>
  The states whose next word traps as an illegal instruction, and those in which an assertion of
  the emulator fails: at a word that aborts, or at a \<open>write\<close> to a descriptor above 2 or of
  256 bytes or more.
\<close>

fun at_illegal :: "'h user \<Rightarrow> bool" where
  "at_illegal (pc, r, m, q, s) \<longleftrightarrow> (\<exists>n. word_at m pc (Traps n ILLEGAL_INSTRUCTION))"

fun at_abort :: "'h user \<Rightarrow> bool" where
  "at_abort (pc, r, m, q, s) \<longleftrightarrow> word_at m pc Aborts
     \<or> at_ecall m pc \<and> r 17 = SYS_write \<and> (2 < r 10 \<or> 256 \<le> r 12)"

inductive_cases ustepE: "ustep os (pc, r, m, q, s) u"

section \<open>Memories that differ in their state field\<close>

lemma same_memory_iff: "same_memory m' m \<longleftrightarrow> m' = m\<lparr>mmu_state := mmu_state m'\<rparr>"
  by (cases m; cases m') (auto simp: same_memory_def same_block_def)

lemma same_memory_wr:
  assumes same: "same_memory m' m" and wf: "mmu_wf m" and wr: "mmu_wr m a bs = Some m1"
  shows "\<exists>m1'. mmu_wr m' a bs = Some m1' \<and> same_memory m1' m1"
proof -
  note D = mmu_wr_SomeD [OF wf wr]
  have wf': "mmu_wf m'" using same wf same_memoryD(1) by blast
  have "same_memory (mmu_written m' bs a) (mmu_written m bs a)"
    using same by (simp add: same_memory_def same_block_def mmu_written_def offset_def)
  then show ?thesis
    using D by (simp add: mmu_wr_eq [OF wf' D(1)] same_memoryD [OF same])
qed

lemma same_memory_allocate:
  assumes same: "same_memory m' m" and al: "mmu_allocate m n p = Inr (a, m1)"
  shows "\<exists>m1'. mmu_allocate m' n p = Inr (a, m1') \<and> same_memory m1' m1"
proof -
  obtain st where m': "m' = m\<lparr>mmu_state := st\<rparr>" using same same_memory_iff by blast
  show ?thesis
    using al unfolding m'
    by (auto simp: mmu_allocate_def mmu_setperm_def Let_def rbind_Inr_iff same_memory_def same_block_def
        split: if_splits)
qed

section \<open>The emulator serves the calls\<close>

lemma write_multiple_take:
  assumes "unat n \<le> length src"
  shows "bus_write_multiple b a (take (unat n) src) n BYTE = bus_write_multiple b a src n BYTE"
proof -
  have "mem_get 0 (unat n) (take (unat n) src) = mem_get 0 (unat n) src"
    using assms by (simp add: mem_get_def segment_def)
  then have "mmu_write_from m (take (unat n) src) x n = mmu_write_from m src x n" for m x
    by (simp only: mmu_write_from_def Let_def)
  then have eq: "dev_write d m x (take (unat n) src) n BYTE = dev_write d m x src n BYTE" for d m x
    by (simp add: write_ram_def width_mult_def split: driver_t.split)
  show ?thesis unfolding bus_write_multiple_def eq by (rule refl)
qed

lemma copy_to_guest:
  assumes wf: "bus_wf b" and ready: "bus_ready b" and same: "same_memory (ram_mmu b) m"
    and n: "0 < unat (n :: u32)" "unat n \<le> length src" and wr: "mmu_wr m a (take (unat n) src) = Some m'"
  shows "\<exists>b'. bus_write_multiple b (ucast a) src (ucast n) BYTE = Inr (ucast n, b')
    \<and> bus_wf b' \<and> same_memory (ram_mmu b') m' \<and> dev_ranges b' = dev_ranges b"
proof -
  have "mmu_wf m" using wf same same_memoryD(1) by (auto simp: bus_wf_def)
  from same_memory_wr [OF same this wr] obtain m1 where
    m1: "mmu_wr (ram_mmu b) a (take (unat n) src) = Some m1" "same_memory m1 m'" by blast
  have len: "length (take (unat n) src) = unat n" using n(2) by simp
  note w = write_multiple_bytes [OF wf ready [unfolded bus_ready_def] n(1) len m1(1)]
  have "bus_write_multiple b (ucast a) src (ucast n) BYTE = Inr (ucast n, ram_after b READY BUS_OK m1)"
    using w(1) write_multiple_take [of "ucast n" src b "ucast a"] n(2) by simp
  then show ?thesis
    using w(2) m1(2) wf by (intro exI [of _ "ram_after b READY BUS_OK m1"]) simp
qed

text \<open>The outcome of a call that is served.\<close>

definition served :: "core_t \<Rightarrow> u32 \<Rightarrow> mmu_t \<Rightarrow> 'h \<Rightarrow> 'h sys_res \<Rightarrow> bool" where
  "served c v m' s' res \<longleftrightarrow> (\<exists>b'. res = Inr (True, c\<lparr>c_trap_regs := (c_trap_regs c)[10 := v], c_bus := b'\<rparr>, s')
     \<and> bus_wf b' \<and> same_memory (ram_mmu b') m' \<and> dev_ranges b' = dev_ranges (c_bus c))"

lemma servedI:
  assumes "bus_wf b'" and "same_memory (ram_mmu b') m'" and "dev_ranges b' = dev_ranges (c_bus c)"
  shows "served c v m' s' (Inr (True, c\<lparr>c_trap_regs := (c_trap_regs c)[10 := v], c_bus := b'\<rparr>, s'))"
    and "served c v m' s' (Inr (True, c\<lparr>c_bus := b', c_trap_regs := (c_trap_regs c)[10 := v]\<rparr>, s'))"
proof -
  show 1: "served c v m' s' (Inr (True, c\<lparr>c_trap_regs := (c_trap_regs c)[10 := v], c_bus := b'\<rparr>, s'))"
    using assms by (auto simp: served_def)
  have comm: "c\<lparr>c_bus := b', c_trap_regs := rs\<rparr> = c\<lparr>c_trap_regs := rs, c_bus := b'\<rparr>" for rs by simp
  show "served c v m' s' (Inr (True, c\<lparr>c_bus := b', c_trap_regs := (c_trap_regs c)[10 := v]\<rparr>, s'))"
    unfolding comm by (rule 1)
qed

lemma servedI_bus:
  assumes "bus_wf (c_bus c)" and "same_memory (ram_mmu (c_bus c)) m'"
  shows "served c v m' s' (Inr (True, c\<lparr>c_trap_regs := (c_trap_regs c)[10 := v]\<rparr>, s'))"
  unfolding served_def using assms by (intro exI [of _ "c_bus c"]) simp

lemma served_read:
  assumes c: "core_wf c" "bus_ready (c_bus c)" "same_memory (ram_mmu (c_bus c)) m" and h: "alloc_ok h 0"
    and os: "os_read os s fd True n = (v, bs, s')" "length bs = unat n" "n \<noteq> 0"
    and wr: "mmu_wr m a bs = Some m'"
  shows "served c v m' s' (sys_read os h c s fd a n)"
proof -
  have b: "bus_wf (c_bus c)" "length (c_trap_regs c) = NUMREGS" using c(1) by (auto simp: core_wf_def)
  have n: "0 < unat n" using os(3) by (metis unat_eq_zero neq0_conv)
  have mem: "blit 0 bs (malloc_bytes h (unat n)) = bs"
    using os(2) by (simp add: blit_def malloc_bytes_def)
  have "unat n \<le> length bs" "mmu_wr m a (take (unat n) bs) = Some m'" using os(2) wr by simp_all
  from copy_to_guest [OF b(1) c(2,3) n this] obtain b' where
    b': "bus_write_multiple (c_bus c) (ucast a) bs (ucast n) BYTE = Inr (ucast n, b')"
    "bus_wf b'" "same_memory (ram_mmu b') m'" "dev_ranges b' = dev_ranges (c_bus c)" by blast
  then show ?thesis
    using os(1) h mem b(2) servedI(1) [OF b'(2-4)] by (simp add: sys_read_def set_a0_eq)
qed

lemma served_fstat:
  assumes c: "core_wf c" "bus_ready (c_bus c)" "same_memory (ram_mmu (c_bus c)) m"
    and os: "os_fstat os s fd = (v, Some st, s')" "length st = sizeof_stat"
    and wr: "mmu_wr m a (take 112 st) = Some m'"
  shows "served c v m' s' (sys_fstat os h c s fd a)"
proof -
  have b: "bus_wf (c_bus c)" "length (c_trap_regs c) = NUMREGS" using c(1) by (auto simp: core_wf_def)
  have "\<exists>b'. bus_write_multiple (c_bus c) (ucast a) st (ucast (112 :: u32)) BYTE = Inr (ucast (112 :: u32), b')
      \<and> bus_wf b' \<and> same_memory (ram_mmu b') m' \<and> dev_ranges b' = dev_ranges (c_bus c)"
    by (rule copy_to_guest [OF b(1) c(2,3)]) (use os(2) wr in simp_all)
  then obtain b' where
    b': "bus_write_multiple (c_bus c) (ucast a) st 112 BYTE = Inr (112, b')"
    "bus_wf b'" "same_memory (ram_mmu b') m'" "dev_ranges b' = dev_ranges (c_bus c)" by auto
  then show ?thesis
    using os(1) b(2) servedI(1) [OF b'(2-4)] by (simp add: sys_fstat_def set_a0_eq)
qed

lemma served_write:
  assumes c: "core_wf c" "same_memory (ram_mmu (c_bus c)) m"
    and fd: "fd \<le> 2" and n: "0 < n" "n < 256" and rd: "mmu_rd m a (unat n) = Some bs"
    and os: "os_write os s fd bs = (v, s')"
  shows "served c v m s' (sys_write os h c s fd a n)"
proof -
  let ?b = "c_bus c"
  have b: "bus_wf ?b" "mmu_wf (ram_mmu ?b)" "length (c_trap_regs c) = NUMREGS"
    using c(1) by (auto simp: core_wf_def bus_wf_def)
  have rd': "mmu_rd (ram_mmu ?b) a (unat n) = Some bs" using rd same_memoryD(3) [OF c(2)] by simp
  note D = mmu_rd_SomeD [OF b(2) rd']
  have n': "0 < unat n" "unat n < 256" using n by (simp_all add: word_less_nat_alt)
  let ?b' = "ram_after ?b READY BUS_OK ((ram_mmu ?b)\<lparr>mmu_state := MMU_OK\<rparr>)"
  have "bus_read_multiple ?b (ucast a) (ucast n) BYTE = Inr (ucast n, Some bs, ?b')"
    using bus_read_multiple_ram [OF b(1) in_block_1 [OF D(3) D(1)], of "ucast n" BYTE] n' rd'
    by (simp add: width_bytes_def)
  moreover have "length bs = unat n"
    using D(3,5) in_block_offset(1) [OF b(2)] by simp
  then have "take (unat n) (blit 0 bs (malloc_bytes h 256)) = bs" by (simp add: blit_def)
  moreover have "same_memory (ram_mmu ?b') m"
    using same_memory_trans [OF _ c(2)] by simp
  ultimately show ?thesis
    using os fd n(2) b servedI(2) [of ?b' m c v s'] by (simp add: sys_write_def set_a0_eq bus_wf_ram_after)
qed

lemma served_open:
  assumes c: "core_wf c" "same_memory (ram_mmu (c_bus c)) m"
    and str: "guest_string m a t" and os: "os_open os s t fl md = (v, s')"
  shows "served c v m s' (sys_open os indet c s a fl md)"
proof -
  let ?b = "c_bus c"
  have b: "bus_wf ?b" "length (c_trap_regs c) = NUMREGS" using c(1) by (auto simp: core_wf_def)
  have byte: "bus_byte ?b = mmu_byte m" "bus_readable ?b = mmu_readable m"
    by (rule ext) (simp_all add: bus_byte_def bus_readable_def mmu_byte_def mmu_readable_def
        same_memoryD(2) [OF c(2)])
  have t: "length t < 256" "unat a + 256 < 2 ^ 32" "\<forall>k\<le>length t. mmu_readable m (unat a + k)"
    "\<forall>k<length t. mmu_byte m (unat a + k) = t ! k \<and> t ! k \<noteq> 0" "mmu_byte m (unat a + length t) = 0"
    using str by (auto simp: guest_string_def)
  obtain b' where b': "bus_read_string indet ?b (ucast a) 256 = Inr (of_nat (length t + 1), t @ [0], b')"
    "bus_status b' = BUS_OK" "bus_wf b'" "same_memory (ram_mmu b') (ram_mmu ?b)" "dev_ranges b' = dev_ranges ?b"
    using bus_read_string_ok [OF b(1) t(1,2), of indet] t(3-5) byte by auto
  have "takeWhile (\<lambda>x. x \<noteq> 0) (t @ [0]) = t"
    using t(4) by (simp add: takeWhile_append set_conv_nth) (metis)
  then show ?thesis
    using b'(1,2) os b(2) servedI(2) [OF b'(3) same_memory_trans [OF b'(4) c(2)] b'(5), of v s']
    by (simp add: sys_open_def set_a0_eq)
qed

lemma served_brk:
  assumes c: "core_wf c" "same_memory (ram_mmu (c_bus c)) m" and base: "mmu_base m \<noteq> 0"
    and x: "x \<noteq> 0" and al: "mmu_allocate m 0x100 10 = Inr (a, m')"
  shows "served c x m' s (sys_brk c s x)"
proof -
  let ?b = "c_bus c"
  have b: "bus_wf ?b" "mmu_wf (ram_mmu ?b)" "length (c_trap_regs c) = NUMREGS"
    using c(1) by (auto simp: core_wf_def bus_wf_def)
  obtain m1 where m1: "mmu_allocate (ram_mmu ?b) 0x100 10 = Inr (a, m1)" "same_memory m1 m'"
    using same_memory_allocate [OF c(2) al] by blast
  have "mmu_base (ram_mmu ?b) \<noteq> 0" using c(2) base by (simp add: same_memory_def same_block_def)
  note st = alloc_step [OF b(2) this _ m1(1)]
  have "bus_wf (?b\<lparr>ram_mmu := m1\<rparr>)"
    using b(1) st(1-3) by (auto simp: bus_wf_def ram_slot_def split: list.splits)
  moreover have "dev_ranges (?b\<lparr>ram_mmu := m1\<rparr>) = dev_ranges ?b" by (simp add: dev_ranges_def)
  ultimately show ?thesis
    using servedI(2) [of "?b\<lparr>ram_mmu := m1\<rparr>" m' c x s] m1 x b(3) by (simp add: sys_brk_def set_a0_eq)
qed

lemma abi_served:
  assumes call: "abi_call os q r m s v m' s'" and h: "alloc_ok h 0"
    and c: "core_wf c" "q \<Longrightarrow> bus_ready (c_bus c)" "same_memory (ram_mmu (c_bus c)) m"
  shows "served c v m' s' (handle_syscall os h indet c s (r 17) (r 10) (r 11) (r 12) x y)"
  using call
proof cases
  case (abi_read bs)
  then show ?thesis using served_read [OF c(1,2,3) h] by (simp add: handle_syscall_def)
next
  case (abi_write bs)
  then show ?thesis using served_write [OF c(1,3)] by (simp add: handle_syscall_def)
next
  case (abi_fstat st)
  then show ?thesis using served_fstat [OF c] by (simp add: handle_syscall_def)
next
  case abi_open
  then show ?thesis using served_open [OF c(1,3)] by (simp add: handle_syscall_def)
next
  case abi_close
  then have "\<not> r 10 \<le> 2" by (simp add: word_le_nat_alt)
  with abi_close c show ?thesis
    by (simp add: handle_syscall_def sys_close_def set_a0_eq core_wf_def servedI_bus)
next
  case (abi_brk a)
  then show ?thesis using served_brk [OF c(1,3), of "r 10" a m' s] by (simp add: handle_syscall_def)
qed (use c(1,3) in \<open>auto simp: handle_syscall_def sys_close_def sys_lseek_def sys_brk_def set_a0_eq core_wf_def
    same_memory_def same_block_def intro!: servedI_bus\<close>)

section \<open>The thread simulates the machine\<close>

definition follows :: "core_t \<Rightarrow> bool \<Rightarrow> mach \<Rightarrow> bool" where
  "follows c q \<mu> \<longleftrightarrow> simulates c \<mu> \<and> (q \<longrightarrow> steady c) \<and> c_trap_handler c"

text \<open>After \<open>k\<close> iterations the thread goes on as from \<open>c'\<close> and \<open>s'\<close>.\<close>

definition runs_to ::
    "'h os_t \<Rightarrow> (nat \<Rightarrow> alloc_env) \<Rightarrow> (nat \<Rightarrow> nat \<Rightarrow> u8) \<Rightarrow> core_t \<Rightarrow> 'h \<Rightarrow> nat \<Rightarrow> core_t \<Rightarrow> 'h \<Rightarrow> bool" where
  "runs_to os hs indet c s k c' s' \<longleftrightarrow> (\<forall>fuel. cpu_thread os hs indet (k + fuel) c s
     = cpu_thread os (\<lambda>i. hs (k + i)) (\<lambda>i. indet (k + i)) fuel c' s')"

lemma runs_to_0: "runs_to os hs indet c s 0 c s"
  by (simp add: runs_to_def)

lemma runs_to_trans:
  assumes "runs_to os hs indet c s k c1 s1"
    and "runs_to os (\<lambda>i. hs (k + i)) (\<lambda>i. indet (k + i)) c1 s1 l c2 s2"
  shows "runs_to os hs indet c s (k + l) c2 s2"
  using assms by (simp add: runs_to_def add.assoc)

lemma runs_to_end:
  assumes run: "runs_to os hs indet c s k d s'"
  shows "cpu_thread_step os (hs k) (indet k) d s' = Inl e \<Longrightarrow>
      cpu_thread os hs indet (k + Suc fuel) c s = Some (Inl e)"
    and "cpu_thread_step os (hs k) (indet k) d s' = Inr (False, d', s'') \<Longrightarrow>
      cpu_thread os hs indet (k + Suc fuel) c s = Some (Inr (d', s''))"
  unfolding spec [OF run [unfolded runs_to_def], of "Suc fuel"] by simp_all

lemma runs_to_cycles:
  assumes "untrapped (\<lambda>k. indet k 0) n c" and "core_cycles (\<lambda>k. indet k 0) n c = Inr d"
  shows "runs_to os hs indet c s n d s"
  unfolding runs_to_def by (intro allI thread_follows_cycles [where indet = indet, OF assms])

lemma insn_runs:
  assumes f: "follows c q \<mu>" and step: "mstep \<mu> \<mu>'"
  shows "\<exists>c'. follows c' (q \<or> settles_at \<mu>) \<mu>' \<and> runs_to os hs indet c s 5 c' s
    \<and> dev_ranges (c_bus c') = dev_ranges (c_bus c)"
proof -
  obtain c' where c': "core_cycles (\<lambda>k. indet k 0) 5 c = Inr c'" "untrapped (\<lambda>k. indet k 0) 5 c"
    "simulates c' \<mu>'" "steady c \<or> settles_at \<mu> \<longrightarrow> steady c'" "c_trap_handler c' = c_trap_handler c"
    "dev_ranges (c_bus c') = dev_ranges (c_bus c)"
    using simulates_step [OF _ step, of c "\<lambda>k. indet k 0"] f by (auto simp: follows_def)
  then have "follows c' (q \<or> settles_at \<mu>) \<mu>'" using f by (auto simp: follows_def)
  then show ?thesis
    by (intro exI [of _ c'] conjI runs_to_cycles [where indet = indet, OF c'(2,1)] c'(6))
qed

lemma refused_runs:
  assumes f: "follows c q \<mu>" and step: "rstep \<mu> \<mu>'"
  shows "\<exists>c'. follows c' False \<mu>' \<and> runs_to os hs indet c s 5 c' s \<and> dev_ranges (c_bus c') = dev_ranges (c_bus c)"
proof -
  obtain c' where c': "core_cycles (\<lambda>k. indet k 0) 5 c = Inr c'" "untrapped (\<lambda>k. indet k 0) 5 c"
    "simulates c' \<mu>'" "c_trap_handler c' = c_trap_handler c" "dev_ranges (c_bus c') = dev_ranges (c_bus c)"
    using simulates_refused [OF _ step, of c "\<lambda>k. indet k 0"] f by (auto simp: follows_def)
  then have "follows c' False \<mu>'" using f by (simp add: follows_def)
  then show ?thesis
    by (intro exI [of _ c'] conjI runs_to_cycles [where indet = indet, OF c'(2,1)] c'(5))
qed

text \<open>A core that follows the machine, while an instruction of it is under way.\<close>

lemma follows_flight:
  assumes "follows c q (pc, r, m)" and "in_flight c d"
  shows "core_wf d" "c_pc d = pc" "REG_R d = r" "c_registers d = c_registers c"
    "same_memory (ram_mmu (c_bus d)) m" "q \<Longrightarrow> bus_ready (c_bus d)" "c_trap_handler d"
    "dev_ranges (c_bus d) = dev_ranges (c_bus c)"
  using assms same_memory_trans [of "ram_mmu (c_bus d)" "ram_mmu (c_bus c)" m] in_flightD(3) [OF assms(2)]
  by (auto simp: follows_def simulates_def in_flight_def)

lemma follows_fetch:
  assumes "follows c q (pc, r, m)" and "word_at m pc out"
  shows "core_wf c" "c_state c = FETCH" "coherent c (c_pc c)" "fetchable c"
    "outcome (mem_word (imem (isa_of c)) (c_pc c) 4) = out"
proof -
  have "simulates c (pc, r, m)" "mmu_rd m pc 32 \<noteq> None" using assms by (auto simp: follows_def word_at_def)
  note c = simulates_at [OF this]
  then show "core_wf c" "c_state c = FETCH" "coherent c (c_pc c)" "fetchable c" by blast+
  show "outcome (mem_word (imem (isa_of c)) (c_pc c) 4) = out"
    using c(6,8) assms(2) by (simp add: word_at_def)
qed

text \<open>From the cycles of the core to the thread: it gets to a trap.\<close>

lemma trap_runs:
  assumes "core_cycles (\<lambda>k. indet k 0) n c = Inr c1" "untrapped (\<lambda>k. indet k 0) n c"
    and "core_cycle (indet n 0) c1 = Inr d" "c_state d = TRAP" "c_trap_state d = ENTER"
  shows "runs_to os hs indet c s (n + 1) d s"
proof -
  have "cpu_thread_step os (hs n) (indet n) c1 s = Inr (True, d, s)"
    using assms(3-5) by (simp add: cpu_thread_step_def)
  then have "runs_to os (\<lambda>i. hs (n + i)) (\<lambda>i. indet (n + i)) c1 s 1 d s"
    using cpu_thread_go [of os "\<lambda>i. hs (n + i)" "\<lambda>i. indet (n + i)" c1 s d s]
    by (simp add: runs_to_def del: cpu_thread.simps)
  then show ?thesis
    by (rule runs_to_trans [OF runs_to_cycles [where indet = indet, OF assms(2,1)]])
qed

lemma word_trap_runs:
  assumes f: "follows c q (pc, r, m)" and e: "word_at m pc (Traps n k)"
  shows "\<exists>d. runs_to os hs indet c s (n + 1) d s \<and> c_state d = TRAP \<and> c_trap_state d = ENTER
    \<and> csr_get (c_csr d) mcause = Inr (ucast (cause_code k)) \<and> in_flight c d \<and> n \<le> 2"
proof -
  from pipeline_traps [OF follows_fetch [OF f e], of "\<lambda>k. indet k 0"] obtain c1 d where
    1: "core_cycles (\<lambda>k. indet k 0) n c = Inr c1" "untrapped (\<lambda>k. indet k 0) n c"
      "core_cycle (indet n 0) c1 = Inr d" "c_state d = TRAP" "c_trap_state d = ENTER"
    and d: "csr_get (c_csr d) mcause = Inr (ucast (cause_code k))" "in_flight c d" "n = 1 \<or> n = 2" by blast
  show ?thesis using trap_runs [where indet = indet, OF 1, of os hs s] 1(4,5) d by auto
qed

text \<open>A trap that is no environment call ends the thread.\<close>

lemma trap_ends:
  assumes f: "follows c q (pc, r, m)" and fl: "in_flight c d" and run: "runs_to os hs indet c s n d s" "n \<le> l"
    and d: "c_state d = TRAP" "c_trap_state d = ENTER" "csr_get (c_csr d) mcause = Inr (ucast (k :: u32))" "k \<noteq> 8"
  shows "\<exists>e. (\<forall>fuel. cpu_thread os hs indet (l + 1 + fuel) c s = Some (Inr (e, s)))
    \<and> csr_get (c_csr e) mcause = Inr (ucast k) \<and> csr_get (c_csr e) mepc = Inr (ucast pc)
    \<and> REG_R e = r \<and> c_pc e = pc \<and> same_memory (ram_mmu (c_bus e)) m"
proof -
  note fl = follows_flight [OF f fl]
  have k: "csr_state (c_csr d) (unat mcause) = ucast k" using d(3) by (simp add: csr_get_def)
  have "cpu_thread_step os (hs n) (indet n) d s = Inr (False, handling d, s)"
    using handle_dispatch [OF d(1,2), of os "hs n" "indet n" s] fl(7) k d(4) by simp
  from runs_to_end(2) [OF run(1) this, of "l - n + fuel" for fuel]
  have ends: "cpu_thread os hs indet (l + 1 + fuel) c s = Some (Inr (handling d, s))" for fuel
    using run(2) by (simp del: cpu_thread.simps)
  have "csr_get (c_csr (handling d)) mcause = Inr (ucast k)" "csr_get (c_csr (handling d)) mepc = Inr (ucast pc)"
    using k fl(2) by (simp_all add: csr_get_def handling_def)
  moreover have "REG_R (handling d) = REG_R d" by (simp add: REG_R_def handling_def fun_eq_iff)
  moreover have "same_memory (ram_mmu (c_bus (handling d))) m" "c_pc (handling d) = pc"
    using fl(2,5) by (simp_all add: handling_def)
  ultimately show ?thesis
    using fl(3) ends by (intro exI [of _ "handling d"]) (simp del: cpu_thread.simps)
qed

lemma ecall_runs:
  assumes f: "follows c q (pc, r, m)" and e: "at_ecall m pc"
  shows "\<exists>d. runs_to os hs indet c s 3 d s \<and> c_state d = TRAP \<and> c_trap_state d = ENTER
    \<and> csr_get (c_csr d) mcause = Inr 8 \<and> in_flight c d"
  using word_trap_runs [OF f e [unfolded at_ecall_def], of os hs indet s] by simp

lemma REG_R_nth: "x \<noteq> 0 \<Longrightarrow> REG_R c x = c_registers c ! unat x"
  by (simp add: REG_R_def)

lemma REG_R_set:
  assumes "c_registers c' = (c_registers c)[10 := v]" and "length (c_registers c) = NUMREGS"
  shows "REG_R c' = (REG_R c)(10 := v)"
proof -
  have "REG_R c' = REG_R (REG_W c 10 v)" using assms(1) by (simp add: REG_R_def REG_W_def fun_eq_iff)
  then show ?thesis using REG_R_W [OF assms(2), of 10 v] by simp
qed

lemma call_runs:
  assumes f: "follows c q (pc, r, m)" and e: "at_ecall m pc" and call: "abi_call os q r m s v m' s'"
    and h: "\<forall>k. alloc_ok (hs k) 0"
  shows "\<exists>c'. follows c' True (pc + 4, r(10 := v), m') \<and> runs_to os hs indet c s 6 c' s'
    \<and> dev_ranges (c_bus c') = dev_ranges (c_bus c)"
proof -
  obtain d where run: "runs_to os hs indet c s 3 d s"
    and d: "c_state d = TRAP" "c_trap_state d = ENTER" "csr_get (c_csr d) mcause = Inr 8"
    and fl: "in_flight c d"
    using ecall_runs [OF f e, of os hs indet s] by blast
  note fl = follows_flight [OF f fl]
  have r: "r = REG_R c" using f by (simp add: follows_def simulates_def)
  have len: "length (c_registers c) = NUMREGS" using fl(1,4) by (simp add: core_wf_def)
  have hd: "core_wf (handling d)" "c_bus (handling d) = c_bus d" "c_trap_regs (handling d) = c_registers c"
    using fl(1,4) by (auto simp: handling_def core_wf_def)
  have "served (handling d) v m' s' (handle_syscall os (hs 3) (\<lambda>k. indet 3 (Suc k)) (handling d) s
      (c_registers d ! 17) (c_registers d ! 10) (c_registers d ! 11) (c_registers d ! 12)
      (c_registers d ! 13) (c_registers d ! 14))"
    using abi_served [OF call, of "hs 3" "handling d"] h hd fl(5,6) by (simp add: r REG_R_nth fl(4))
  then obtain b where b: "bus_wf b" "same_memory (ram_mmu b) m'"
    and dr: "dev_ranges b = dev_ranges (c_bus c)"
    and b4: "handle_syscall os (hs 3) (\<lambda>k. indet 3 (Suc k)) (handling d) s
      (c_registers d ! 17) (c_registers d ! 10) (c_registers d ! 11) (c_registers d ! 12)
      (c_registers d ! 13) (c_registers d ! 14)
     = Inr (True, (handling d)\<lparr>c_trap_regs := (c_registers c)[10 := v], c_bus := b\<rparr>, s')"
    by (auto simp: served_def hd(2,3) fl(8))
  from b4 have "handle_syscall os (hs (3 + 0)) (\<lambda>k. indet (3 + 0) (Suc k)) (handling d) s
      (c_registers d ! 17) (c_registers d ! 10) (c_registers d ! 11) (c_registers d ! 12)
      (c_registers d ! 13) (c_registers d ! 14)
     = Inr (True, (handling d)\<lparr>c_trap_regs := (c_registers c)[10 := v], c_bus := b\<rparr>, s')" by simp
  from ecall_return [where hs = "\<lambda>i. hs (3 + i)" and indet = "\<lambda>i. indet (3 + i)", OF d(1,2) fl(1,7) d(3) this]
  obtain c' where c': "\<forall>fuel. cpu_thread os (\<lambda>i. hs (3 + i)) (\<lambda>i. indet (3 + i)) (3 + fuel) d s
      = cpu_thread os (\<lambda>k. hs (3 + (k + 3))) (\<lambda>k. indet (3 + (k + 3))) fuel c' s'"
    "c_state c' = FETCH" "c_pc c' = c_pc d + 4" "c_prefetch_cnt c' = 0" "c_bus c' = b"
    "c_registers c' = (c_registers c)[10 := v]" "c_prefetch c' = c_prefetch d" "c_trap_handler c'"
    "c_trap_regs c' = (c_registers c)[10 := v]"
    by auto
  have "runs_to os (\<lambda>i. hs (3 + i)) (\<lambda>i. indet (3 + i)) d s 3 c' s'"
    using c'(1) by (simp add: runs_to_def add.commute [of _ 3])
  then have "runs_to os hs indet c s (3 + 3) c' s'" by (rule runs_to_trans [OF run])
  moreover have "core_wf c'"
    using fl(1) len c'(4-7,9) b(1) by (simp add: core_wf_def)
  then have "follows c' True (pc + 4, r(10 := v), m')"
    using c' b(2) fl(2) REG_R_set [OF c'(6) len] r
    by (simp add: follows_def simulates_def coherent_def window_def steady_def)
  ultimately show ?thesis using c'(5) dr by auto
qed

lemma exit_runs:
  assumes f: "follows c q (pc, r, m)" and e: "at_exit (pc, r, m, q, s)"
  shows "\<exists>d. (\<forall>fuel. cpu_thread os hs indet (4 + fuel) c s = Some (Inr (d, s)))
    \<and> REG_R d = r \<and> c_pc d = pc \<and> same_memory (ram_mmu (c_bus d)) m"
proof -
  have e': "at_ecall m pc" "r 17 \<notin> served_calls" using e by auto
  obtain d where run: "runs_to os hs indet c s 3 d s"
    and d: "c_state d = TRAP" "c_trap_state d = ENTER" "csr_get (c_csr d) mcause = Inr 8"
    and fl: "in_flight c d"
    using ecall_runs [OF f e'(1), of os hs indet s] by blast
  note fl = follows_flight [OF f fl]
  have "c_registers d ! 17 \<notin> {SYS_brk, SYS_read, SYS_write, SYS_open, SYS_close, SYS_lseek, SYS_fstat}"
    using e'(2) by (auto simp: REG_R_nth fl(3) [symmetric] served_calls_def)
  from exit_ends_thread [OF d(1,2) fl(1,7) d(3) this]
  have "cpu_thread os hs indet (3 + Suc fuel) c s = Some (Inr (handling d, s))" for fuel
    using run unfolding runs_to_def by metis
  then have "cpu_thread os hs indet (4 + fuel) c s = Some (Inr (handling d, s))" for fuel
    by (simp add: eval_nat_numeral del: cpu_thread.simps)
  moreover have "REG_R (handling d) = REG_R d" by (simp add: REG_R_def handling_def fun_eq_iff)
  ultimately show ?thesis
    using fl(2,3,5) by (intro exI [of _ "handling d"]) (simp add: handling_def)
qed

lemma illegal_runs:
  assumes f: "follows c q (pc, r, m)" and e: "at_illegal (pc, r, m, q, s)"
  shows "\<exists>d. (\<forall>fuel. cpu_thread os hs indet (4 + fuel) c s = Some (Inr (d, s)))
    \<and> csr_get (c_csr d) mcause = Inr 2 \<and> csr_get (c_csr d) mepc = Inr (ucast pc)
    \<and> REG_R d = r \<and> c_pc d = pc \<and> same_memory (ram_mmu (c_bus d)) m"
proof -
  obtain n where "word_at m pc (Traps n ILLEGAL_INSTRUCTION)" using e by auto
  from word_trap_runs [OF f this, of os hs indet s] obtain d where
    run: "runs_to os hs indet c s (n + 1) d s" "n + 1 \<le> 3"
    and d: "c_state d = TRAP" "c_trap_state d = ENTER" "csr_get (c_csr d) mcause = Inr (ucast (2 :: u32))"
    and fl: "in_flight c d" by auto
  from trap_ends [OF f fl run d] show ?thesis by (simp del: cpu_thread.simps)
qed

lemma fault_runs:
  assumes f: "follows c q (pc, r, m)" and w: "word_at m pc (Runs i)"
    and at: "access_at (action_of i pc r) = Some p" and no: "find_dev (mmio_devices (c_bus c)) (ucast p) = None"
  shows "\<exists>d. (\<forall>fuel. cpu_thread os hs indet (5 + fuel) c s = Some (Inr (d, s)))
    \<and> csr_get (c_csr d) mcause = Inr (ucast (cause_code (access_fault (action_of i pc r))))
    \<and> csr_get (c_csr d) mepc = Inr (ucast pc)
    \<and> REG_R d = r \<and> c_pc d = pc \<and> same_memory (ram_mmu (c_bus d)) m"
proof -
  have c: "c_pc c = pc" "REG_R c = r" using f by (auto simp: follows_def simulates_def)
  obtain c3 d where 1: "core_cycles (\<lambda>k. indet k 0) 3 c = Inr c3" "untrapped (\<lambda>k. indet k 0) 3 c"
      "core_cycle (indet 3 0) c3 = Inr d" "c_state d = TRAP" "c_trap_state d = ENTER"
    and d: "csr_get (c_csr d) mcause = Inr (ucast (cause_code (access_fault (action_of i pc r))))" "in_flight c d"
    using pipeline_unmapped [OF follows_fetch [OF f w], of p "\<lambda>k. indet k 0"] at no c by auto
  have run: "runs_to os hs indet c s (3 + 1) d s" by (rule trap_runs [where indet = indet, OF 1])
  have "cause_code (access_fault (action_of i pc r)) \<noteq> 8" by (cases "action_of i pc r") simp_all
  from trap_ends [OF f d(2) run _ 1(4,5) d(1) this, of 4] show ?thesis by (simp del: cpu_thread.simps)
qed

lemma word_abort_runs:
  assumes f: "follows c q (pc, r, m)" and w: "word_at m pc Aborts"
  shows "cpu_thread os hs indet (3 + fuel) c s = Some (Inl Assert_Failed)"
proof -
  from pipeline_aborts [OF follows_fetch [OF f w], of "\<lambda>k. indet k 0"] obtain d where
    1: "core_cycles (\<lambda>k. indet k 0) 2 c = Inr d" "untrapped (\<lambda>k. indet k 0) 2 c"
    and 2: "core_cycle (indet 2 0) d = Inl Assert_Failed" by blast
  have run: "runs_to os hs indet c s 2 d s" by (rule runs_to_cycles [where indet = indet, OF 1(2,1)])
  have "cpu_thread_step os (hs 2) (indet 2) d s = Inl Assert_Failed" using 2 by (simp add: cpu_thread_step_def)
  from runs_to_end(1) [OF run this, of fuel] show ?thesis
    by (simp add: eval_nat_numeral del: cpu_thread.simps)
qed

lemma write_abort_runs:
  assumes f: "follows c q (pc, r, m)" and e: "at_ecall m pc" and w: "r 17 = SYS_write" "2 < r 10 \<or> 256 \<le> r 12"
  shows "cpu_thread os hs indet (4 + fuel) c s = Some (Inl Assert_Failed)"
proof -
  obtain d where run: "runs_to os hs indet c s 3 d s"
    and d: "c_state d = TRAP" "c_trap_state d = ENTER" "csr_get (c_csr d) mcause = Inr 8"
    and fl: "in_flight c d"
    using ecall_runs [OF f e, of os hs indet s] by blast
  note fl = follows_flight [OF f fl]
  have len: "length (c_registers d) = NUMREGS" using fl(1) by (simp add: core_wf_def)
  have k: "(ucast (csr_state (c_csr d) (unat mcause)) :: u32) = 8" using d(3) by (simp add: csr_get_def)
  have "c_registers d ! 17 = SYS_write" "2 < c_registers d ! 10 \<or> 256 \<le> c_registers d ! 12"
    using w by (simp_all add: REG_R_nth fl(3) [symmetric])
  then have "cpu_thread_step os (hs 3) (indet 3) d s = Inl Assert_Failed"
    using handle_step [OF d(1,2) len fl(7) k, of os "hs 3" "indet 3" s]
    by (auto simp: handle_syscall_def sys_write_def c_assert_def not_le not_less)
  from runs_to_end(1) [OF run this, of fuel] show ?thesis
    by (simp add: eval_nat_numeral del: cpu_thread.simps)
qed

lemma abort_runs:
  assumes f: "follows c q (pc, r, m)" and e: "at_abort (pc, r, m, q, s)"
  shows "cpu_thread os hs indet (4 + fuel) c s = Some (Inl Assert_Failed)"
proof (cases "word_at m pc Aborts")
  case True
  from word_abort_runs [OF f this, of os hs indet "Suc fuel" s] show ?thesis
    by (simp add: eval_nat_numeral del: cpu_thread.simps)
next
  case False
  then show ?thesis using e write_abort_runs [OF f] by (auto simp del: cpu_thread.simps)
qed

text \<open>
  The iterations of the thread, as the runs of the simulation; its states are a core and the
  host. The address ranges \<open>ds\<close> of the devices stay as they are.
\<close>

fun user_rel :: "(u32 \<times> u32) list \<Rightarrow> core_t \<times> 'h \<Rightarrow> 'h user \<Rightarrow> bool" where
  "user_rel ds (c, t) (pc, r, m, q, s) \<longleftrightarrow> follows c q (pc, r, m) \<and> t = s \<and> dev_ranges (c_bus c) = ds"

fun thread_to ::
    "'h os_t \<Rightarrow> (nat \<Rightarrow> alloc_env) \<Rightarrow> (nat \<Rightarrow> nat \<Rightarrow> u8) \<Rightarrow> nat \<Rightarrow> core_t \<times> 'h \<Rightarrow> nat \<Rightarrow> core_t \<times> 'h \<Rightarrow> bool" where
  "thread_to os hs indet t (c, s) k (c', s') \<longleftrightarrow> ((\<forall>i. alloc_ok (hs i) 0) \<longrightarrow>
     runs_to os (\<lambda>i. hs (t + i)) (\<lambda>i. indet (t + i)) c s k c' s')"

lemma user_step:
  assumes "user_rel ds x u" and "ustep os u u'"
  shows "\<exists>y k. 5 \<le> k \<and> k \<le> 6 \<and> user_rel ds y u' \<and> thread_to os hs indet t x k y"
  using assms(2)
proof cases
  case (u_insn pc r m pc' r' m' q s)
  then obtain c where x: "x = (c, s)" "follows c q (pc, r, m)" "dev_ranges (c_bus c) = ds"
    using assms(1) by (cases x) auto
  from insn_runs [OF x(2) u_insn(3), of os "\<lambda>i. hs (t + i)" "\<lambda>i. indet (t + i)" s] obtain c' where
    "follows c' (q \<or> settles_at (pc, r, m)) (pc', r', m')"
    "runs_to os (\<lambda>i. hs (t + i)) (\<lambda>i. indet (t + i)) c s 5 c' s"
    "dev_ranges (c_bus c') = dev_ranges (c_bus c)" by blast
  then show ?thesis using x u_insn(2) by (intro exI [of _ "(c', s)"] exI [of _ 5]) simp
next
  case (u_refused pc r m pc' r' m' q s)
  then obtain c where x: "x = (c, s)" "follows c q (pc, r, m)" "dev_ranges (c_bus c) = ds"
    using assms(1) by (cases x) auto
  from refused_runs [OF x(2) u_refused(3), of os "\<lambda>i. hs (t + i)" "\<lambda>i. indet (t + i)" s] obtain c' where
    "follows c' False (pc', r', m')" "runs_to os (\<lambda>i. hs (t + i)) (\<lambda>i. indet (t + i)) c s 5 c' s"
    "dev_ranges (c_bus c') = dev_ranges (c_bus c)" by blast
  then show ?thesis using x u_refused(2) by (intro exI [of _ "(c', s)"] exI [of _ 5]) simp
next
  case (u_call m pc q r s v m' s')
  then obtain c where x: "x = (c, s)" "follows c q (pc, r, m)" "dev_ranges (c_bus c) = ds"
    using assms(1) by (cases x) auto
  show ?thesis
  proof (cases "\<forall>i. alloc_ok (hs i) 0")
    case True
    then have "\<forall>i. alloc_ok (hs (t + i)) 0" by blast
    from call_runs [OF x(2) u_call(3,4) this, of "\<lambda>i. indet (t + i)"] obtain c' where
      "follows c' True (pc + 4, r(10 := v), m')"
      "runs_to os (\<lambda>i. hs (t + i)) (\<lambda>i. indet (t + i)) c s 6 c' s'"
      "dev_ranges (c_bus c') = dev_ranges (c_bus c)" by blast
    then show ?thesis using x u_call(2) by (intro exI [of _ "(c', s')"] exI [of _ 6]) simp
  next
    case False
    have "\<forall>i. alloc_ok ((\<lambda>i. plenty) i) 0" by (simp add: plenty_def)
    from call_runs [OF x(2) u_call(3,4) this, of "\<lambda>i. indet (t + i)"] obtain c' where
      "follows c' True (pc + 4, r(10 := v), m')" "dev_ranges (c_bus c') = dev_ranges (c_bus c)" by blast
    then show ?thesis using x u_call(2) False by (intro exI [of _ "(c', s')"] exI [of _ 6]) auto
  qed
qed

interpretation thread_sim: simulation "user_rel ds" "ustep os" "thread_to os hs indet" 5 6 for ds os hs indet
proof
  fix x :: "core_t \<times> 'a" and u t
  show "thread_to os hs indet t x 0 x" by (cases x) (simp add: runs_to_0)
next
  fix t and x :: "core_t \<times> 'a" and k y l z
  assume "thread_to os hs indet t x k y" and "thread_to os hs indet (t + k) y l z"
  then show "thread_to os hs indet t x (k + l) z"
    using runs_to_trans [of os "\<lambda>i. hs (t + i)" "\<lambda>i. indet (t + i)"]
    by (cases x; cases y; cases z) (auto simp: add.assoc)
qed (rule user_step)

lemma user_steps:
  assumes "follows c q (pc, r, m)" and "(ustep os ^^ n) (pc, r, m, q, s) (pc', r', m', q', s')"
    and "\<forall>k. alloc_ok (hs k) 0"
  shows "\<exists>c' k. 5 * n \<le> k \<and> k \<le> 6 * n \<and> follows c' q' (pc', r', m') \<and> runs_to os hs indet c s k c' s'
    \<and> dev_ranges (c_bus c') = dev_ranges (c_bus c)"
proof -
  have "user_rel (dev_ranges (c_bus c)) (c, s) (pc, r, m, q, s)" using assms(1) by simp
  from thread_sim.steps_run [OF this assms(2), of hs indet 0] assms(3) show ?thesis by auto
qed

text \<open>A state in which the thread ends ends every run that gets there.\<close>

lemma user_steps_end:
  assumes "follows c q (pc, r, m)" and "(ustep os ^^ n) (pc, r, m, q, s) (pc', r', m', q', s')"
    and "\<forall>k. alloc_ok (hs k) 0"
    and ends: "\<And>c' hs indet. follows c' q' (pc', r', m') \<Longrightarrow> dev_ranges (c_bus c') = dev_ranges (c_bus c) \<Longrightarrow>
      \<exists>d. (\<forall>fuel. cpu_thread os hs indet (l + fuel) c' s' = Some (out d)) \<and> P d"
  shows "\<exists>d k. k \<le> 6 * n + l \<and> (\<forall>fuel. cpu_thread os hs indet (k + fuel) c s = Some (out d)) \<and> P d"
proof -
  obtain c' k where 1: "k \<le> 6 * n" "follows c' q' (pc', r', m')" "runs_to os hs indet c s k c' s'"
    and ds: "dev_ranges (c_bus c') = dev_ranges (c_bus c)"
    using user_steps [OF assms(1-3), of indet] by blast
  from ends [OF 1(2) ds, of "\<lambda>i. hs (k + i)" "\<lambda>i. indet (k + i)"] obtain d where
    d: "\<And>fuel. cpu_thread os (\<lambda>i. hs (k + i)) (\<lambda>i. indet (k + i)) (l + fuel) c' s' = Some (out d)" "P d"
    by blast
  have "cpu_thread os hs indet (k + l + fuel) c s = Some (out d)" for fuel
    using spec [OF 1(3) [unfolded runs_to_def], of "l + fuel"] d(1) [of fuel] by (simp only: add.assoc)
  then show ?thesis using 1(1) d(2) by (intro exI [of _ d] exI [of _ "k + l"]) simp
qed

text \<open>
  C3. The thread serves programs that make system calls. From a core that follows the machine,
  with a heap that does not fail, \<open>n\<close> instructions and calls of the machine are between
  \<open>5 n\<close> and \<open>6 n\<close> iterations of the thread (five an instruction, six a call): it goes on with a core
  that follows the machine where it got to, and with the host as the calls left it. The
  instructions may be loads and stores that the memory refuses: a store is lost, a load of a
  half-word or word gives 0, as for data that nothing has written yet.
\<close>

theorem user_run:
  assumes "follows c q (pc, r, m)" and "(ustep os ^^ n) (pc, r, m, q, s) (pc', r', m', q', s')"
    and "\<forall>k. alloc_ok (hs k) 0"
  shows "\<exists>c' k. 5 * n \<le> k \<and> k \<le> 6 * n \<and> follows c' q' (pc', r', m') \<and> (\<forall>fuel. cpu_thread os hs indet (k + fuel) c s
     = cpu_thread os (\<lambda>i. hs (k + i)) (\<lambda>i. indet (k + i)) fuel c' s')"
  using user_steps [OF assms, of indet] unfolding runs_to_def by blast

text \<open>A program that closes its standard input and exits.\<close>

definition exit_mmu :: mmu_t where
  "exit_mmu = (tiny_mmu 5)\<lparr>mmu_data := [0x93, 0x08, 0x90, 0x03, 0x73, 0, 0, 0,
     0x93, 0x08, 0xd0, 0x05, 0x73, 0, 0, 0] @ replicate 48 0\<rparr>"

definition exit_core :: core_t where
  "exit_core = (zero_core (tiny_bus exit_mmu))\<lparr>c_trap_handler := True, c_pc := 0x100\<rparr>"

lemma exit_mmu_simps [simp]:
  "mmu_wf exit_mmu" "in_block exit_mmu a n = in_block (tiny_mmu 5) a n"
  "allowed exit_mmu a n p = allowed (tiny_mmu 5) a n p"
  by (simp_all add: exit_mmu_def tiny_mmu_def mmu_wf_def in_block_def allowed_def offset_def)

lemma exit_mmu_rd: "256 \<le> unat a \<Longrightarrow> unat a + 32 \<le> 320 \<Longrightarrow> \<exists>bs. mmu_rd exit_mmu a 32 = Some bs"
  by (simp add: mmu_rd_eq perm_allows_def)

lemma exit_mmu_words:
  "mem_word (mmu_byte exit_mmu) 0x100 4 = encode (OpImm Addi 17 0 57)"
  "mem_word (mmu_byte exit_mmu) 0x104 4 = encode Ecall"
  "mem_word (mmu_byte exit_mmu) 0x108 4 = encode (OpImm Addi 17 0 93)"
  "mem_word (mmu_byte exit_mmu) 0x10c 4 = encode Ecall"
  by code_simp+

lemma exit_follows_at: "follows (exit_core\<lparr>c_pc := a\<rparr>) True (a, \<lambda>_. 0, exit_mmu)"
proof -
  have "unat (r :: reg) < 32" for r using unsigned_less [of r, where 'a = nat] by simp
  then have "REG_R (exit_core\<lparr>c_pc := a\<rparr>) = (\<lambda>_. 0)"
    by (simp add: exit_core_def zero_core_def REG_R_def fun_eq_iff)
  then show ?thesis
    by (simp add: follows_def simulates_def exit_core_def zero_core_def core_wf_def coherent_def
        window_def steady_def)
qed

lemma exit_follows: "follows exit_core True (0x100, \<lambda>_. 0, exit_mmu)"
  using exit_follows_at [of "0x100"] by (simp add: exit_core_def)

lemma put_step:
  assumes "mem_word (mmu_byte m) pc 4 = encode i" and "\<exists>bs. mmu_rd m pc 32 = Some bs" and "i \<noteq> Ecall"
    and "action_of i pc r = Put d v"
    and "emu_step i \<lparr>ipc = pc, ireg = r, imem = mmu_byte m\<rparr> = t"
  shows "ustep os (pc, r, m, q, s) (ipc t, ireg t, m, q, s)"
proof -
  have w: "outcome (mem_word (mmu_byte m) pc 4) = Runs i" unfolding assms(1) by (rule outcome_insn [OF assms(3)])
  have "mmu_rd m pc 32 \<noteq> None" using assms(2) by simp
  from mstep.step [where act = "Put d v" and r = r, OF w this] have "mstep (pc, r, m) (ipc t, ireg t, m)"
    using assms(4,5) by (simp add: same_code_def)
  from u_insn [OF this, of os q s] show ?thesis using w assms(4) by (simp add: settles_def)
qed

lemma exit_usteps:
  "(ustep os ^^ 3) (0x100, \<lambda>_. 0, exit_mmu, True, s) (0x10c, (\<lambda>_. 0)(17 := 93), exit_mmu, True, s)"
proof -
  let ?r = "(\<lambda>_. 0)(17 := 57) :: reg \<Rightarrow> u32"
  have 1: "ustep os (0x100, \<lambda>_. 0, exit_mmu, True, s) (0x104, ?r, exit_mmu, True, s)"
    using exit_mmu_rd [of "0x100"] put_step [OF exit_mmu_words(1), of "\<lambda>_. 0" 17 57, OF _ _ _ refl]
    by (auto simp: isa_next_def isa_put_def)
  have "at_ecall exit_mmu 0x104" "abi_call os True ?r exit_mmu s 0 exit_mmu s"
    using exit_mmu_rd [of "0x104"] at_ecallI [OF exit_mmu_words(2)] by (auto intro!: abi_close_std)
  from u_call [OF this] have 2: "ustep os (0x104, ?r, exit_mmu, True, s) (0x108, ?r, exit_mmu, True, s)"
    by (simp add: fun_upd_idem)
  have 3: "ustep os (0x108, ?r, exit_mmu, True, s) (0x10c, (\<lambda>_. 0)(17 := 93), exit_mmu, True, s)"
    using exit_mmu_rd [of "0x108"] put_step [OF exit_mmu_words(3), of ?r 17 93, OF _ _ _ refl]
    by (auto simp: isa_next_def isa_put_def)
  show ?thesis unfolding numeral_3_eq_3 using 1 2 3 by auto
qed

lemma plenty_ok: "\<forall>k :: nat. alloc_ok plenty 0"
  by (simp add: plenty_def)

theorem user_run_witness:
  "\<exists>c' k. k \<le> 18 \<and> c_pc c' = 0x10c \<and> (\<forall>fuel. cpu_thread test_os (\<lambda>_. plenty) (\<lambda>_ _. 0) (k + fuel) exit_core 0
     = cpu_thread test_os (\<lambda>_. plenty) (\<lambda>_ _. 0) fuel c' 0)"
  using user_run [OF exit_follows exit_usteps [of test_os 0], of "\<lambda>_. plenty" "\<lambda>_ _. 0", OF plenty_ok]
  by (auto simp: follows_def simulates_def simp del: cpu_thread.simps)

text \<open>
  C4. Programs end. If the machine reaches, after \<open>n\<close> instructions and calls, an \<open>ECALL\<close>
  with the number of \<open>exit\<close>, \<open>exit_group\<close> or a call that is not served, then the thread
  ends within \<open>6 n + 4\<close> iterations, with the registers, the memory and the host that the
  machine has there.
\<close>

theorem program_ends:
  assumes "follows c q (pc, r, m)" and "(ustep os ^^ n) (pc, r, m, q, s) (pc', r', m', q', s')"
    and "\<forall>k. alloc_ok (hs k) 0" and "at_exit (pc', r', m', q', s')"
  shows "\<exists>d k. k \<le> 6 * n + 4 \<and> (\<forall>fuel. cpu_thread os hs indet (k + fuel) c s = Some (Inr (d, s')))
    \<and> REG_R d = r' \<and> c_pc d = pc' \<and> same_memory (ram_mmu (c_bus d)) m'"
  by (rule user_steps_end [where out = "\<lambda>d. Inr (d, s')", OF assms(1-3)]) (rule exit_runs [OF _ assms(4)])

theorem program_ends_witness:
  "\<exists>d k. k \<le> 22 \<and> cpu_thread test_os (\<lambda>_. plenty) (\<lambda>_ _. 0) k exit_core 0 = Some (Inr (d, 0))
     \<and> REG_R d 17 = 93"
proof -
  have "at_exit (0x10c, (\<lambda>_. 0)(17 := 93), exit_mmu, True, 0)"
    using exit_mmu_rd [of "0x10c"] at_ecallI [OF exit_mmu_words(4)] by (auto simp: served_calls_def)
  with program_ends [OF exit_follows exit_usteps [of test_os 0], of "\<lambda>_. plenty" "\<lambda>_ _. 0", OF plenty_ok]
  obtain d k where "k \<le> 22" "\<And>fuel. cpu_thread test_os (\<lambda>_. plenty) (\<lambda>_ _. 0) (k + fuel) exit_core 0 = Some (Inr (d, 0))"
    "REG_R d = (\<lambda>_. 0)(17 := 93)" by (auto simp del: cpu_thread.simps)
  from this(1,3) this(2) [of 0] show ?thesis by (intro exI [of _ d] exI [of _ k]) simp
qed

text \<open>
  C32. Illegal instructions end the program. If the machine reaches, after \<open>n\<close> instructions
  and calls, a word that traps as an illegal instruction (one whose low seven bits are no opcode
  of the decode table, such as \<open>FENCE\<close>, or a register instruction with an unknown
  function), then the thread ends within \<open>6 n + 4\<close> iterations: the trap handler serves
  environment calls only. The core is left with cause 2 and the address of the word in its
  registers \<open>mcause\<close> and \<open>mepc\<close>.
\<close>

theorem illegal_ends:
  assumes "follows c q (pc, r, m)" and "(ustep os ^^ n) (pc, r, m, q, s) (pc', r', m', q', s')"
    and "\<forall>k. alloc_ok (hs k) 0" and "at_illegal (pc', r', m', q', s')"
  shows "\<exists>d k. k \<le> 6 * n + 4 \<and> (\<forall>fuel. cpu_thread os hs indet (k + fuel) c s = Some (Inr (d, s')))
    \<and> csr_get (c_csr d) mcause = Inr 2 \<and> csr_get (c_csr d) mepc = Inr (ucast pc')
    \<and> REG_R d = r' \<and> c_pc d = pc' \<and> same_memory (ram_mmu (c_bus d)) m'"
  by (rule user_steps_end [where out = "\<lambda>d. Inr (d, s')", OF assms(1-3)]) (rule illegal_runs [OF _ assms(4)])

text \<open>The zeros behind the same program.\<close>

theorem illegal_ends_witness:
  "\<exists>d k. k \<le> 4 \<and> cpu_thread test_os (\<lambda>_. plenty) (\<lambda>_ _. 0) k (exit_core\<lparr>c_pc := 0x120\<rparr>) 0 = Some (Inr (d, 0))
     \<and> csr_get (c_csr d) 0x342 = Inr 2"
proof -
  have run: "(ustep test_os ^^ 0) (0x120, \<lambda>_. 0, exit_mmu, True, 0) (0x120, \<lambda>_. 0, exit_mmu, True, 0)" by simp
  have "outcome (mem_word (mmu_byte exit_mmu) 0x120 4) = Traps 1 ILLEGAL_INSTRUCTION" by code_simp
  then have "at_illegal (0x120, \<lambda>_. 0, exit_mmu, True, 0)" using exit_mmu_rd [of "0x120"] by (auto simp: word_at_def)
  from illegal_ends [where hs = "\<lambda>_. plenty" and indet = "\<lambda>_ _. 0", OF exit_follows_at run plenty_ok this]
  obtain d k where "k \<le> 4"
    "\<And>fuel. cpu_thread test_os (\<lambda>_. plenty) (\<lambda>_ _. 0) (k + fuel) (exit_core\<lparr>c_pc := 0x120\<rparr>) 0 = Some (Inr (d, 0))"
    "csr_get (c_csr d) 0x342 = Inr 2"
    by (auto simp del: cpu_thread.simps)
  from this(1,3) this(2) [of 0] show ?thesis by (intro exI [of _ d] exI [of _ k]) simp
qed

text \<open>
  C33. Failed assertions end the emulator. If the machine reaches, after \<open>n\<close> instructions
  and calls, a word that fails an assertion (a load or store of a reserved width, or \<open>JALR\<close>
  with a \<open>funct3\<close> other than 0), or a \<open>write\<close> to a descriptor above 2 or of 256 bytes
  or more, then within \<open>6 n + 4\<close> iterations the thread, and with it the whole emulator,
  aborts: a guest program can stop its host process.
\<close>

theorem failed_assertion_aborts:
  assumes "follows c q (pc, r, m)" and "(ustep os ^^ n) (pc, r, m, q, s) (pc', r', m', q', s')"
    and "\<forall>k. alloc_ok (hs k) 0" and "at_abort (pc', r', m', q', s')"
  shows "\<exists>k. k \<le> 6 * n + 4 \<and> (\<forall>fuel. cpu_thread os hs indet (k + fuel) c s = Some (Inl Assert_Failed))"
proof -
  have "\<exists>d :: core_t. (\<forall>fuel. cpu_thread os hs indet (4 + fuel) c' s' = Some (Inl Assert_Failed)) \<and> True"
    if "follows c' q' (pc', r', m')" for c' hs indet
    using abort_runs [OF that assms(4), of os hs indet] by (simp del: cpu_thread.simps)
  from user_steps_end [where out = "\<lambda>_. Inl Assert_Failed", OF assms(1-3) this, of indet] show ?thesis
    by (simp del: cpu_thread.simps)
qed

text \<open>A load of a double word, \<open>LD x1, 0(x1)\<close>.\<close>

definition ld_mmu :: mmu_t where
  "ld_mmu = (tiny_mmu 5)\<lparr>mmu_data := [0x83, 0xb0, 0, 0] @ replicate 60 0\<rparr>"

definition ld_core :: core_t where
  "ld_core = (zero_core (tiny_bus ld_mmu))\<lparr>c_trap_handler := True, c_pc := 0x100\<rparr>"

lemma ld_follows: "follows ld_core True (0x100, \<lambda>_. 0, ld_mmu)" and ld_rd: "mmu_rd ld_mmu 0x100 32 \<noteq> None"
proof -
  have m: "mmu_wf ld_mmu" "in_block ld_mmu a n = in_block (tiny_mmu 5) a n"
    "allowed ld_mmu a n p = allowed (tiny_mmu 5) a n p" for a n p
    by (simp_all add: ld_mmu_def tiny_mmu_def mmu_wf_def in_block_def allowed_def offset_def)
  have "unat (r :: reg) < 32" for r using unsigned_less [of r, where 'a = nat] by simp
  then have "REG_R ld_core = (\<lambda>_. 0)"
    by (simp add: ld_core_def zero_core_def REG_R_def fun_eq_iff)
  then show "follows ld_core True (0x100, \<lambda>_. 0, ld_mmu)"
    by (simp add: follows_def simulates_def ld_core_def zero_core_def core_wf_def coherent_def
        window_def steady_def m)
  show "mmu_rd ld_mmu 0x100 32 \<noteq> None" by (simp add: mmu_rd_eq perm_allows_def m)
qed

text \<open>The call of the program that exits, with the registers of a \<open>write\<close> of 256 bytes.\<close>

definition long_write_core :: core_t where
  "long_write_core = exit_core\<lparr>c_pc := 0x104, c_registers := (replicate 32 0)[12 := 256, 17 := SYS_write]\<rparr>"

lemma long_write_follows: "follows long_write_core True (0x104, REG_R long_write_core, exit_mmu)"
  by (simp add: follows_def simulates_def long_write_core_def exit_core_def zero_core_def core_wf_def coherent_def
      window_def steady_def)

theorem failed_assertion_aborts_witness:
  "(\<exists>k. k \<le> 4 \<and> cpu_thread test_os (\<lambda>_. plenty) (\<lambda>_ _. 0) k ld_core 0 = Some (Inl Assert_Failed))
   \<and> (\<exists>k. k \<le> 4 \<and> cpu_thread test_os (\<lambda>_. plenty) (\<lambda>_ _. 0) k long_write_core 0 = Some (Inl Assert_Failed))"
proof
  have aborts: "\<exists>k. k \<le> 4 \<and> cpu_thread test_os (\<lambda>_. plenty) (\<lambda>_ _. 0) k c 0 = Some (Inl Assert_Failed)"
    if f: "follows c True (pc, r, m)" and e: "at_abort (pc, r, m, True, 0 :: nat)" for c pc r m
  proof -
    have run: "(ustep test_os ^^ 0) (pc, r, m, True, 0) (pc, r, m, True, 0)" by simp
    from failed_assertion_aborts [where hs = "\<lambda>_. plenty" and indet = "\<lambda>_ _. 0", OF f run plenty_ok e]
    obtain k where "k \<le> 4" "\<And>fuel. cpu_thread test_os (\<lambda>_. plenty) (\<lambda>_ _. 0) (k + fuel) c 0 = Some (Inl Assert_Failed)"
      by (auto simp del: cpu_thread.simps)
    from this(1) this(2) [of 0] show ?thesis by (intro exI [of _ k]) simp
  qed
  have "outcome (mem_word (mmu_byte ld_mmu) 0x100 4) = Aborts" by code_simp
  then have "at_abort (0x100, \<lambda>_. 0, ld_mmu, True, 0)" using ld_rd by (simp add: word_at_def)
  from aborts [OF ld_follows this]
  show "\<exists>k. k \<le> 4 \<and> cpu_thread test_os (\<lambda>_. plenty) (\<lambda>_ _. 0) k ld_core 0 = Some (Inl Assert_Failed)" .
  have "at_ecall exit_mmu 0x104" using exit_mmu_rd [of "0x104"] at_ecallI [OF exit_mmu_words(2)] by auto
  then have "at_abort (0x104, REG_R long_write_core, exit_mmu, True, 0)"
    by (simp add: long_write_core_def REG_R_def)
  from aborts [OF long_write_follows this]
  show "\<exists>k. k \<le> 4 \<and> cpu_thread test_os (\<lambda>_. plenty) (\<lambda>_ _. 0) k long_write_core 0 = Some (Inl Assert_Failed)" .
qed

text \<open>
  C31. Access faults end the program. If the machine reaches, after \<open>n\<close> instructions and
  calls, a load or store to an address in the range of no device, then the thread ends within
  \<open>6 n + 5\<close> iterations: the access traps with cause 5 (a load) or 7 (a store), and the trap
  handler serves environment calls only. The registers, the program counter and the memory
  are those before the access; \<open>mcause\<close> and \<open>mepc\<close> tell what happened and where.
\<close>

theorem access_fault_ends:
  assumes "follows c q (pc, r, m)" and "(ustep os ^^ n) (pc, r, m, q, s) (pc', r', m', q', s')"
    and "\<forall>k. alloc_ok (hs k) 0" and w: "word_at m' pc' (Runs i)"
    and at: "access_at (action_of i pc' r') = Some p"
    and no: "\<forall>d \<in> set (mmio_devices (c_bus c)). \<not> covers d (ucast p)"
  shows "\<exists>d k. k \<le> 6 * n + 5 \<and> (\<forall>fuel. cpu_thread os hs indet (k + fuel) c s = Some (Inr (d, s')))
    \<and> csr_get (c_csr d) mcause = Inr (ucast (cause_code (access_fault (action_of i pc' r'))))
    \<and> csr_get (c_csr d) mepc = Inr (ucast pc')
    \<and> REG_R d = r' \<and> c_pc d = pc' \<and> same_memory (ram_mmu (c_bus d)) m'"
proof (rule user_steps_end [where out = "\<lambda>d. Inr (d, s')", OF assms(1-3)])
  fix c' hs indet
  assume f: "follows c' q' (pc', r', m')" and ds: "dev_ranges (c_bus c') = dev_ranges (c_bus c)"
  have "find_dev (mmio_devices (c_bus c')) (ucast p) = None"
    unfolding find_dev_ranges [OF ds] using no by (rule find_dev_NoneI)
  from fault_runs [OF f w at this]
  show "\<exists>d. (\<forall>fuel. cpu_thread os hs indet (5 + fuel) c' s' = Some (Inr (d, s')))
    \<and> csr_get (c_csr d) mcause = Inr (ucast (cause_code (access_fault (action_of i pc' r'))))
    \<and> csr_get (c_csr d) mepc = Inr (ucast pc')
    \<and> REG_R d = r' \<and> c_pc d = pc' \<and> same_memory (ram_mmu (c_bus d)) m'" .
qed

text \<open>A store that the memory refuses, and a load from address 0.\<close>

lemma guarded_follows: "follows ((guarded_core 0x100)\<lparr>c_trap_handler := True\<rparr>) True (0x100, \<lambda>_. 0, guarded_mmu)"
proof -
  have "unat (r :: reg) < 32" for r using unsigned_less [of r, where 'a = nat] by simp
  then have "REG_R ((guarded_core 0x100)\<lparr>c_trap_handler := True\<rparr>) = (\<lambda>_. 0)"
    by (simp add: guarded_core_def zero_core_def REG_R_def fun_eq_iff)
  then show ?thesis
    by (simp add: follows_def simulates_def guarded_core_def zero_core_def core_wf_def coherent_def
        window_def steady_def)
qed

theorem access_fault_ends_witness:
  "\<exists>d k. k \<le> 11 \<and> cpu_thread test_os (\<lambda>_. plenty) (\<lambda>_ _. 0) k
      ((guarded_core 0x100)\<lparr>c_trap_handler := True\<rparr>) 0 = Some (Inr (d, 0)) \<and> csr_get (c_csr d) 0x342 = Inr 5"
proof -
  have run: "(ustep test_os ^^ 1) (0x100, \<lambda>_. 0, guarded_mmu, True, 0) (0x104, \<lambda>_. 0, guarded_mmu, False, 0)"
    unfolding relpowp_1 by (rule u_refused [OF guarded_rstep])
  have w: "word_at guarded_mmu 0x104 (Runs (Load Lw 1 0 0))"
    using guarded_mmu_outcomes(2) by (simp add: word_at_def mmu_rd_eq perm_allows_def del: guarded_mmu_words)
  have at: "access_at (action_of (Load Lw 1 0 0) 0x104 (\<lambda>_. 0)) = Some 0" by simp
  have "\<forall>d \<in> set (mmio_devices (c_bus ((guarded_core 0x100)\<lparr>c_trap_handler := True\<rparr>))). \<not> covers d (ucast (0 :: u32))"
    by (simp add: tiny_bus_def covers_def csr_mmio_device_def)
  from access_fault_ends [where hs = "\<lambda>_. plenty" and indet = "\<lambda>_ _. 0", OF guarded_follows run plenty_ok w at this]
  obtain d k where "k \<le> 11" "\<And>fuel. cpu_thread test_os (\<lambda>_. plenty) (\<lambda>_ _. 0) (k + fuel)
      ((guarded_core 0x100)\<lparr>c_trap_handler := True\<rparr>) 0 = Some (Inr (d, 0))" "csr_get (c_csr d) 0x342 = Inr 5"
    by (auto simp del: cpu_thread.simps)
  from this(1,3) this(2) [of 0] show ?thesis by (intro exI [of _ d] exI [of _ k]) simp
qed

text \<open>
  C5. Programs that do not end. If the machine can always make another step, then the thread
  never ends: no number of iterations gives a result, neither a core nor an error.
\<close>

theorem program_diverges:
  assumes "follows c q (pc, r, m)" and "\<forall>n. \<exists>u. (ustep os ^^ n) (pc, r, m, q, s) u" and "\<forall>k. alloc_ok (hs k) 0"
  shows "cpu_thread os hs indet fuel c s = None"
proof (rule ccontr)
  assume "cpu_thread os hs indet fuel c s \<noteq> None"
  then obtain res where res: "cpu_thread os hs indet fuel c s = Some res" by blast
  have "user_rel (dev_ranges (c_bus c)) (c, s) (pc, r, m, q, s)" using assms(1) by simp
  from thread_sim.runs_on [OF this assms(2), of fuel hs indet 0] assms(3) obtain c' s' k where
    k: "fuel \<le> k" "runs_to os hs indet c s k c' s'" by auto
  from res k(1) have "cpu_thread os hs indet k c s = Some res" by (rule cpu_thread_fuel)
  moreover have "cpu_thread os hs indet k c s = None"
    using spec [OF k(2) [unfolded runs_to_def], of 0] by simp
  ultimately show False by simp
qed

text \<open>A jump to itself.\<close>

definition loop_mmu :: mmu_t where
  "loop_mmu = (tiny_mmu 5)\<lparr>mmu_data := [0x6f, 0, 0, 0] @ replicate 60 0\<rparr>"

definition loop_core :: core_t where
  "loop_core = (zero_core (tiny_bus loop_mmu))\<lparr>c_trap_handler := True, c_pc := 0x100\<rparr>"

lemma loop_mmu_simps [simp]:
  "mmu_wf loop_mmu" "in_block loop_mmu a n = in_block (tiny_mmu 5) a n"
  "allowed loop_mmu a n p = allowed (tiny_mmu 5) a n p"
  by (simp_all add: loop_mmu_def tiny_mmu_def mmu_wf_def in_block_def allowed_def offset_def)

lemma loop_follows: "follows loop_core True (0x100, \<lambda>_. 0, loop_mmu)"
proof -
  have "unat (r :: reg) < 32" for r using unsigned_less [of r, where 'a = nat] by simp
  then have "REG_R loop_core = (\<lambda>_. 0)"
    by (simp add: loop_core_def zero_core_def REG_R_def fun_eq_iff)
  then show ?thesis
    by (simp add: follows_def simulates_def loop_core_def zero_core_def core_wf_def coherent_def
        window_def steady_def)
qed

lemma loop_ustep: "ustep os (0x100, \<lambda>_. 0, loop_mmu, True, s) (0x100, \<lambda>_. 0, loop_mmu, True, s)"
proof -
  have w: "outcome (mem_word (mmu_byte loop_mmu) 0x100 4) = Runs (Jal 0 0)" by code_simp
  have rd: "mmu_rd loop_mmu 0x100 32 \<noteq> None" by (simp add: mmu_rd_eq perm_allows_def)
  have "mstep (0x100, \<lambda>_. 0, loop_mmu) (ipc (emu_step (Jal 0 0) \<lparr>ipc = 0x100, ireg = \<lambda>_. 0, imem = mmu_byte loop_mmu\<rparr>),
      ireg (emu_step (Jal 0 0) \<lparr>ipc = 0x100, ireg = \<lambda>_. 0, imem = mmu_byte loop_mmu\<rparr>), loop_mmu)"
    by (rule mstep.step [where i = "Jal 0 0" and act = "Jump 0 0x104 0x100"]) (use w rd in \<open>simp_all add: same_code_def\<close>)
  then have "mstep (0x100, \<lambda>_. 0, loop_mmu) (0x100, \<lambda>_. 0, loop_mmu)" by (simp add: isa_put_def)
  from u_insn [OF this, of os True s] show ?thesis by simp
qed

theorem program_diverges_witness: "\<forall>fuel. cpu_thread test_os (\<lambda>_. plenty) (\<lambda>_ _. 0) fuel loop_core 0 = None"
proof -
  have "(ustep test_os ^^ n) (0x100, \<lambda>_. 0, loop_mmu, True, 0) (0x100, \<lambda>_. 0, loop_mmu, True, 0)" for n
    by (induction n) (auto intro: loop_ustep)
  then have "\<forall>n. \<exists>u. (ustep test_os ^^ n) (0x100, \<lambda>_. 0, loop_mmu, True, 0) u" by blast
  from program_diverges [OF loop_follows this plenty_ok] show ?thesis by blast
qed

end
