(* ===== verification/Boot.thy ===== *)
theory Boot
  imports User_Run
begin

text \<open>
  From \<open>main\<close> to the first instruction: setting up the machine, loading a program and
  starting it leaves a core that follows the machine of \<open>User_Run\<close> at the entry point of
  the file, over the image the file describes. With the theorems on runs this gives what
  \<^verbatim>\<open>src/main.c\<close> does with a whole program.
\<close>

section \<open>Setting up the machine\<close>

definition ram_block :: amem where
  "ram_block x = (if unat RAM_START \<le> x \<and> x < unat RAM_END then Some (0, MPERM_WRITE OR MPERM_RAW)
     else None)"

text \<open>A machine that is set up: its bus is well-formed, and the RAM device is the memory of \<^verbatim>\<open>config.h\<close>.\<close>

definition machine_ready :: "emulator_t \<Rightarrow> bool" where
  "machine_ready emu \<longleftrightarrow> bus_wf (emu_bus emu) \<and> bus_ready (emu_bus emu)
     \<and> mmu_base (ram_mmu (emu_bus emu)) = RAM_START \<and> mmu_size (ram_mmu (emu_bus emu)) = ucast RAM_SIZE"

lemma bus_init_main:
  assumes "mmu_wf m" and "mmu_base m = RAM_START" and "mmu_size m = ucast RAM_SIZE"
  shows "bus_wf (bus_init (main_bus m))" and "bus_ready (bus_init (main_bus m))"
    and "ram_mmu (bus_init (main_bus m)) = m"
proof -
  have "(3 :: u32) AND 2 = 2" by code_simp
  then show "bus_wf (bus_init (main_bus m))"
    using assms by (simp add: bus_wf_def bus_init_def main_bus_def ram_device_def csr_mmio_device_def
        ram_slot_def other_slot_def init_ram_def csr_mmio_init_def)
qed (simp_all add: bus_ready_def bus_init_def main_bus_def ram_device_def init_ram_def)

text \<open>
  When the heap does not fail, \<open>video_init\<close> is called on a machine that is set up, with fresh
  memory; the machine is then what \<open>video_init\<close> leaves.
\<close>

lemma emulator_init_eq:
  assumes h: "\<forall>i<4. alloc_ok h i"
  shows "\<exists>b. machine_ready \<lparr>emu_bus = b, emu_elf = None\<rparr> \<and> mmu_abs (ram_mmu b) = ram_block
    \<and> (\<forall>vi. emulator_init True h vi = (case vi b of (ok, b') \<Rightarrow>
         Inr (if ok then Some \<lparr>emu_bus = b', emu_elf = None\<rparr> else None)))"
proof -
  obtain m where m: "mmu_init h RAM_START (ucast RAM_SIZE) = Inr (Some m)" "mmu_wf m"
    "mmu_base m = RAM_START" "mmu_size m = ucast RAM_SIZE"
    "mmu_data m = replicate (unat RAM_SIZE) 0" "mmu_perm m = replicate (unat RAM_SIZE) 10"
    using mmu_init_eq [of RAM_START "ucast RAM_SIZE" h] h by auto
  note b = bus_init_main [OF m(2-4)]
  have "mmu_abs m = ram_block"
    using m(3-6) by (auto simp: mmu_abs_def ram_block_def fun_eq_iff)
  then show ?thesis
    using m(1,3,4) b
    by (intro exI [of _ "bus_init (main_bus m)"])
      (simp add: machine_ready_def emulator_init_def c_assert_def Let_def split: prod.split)
qed

section \<open>Loading a program\<close>

text \<open>
  A file the machine can load and start: a 32-bit little-endian ELF file with its program
  headers and segments in the file; the segments in RAM below \<open>tp\<close>, where the last of
  them ends; and an entry point.
\<close>

definition elf_entry :: "u8 list \<Rightarrow> u32" where
  "elf_entry elf = word_of_bytes (segment off_e_entry 4 elf)"

definition elf_ok :: "u8 list \<Rightarrow> u32 \<Rightarrow> bool" where
  "elf_ok elf tp \<longleftrightarrow> 52 \<le> length elf \<and> length elf < 2 ^ 32 \<and> elf ! EI_CLASS = 1 \<and> elf ! EI_DATA = 1
     \<and> unat (word_of_bytes (segment off_e_phoff 4 elf)) + length (phdrs elf) * sizeof_Phdr \<le> length elf
     \<and> (\<forall>p \<in> set (phdrs elf). p_type p = 1 \<longrightarrow> RAM_START \<le> p_vaddr p
          \<and> unat (p_vaddr p) + unat (p_memsz p) \<le> unat tp \<and> p_filesz p \<le> p_memsz p
          \<and> unat (p_offset p) + unat (p_filesz p) \<le> length elf)
     \<and> (\<exists>ps p qs. phdrs elf = ps @ p # qs \<and> p_type p = 1 \<and> unat (p_vaddr p) + unat (p_memsz p) = unat tp
          \<and> (\<forall>q \<in> set qs. p_type q \<noteq> 1))
     \<and> elf_entry elf \<noteq> 0"

definition elf_image :: "u8 list \<Rightarrow> amem \<Rightarrow> amem" where
  "elf_image elf = fold (am_segment elf) (phdrs elf)"

lemma fold_seg_end_skip: "\<forall>q \<in> set qs. p_type q \<noteq> 1 \<Longrightarrow> fold seg_end qs cv = cv"
  by (induction qs) (simp_all add: seg_end_def)

lemma load_file_ok:
  assumes "fs f = Some file" and "0 < length file" and "length file < 2 ^ 32"
  shows "load_file fs True f = Inr (Some file)"
proof -
  have u: "unat (of_nat (length file) :: u32) = length file" using assms(3) by (simp add: unat_of_nat_32)
  then have "(of_nat (length file) :: u32) > 0" using assms(2) by (simp add: word_less_nat_alt)
  then show ?thesis using assms(1) u by (simp add: load_file_def c_assert_def Let_def)
qed

text \<open>After the last loadable segment the bump pointer stands at its end.\<close>

lemma elf_ok_end:
  assumes "elf_ok elf tp"
  shows "fold seg_end (phdrs elf) cv = ucast tp"
proof -
  obtain ps p qs where p: "phdrs elf = ps @ p # qs" "p_type p = 1"
    "unat (p_vaddr p) + unat (p_memsz p) = unat tp" "\<forall>q \<in> set qs. p_type q \<noteq> 1"
    using assms unfolding elf_ok_def by blast
  have "unat (ucast (p_memsz p) :: u64) < 2 ^ 63"
    using less_trans [OF unat_lt_32, of "2 ^ 63"] by simp
  from unat_vaddr_plus [OF this, of "p_vaddr p"] have "ucast (p_vaddr p) + ucast (p_memsz p) = (ucast tp :: u64)"
    using p(3) by (simp add: word_unat_eq_iff)
  then show ?thesis using p(1,2) fold_seg_end_skip [OF p(4)] by (simp add: seg_end_def)
qed

lemma emulator_load_elf_ok:
  assumes fs: "fs f = Some elf" and ok: "elf_ok elf tp" and tp: "tp \<le> RAM_END" and emu: "machine_ready emu"
  shows "\<exists>b'. emulator_load_elf fs True True hs emu f
      = Inr (True, \<lparr>emu_bus = b', emu_elf = Some \<lparr>entry = elf_entry elf\<rparr>\<rparr>)
    \<and> bus_wf b' \<and> bus_ready b' \<and> mmu_base (ram_mmu b') = RAM_START \<and> mmu_size (ram_mmu b') = ucast RAM_SIZE
    \<and> mmu_curr_vaddr (ram_mmu b') = ucast tp
    \<and> mmu_abs (ram_mmu b') = elf_image elf (mmu_abs (ram_mmu (emu_bus emu)))"
proof -
  let ?b = "emu_bus emu"
  have b: "bus_wf ?b" "bus_ready ?b" "mmu_base (ram_mmu ?b) = RAM_START" "mmu_size (ram_mmu ?b) = ucast RAM_SIZE"
    using emu by (simp_all add: machine_ready_def)
  have m: "mmu_wf (ram_mmu ?b)" using b(1) by (simp add: bus_wf_def)
  have e: "52 \<le> length elf" "length elf < 2 ^ 32" "elf ! EI_CLASS = 1" "elf ! EI_DATA = 1"
    "unat (word_of_bytes (segment off_e_phoff 4 elf)) + length (phdrs elf) * sizeof_Phdr \<le> length elf"
    "elf_entry elf \<noteq> 0"
    using ok by (simp_all add: elf_ok_def)
  have seg: "\<forall>p \<in> set (phdrs elf). p_type p = 1 \<longrightarrow> RAM_START \<le> p_vaddr p
          \<and> unat (p_vaddr p) + unat (p_memsz p) \<le> unat tp \<and> p_filesz p \<le> p_memsz p
          \<and> unat (p_offset p) + unat (p_filesz p) \<le> length elf"
    using ok by (simp add: elf_ok_def)
  have segs: "\<forall>p \<in> set (phdrs elf). seg_ok (ram_mmu ?b) elf p"
  proof (intro ballI)
    fix p assume "p \<in> set (phdrs elf)"
    with seg tp b(3,4) show "seg_ok (ram_mmu ?b) elf p"
      by (fastforce simp: seg_ok_def in_block_def word_le_nat_alt)
  qed
  obtain m' where m': "elf_load True hs elf (ram_mmu ?b) = Inr (Some \<lparr>entry = elf_entry elf\<rparr>, m')" "mmu_wf m'"
    "mmu_base m' = mmu_base (ram_mmu ?b)" "mmu_size m' = mmu_size (ram_mmu ?b)"
    "mmu_abs m' = elf_image elf (mmu_abs (ram_mmu ?b))" "mmu_curr_vaddr m' = fold seg_end (phdrs elf) (mmu_curr_vaddr (ram_mmu ?b))"
    using elf_load_image [OF m e(1,3-5) segs, of hs] unfolding elf_image_def elf_entry_def by auto
  have cv: "mmu_curr_vaddr m' = ucast tp" using m'(6) elf_ok_end [OF ok] by simp
  let ?b2 = "?b\<lparr>ram_mmu := m'\<rparr>"
  have "bus_wf ?b2" using b(1) m'(2-4) by (auto simp: bus_wf_def ram_slot_def split: list.splits)
  moreover have "bus_ready ?b2" using b(2) by (simp add: bus_ready_def)
  moreover have "load_file fs True f = Inr (Some elf)"
    using e(1,2) by (intro load_file_ok [where fs = fs, OF fs]) auto
  ultimately show ?thesis
    using m'(1,3-5) cv b(3,4) e(6) by (simp add: emulator_load_elf_def c_assert_def)
qed

section \<open>Booting\<close>

text \<open>
  C6. Booting. On a machine that is set up (its bus well-formed, the RAM device ready, the memory
  at \<open>RAM_START\<close> with \<open>RAM_SIZE\<close> bytes of any contents), when the file is a program whose
  segments end at \<open>tp\<close> with room for the stack and an argument of less than \<open>2 ^ 16\<close> bytes
  behind it, and the allocations for loading succeed, \<open>emulator_load_elf\<close> loads it, and
  \<open>emulator_run\<close> is the thread of a core that
  follows the machine at the entry point of the file: \<open>ra\<close> is 0x1337c0de and \<open>sp\<close> points to
  the words \<open>argc\<close> (always 42), \<open>argv[0]\<close>, \<open>argv[1]\<close>, 0, 0, 0, 24 bytes below the top
  of the stack at \<open>tp + 4096\<close>; the memory below \<open>tp\<close> is the image the file describes, over
  what was there. So is \<open>main\<close>, whenever \<open>emulator_init\<close>, which ends with the video device's
  \<open>video_init\<close>, gives that machine.
\<close>

theorem machine_boots:
  assumes emu: "machine_ready emu" and fs: "fs f = Some elf"
    and ok: "elf_ok elf tp" and len: "length arg < 2 ^ 16"
    and room: "unat tp + 4112 + round16 (length arg + 1) < unat RAM_END"
  shows "\<exists>emu' c. emulator_load_elf fs True True hs emu f = Inr (True, emu')
    \<and> (\<forall>fuel. emulator_run os hs indet fuel emu' arg s = cpu_thread os hs indet fuel c s)
    \<and> (\<forall>vi h fuel. emulator_init (alloc_ok h 4) h vi = Inr (Some emu) \<and> alloc_ok h 5 \<and> alloc_ok h 6 \<longrightarrow>
         main os fs vi h hs indet fuel f arg s = cpu_thread os hs indet fuel c s)
    \<and> follows c True (elf_entry elf, (\<lambda>_. 0)(1 := 0x1337c0de, 2 := tp + 4072), ram_mmu (c_bus c))
    \<and> (\<forall>x < unat tp. mmu_abs (ram_mmu (c_bus c)) x = elf_image elf (mmu_abs (ram_mmu (emu_bus emu))) x)
    \<and> map (\<lambda>k. mem_word (bus_byte (c_bus c)) (tp + 4072 + 4 * of_nat k) 4) [0..<6]
        = [42, tp + 4096, tp + 4112, 0, 0, 0]
    \<and> (\<forall>k \<le> length arg. bus_byte (c_bus c) (unat tp + 4112 + k) = (arg @ [0]) ! k)"
proof -
  have "tp \<le> RAM_END" using room by (simp add: word_le_nat_alt)
  from emulator_load_elf_ok [where fs = fs and f = f, OF fs ok this emu, of hs] obtain b where
    b: "emulator_load_elf fs True True hs emu f = Inr (True, \<lparr>emu_bus = b, emu_elf = Some \<lparr>entry = elf_entry elf\<rparr>\<rparr>)"
    and wf: "bus_wf b" "bus_ready b" and mem: "mmu_base (ram_mmu b) = RAM_START" "mmu_size (ram_mmu b) = ucast RAM_SIZE"
      "mmu_curr_vaddr (ram_mmu b) = ucast tp" "mmu_abs (ram_mmu b) = elf_image elf (mmu_abs (ram_mmu (emu_bus emu)))"
    by blast
  let ?emu = "\<lparr>emu_bus = b, emu_elf = Some \<lparr>entry = elf_entry elf\<rparr>\<rparr>"
  have room': "unat (mmu_curr_vaddr (ram_mmu b)) + 4112 + round16 (length arg + 1)
      < unat (mmu_base (ram_mmu b)) + unat (mmu_size (ram_mmu b))"
    using room mem(1-3) by simp
  have base: "mmu_base (ram_mmu b) \<noteq> 0" using mem(1) by simp
  have tos: "ucast (mmu_curr_vaddr (ram_mmu b)) + 4096 = tp + 4096" using mem(3) by simp
  have tp16: "unat (tp + 4112) = unat tp + 4112"
    using room unat_add_lem [of tp "4112 :: u32"] by simp
  have e24: "tp + 4096 - 24 = tp + 4072" "tp + 4096 + 16 = tp + 4112" by simp_all
  obtain c where c: "boot_core (cpu_init b) b \<lparr>entry = elf_entry elf\<rparr> 0 arg = Inr c" "core_wf c"
    "c_state c = FETCH" "c_pc c = elf_entry elf" "c_prefetch_cnt c = 0" "c_trap_handler c"
    "map (\<lambda>k. mem_word (bus_byte (c_bus c)) (tp + 4072 + 4 * of_nat k) 4) [0..<6]
      = [42, tp + 4096, tp + 4112, 0, 0, 0]"
    "\<forall>k \<le> length arg. bus_byte (c_bus c) (unat (tp + 4112) + k) = (arg @ [0]) ! k"
    "bus_ready (c_bus c)" "REG_R c = (\<lambda>_. 0)(1 := 0x1337c0de, 2 := tp + 4072)"
    "\<forall>x < unat (mmu_curr_vaddr (ram_mmu b)). mmu_abs (ram_mmu (c_bus c)) x = mmu_abs (ram_mmu b) x"
    using boot_core_ok [OF wf base len room', of "\<lparr>entry = elf_entry elf\<rparr>"]
    unfolding tos e24 by (elim exE conjE) (rule that; simp)
  have run: "emulator_run os hs indet fuel ?emu arg s = cpu_thread os hs indet fuel c s" for fuel
    using c(1) by (simp add: emulator_run_def del: cpu_thread.simps)
  have "main os fs vi h hs indet fuel f arg s = cpu_thread os hs indet fuel c s"
    if "emulator_init (alloc_ok h 4) h vi = Inr (Some emu) \<and> alloc_ok h 5 \<and> alloc_ok h 6" for vi h fuel
    using that b run by (simp add: main_def del: cpu_thread.simps)
  moreover have "follows c True (elf_entry elf, (\<lambda>_. 0)(1 := 0x1337c0de, 2 := tp + 4072), ram_mmu (c_bus c))"
    using c by (simp add: follows_def simulates_def coherent_def window_def same_memory_def steady_def)
  moreover have "\<forall>x < unat tp. mmu_abs (ram_mmu (c_bus c)) x = elf_image elf (mmu_abs (ram_mmu (emu_bus emu))) x"
    using c(11) mem(3,4) by simp
  ultimately show ?thesis
    using b run c(7,8) tp16 by (intro exI [of _ ?emu] exI [of _ c]) simp
qed

text \<open>
  A file of 132 bytes with one segment of 48 bytes at 0x10000: the program loads 93 into
  \<open>a7\<close> and makes its call, \<open>exit\<close>.
\<close>

definition boot_elf :: "u8 list" where
  "boot_elf = [0x7f, 69, 76, 70, 1, 1] @ replicate 18 0 @ [0, 0, 1, 0] @ [52, 0, 0, 0]
     @ replicate 12 0 @ [1, 0] @ replicate 6 0
     @ [1, 0, 0, 0] @ [84, 0, 0, 0] @ [0, 0, 1, 0] @ [0, 0, 0, 0] @ [48, 0, 0, 0] @ [48, 0, 0, 0] @ [5, 0, 0, 0]
     @ [0, 0, 0, 0] @ [0x93, 0x08, 0xd0, 0x05, 0x73, 0, 0, 0] @ replicate 40 0"

definition boot_phdr :: phdr_t where
  "boot_phdr = \<lparr>p_type = 1, p_offset = 84, p_vaddr = 0x10000, p_paddr = 0, p_filesz = 48, p_memsz = 48,
     p_flags = 5, p_align = 0\<rparr>"

lemma boot_elf_header:
  "length boot_elf = 132" "boot_elf ! 4 = 1" "boot_elf ! 5 = 1"
  "word_of_bytes (segment 28 4 boot_elf) = 52"
  "word_of_bytes (segment 24 4 boot_elf) = 0x10000"
  "phdrs boot_elf = [boot_phdr]"
  by code_simp+

lemma boot_elf_ok: "elf_ok boot_elf 0x10030"
proof -
  have "phdrs boot_elf = [] @ boot_phdr # []" by (simp add: boot_elf_header)
  then have "\<exists>ps p qs. phdrs boot_elf = ps @ p # qs \<and> p_type p = 1
      \<and> unat (p_vaddr p) + unat (p_memsz p) = unat (0x10030 :: u32) \<and> (\<forall>q \<in> set qs. p_type q \<noteq> 1)"
    by (intro exI [of _ "[]"] exI [of _ boot_phdr]) (simp add: boot_phdr_def)
  then show ?thesis
    by (simp add: elf_ok_def elf_entry_def boot_elf_header) (simp add: boot_phdr_def)
qed

lemma boot_elf_image:
  assumes "x < 48"
  shows "elf_image boot_elf am (0x10000 + x) = Some (boot_elf ! (84 + x), 13)"
proof -
  have "phdr_perm 5 = 13" by code_simp
  then show ?thesis
    using assms by (simp add: elf_image_def boot_elf_header am_segment_def boot_phdr_def)
qed

text \<open>A memory that holds the image of the program.\<close>

definition boot_image :: "mmu_t \<Rightarrow> bool" where
  "boot_image m \<longleftrightarrow> mmu_wf m \<and> (\<forall>x < 0x10030. mmu_abs m x = elf_image boot_elf ram_block x)"

lemma boot_image_byte:
  assumes "boot_image m" and "x < 48"
  shows "mmu_abs m (0x10000 + x) = Some (boot_elf ! (84 + x), 13)"
  using assms boot_elf_image [OF assms(2)] by (simp add: boot_image_def)

lemma boot_image_word:
  assumes m: "boot_image m" and a: "unat a = 0x10000 + j" "j + 4 \<le> 48"
  shows "mem_word (mmu_byte m) a 4 = word_of_bytes (map (\<lambda>k. boot_elf ! (84 + j + k)) [0..<4])"
proof -
  have "map (mmu_byte m) (span a 4) = map (\<lambda>k. boot_elf ! (84 + j + k)) [0..<4]"
    by (rule nth_equalityI) (use a boot_image_byte [OF m] in \<open>simp_all add: mmu_byte_def add.assoc\<close>)
  then show ?thesis by (simp add: mem_word_def)
qed

lemma boot_image_code:
  assumes "boot_image m"
  shows "mem_word (mmu_byte m) 0x10000 4 = encode (OpImm Addi 17 0 93)"
    and "mem_word (mmu_byte m) 0x10004 4 = encode Ecall"
proof -
  have "word_of_bytes (map (\<lambda>k. boot_elf ! (84 + 0 + k)) [0..<4]) = encode (OpImm Addi 17 0 93)"
    "word_of_bytes (map (\<lambda>k. boot_elf ! (84 + 4 + k)) [0..<4]) = encode Ecall"
    by code_simp+
  then show "mem_word (mmu_byte m) 0x10000 4 = encode (OpImm Addi 17 0 93)"
    "mem_word (mmu_byte m) 0x10004 4 = encode Ecall"
    using boot_image_word [OF assms, of "0x10000" 0] boot_image_word [OF assms, of "0x10004" 4] by simp_all
qed

lemma boot_image_readable:
  assumes m: "boot_image m" and a: "unat a = 0x10000 + j" "j + 32 \<le> 48"
  shows "\<exists>bs. mmu_rd m a 32 = Some bs"
proof -
  have wf: "mmu_wf m" using m by (simp add: boot_image_def)
  have "am_allows (mmu_abs m) MPERM_READ x" if "x \<in> {unat a..<unat a + 32}" for x
  proof -
    have "x = 0x10000 + (x - 0x10000)" "x - 0x10000 < 48" using that a by auto
    with boot_image_byte [OF m, of "x - 0x10000"] show ?thesis by (auto simp: am_allows_def perm_allows_read)
  qed
  then have "in_block m a 32 \<and> allowed m a 32 MPERM_READ"
    using am_allows_range [OF wf, of 32 MPERM_READ a] by (auto simp: list_all_iff)
  then show ?thesis by (simp add: mmu_rd_eq [OF wf])
qed

text \<open>The end of the program from any memory that holds its image.\<close>

lemma boot_program_exits:
  assumes f: "follows c True (0x10000, r, m)" and img: "\<forall>x < 0x10030. mmu_abs m x = elf_image boot_elf ram_block x"
    and h: "\<forall>k. alloc_ok (hs k) 0"
  shows "\<exists>d k. k \<le> 10 \<and> cpu_thread os hs indet k c s = Some (Inr (d, s)) \<and> REG_R d 17 = 93"
proof -
  have m: "boot_image m"
    using f img same_memoryD(1) by (auto simp: boot_image_def follows_def simulates_def core_wf_def bus_wf_def)
  note w = boot_image_code [OF m] and rd = boot_image_readable [OF m]
  have "r 0 = 0" using f by (auto simp: follows_def simulates_def REG_R_def)
  let ?r = "r(17 := 93)"
  have "ustep os (0x10000, r, m, True, s) (0x10004, ?r, m, True, s)"
    using \<open>r 0 = 0\<close> rd [of "0x10000" 0] put_step [OF w(1), of r 17 93, OF _ _ _ refl]
    by (auto simp: isa_next_def isa_put_def)
  then have "(ustep os ^^ 1) (0x10000, r, m, True, s) (0x10004, ?r, m, True, s)" by (simp only: relpowp_1)
  from user_steps [OF f this h, of indet] obtain c' k where
    1: "k \<le> 6" "follows c' True (0x10004, ?r, m)" "runs_to os hs indet c s k c' s" by auto
  have "at_exit (0x10004, ?r, m, True, s)" using at_ecallI [OF w(2)] rd [of "0x10004" 4] by (auto simp: served_calls_def)
  from exit_runs [OF 1(2) this, of os "\<lambda>i. hs (k + i)" "\<lambda>i. indet (k + i)"] obtain d where
    "\<forall>fuel. cpu_thread os (\<lambda>i. hs (k + i)) (\<lambda>i. indet (k + i)) (4 + fuel) c' s = Some (Inr (d, s))"
    "REG_R d = ?r" by blast
  then have "cpu_thread os hs indet (k + 4) c s = Some (Inr (d, s))" "REG_R d 17 = 93"
    using 1(3) unfolding runs_to_def by (metis add_0_right, simp)
  then show ?thesis using 1(1) by (intro exI [of _ d] exI [of _ "k + 4"]) simp
qed

theorem machine_boots_witness:
  "\<exists>d k. k \<le> 10 \<and> main test_os (\<lambda>_. Some boot_elf) (\<lambda>b. (True, b)) plenty (\<lambda>_. plenty) (\<lambda>_ _. 0) k ''x'' [104] 0
     = Some (Inr (d, 0)) \<and> REG_R d 17 = 93"
proof -
  have h: "\<forall>i<4. alloc_ok plenty i" "alloc_ok plenty 4" "alloc_ok plenty 5" "alloc_ok plenty 6"
    and n: "length [104 :: u8] < 2 ^ 16"
      "unat (0x10030 :: u32) + 4112 + round16 (length [104 :: u8] + 1) < unat RAM_END"
    by (simp_all add: plenty_def round16_def)
  obtain b where b: "machine_ready \<lparr>emu_bus = b, emu_elf = None\<rparr>" "mmu_abs (ram_mmu b) = ram_block"
    "emulator_init True plenty (\<lambda>b. (True, b)) = Inr (Some \<lparr>emu_bus = b, emu_elf = None\<rparr>)"
    using emulator_init_eq [OF h(1)] by auto
  from machine_boots [where fs = "\<lambda>_. Some boot_elf" and f = "''x''", OF b(1) refl boot_elf_ok n, of "\<lambda>_. plenty" test_os
      "\<lambda>_ _. 0" 0]
  obtain c where c: "\<forall>vi h fuel. emulator_init (alloc_ok h 4) h vi = Inr (Some \<lparr>emu_bus = b, emu_elf = None\<rparr>)
        \<and> alloc_ok h 5 \<and> alloc_ok h 6 \<longrightarrow> main test_os (\<lambda>_. Some boot_elf) vi h (\<lambda>_. plenty) (\<lambda>_ _. 0)
        fuel ''x'' [104] 0 = cpu_thread test_os (\<lambda>_. plenty) (\<lambda>_ _. 0) fuel c 0"
    "follows c True (elf_entry boot_elf, (\<lambda>_. 0)(1 := 0x1337c0de, 2 := 0x10030 + 4072), ram_mmu (c_bus c))"
    "\<forall>x < unat (0x10030 :: u32). mmu_abs (ram_mmu (c_bus c)) x = elf_image boot_elf (mmu_abs (ram_mmu b)) x"
    by (elim exE conjE) (rule that; simp del: cpu_thread.simps)
  have main: "main test_os (\<lambda>_. Some boot_elf) (\<lambda>b. (True, b)) plenty (\<lambda>_. plenty) (\<lambda>_ _. 0) k ''x'' [104] 0
      = cpu_thread test_os (\<lambda>_. plenty) (\<lambda>_ _. 0) k c 0" for k
    using c(1) b(3) h(2-4) by metis
  have "elf_entry boot_elf = 0x10000" by (simp add: elf_entry_def boot_elf_header)
  then show ?thesis
    unfolding main
    using boot_program_exits [of c _ "ram_mmu (c_bus c)" "\<lambda>_. plenty" test_os "\<lambda>_ _. 0" 0] c(2,3) b(2) plenty_ok
    by simp
qed

end
