(* ===== verification/Threads.thy ===== *)
theory Threads
  imports User_Run
begin

text \<open>
  The two threads of \<^verbatim>\<open>src/emulator.c\<close>: the main thread creates the thread of the core
  (\<open>core_start\<close>) and waits for it (\<open>core_join\<close>). Their interleavings are the steps of
  a transition system; its runs give the results of \<open>emulator_run\<close>, which calls the
  thread's function instead.
\<close>

section \<open>The threads as a transition system\<close>

text \<open>A thread after \<open>k\<close> iterations of its loop, or as it ended.\<close>

datatype 'h thread_t =
    Not_Created
  | Running nat core_t 'h
  | Exited core_t 'h
  | Aborted cerr

datatype main_pc = At_Start | At_Join | Returned

definition core_start :: "core_t \<Rightarrow> 'h \<Rightarrow> 'h thread_t" where
  "core_start core s = Running 0 core s"

text \<open>\<open>pthread_join\<close> returns when the thread has exited; \<open>None\<close> while it has to wait.\<close>

fun core_join :: "'h thread_t \<Rightarrow> (core_t \<times> 'h) option" where
  "core_join (Exited core s) = Some (core, s)"
| "core_join _ = None"

inductive proc_step ::
    "'h os_t \<Rightarrow> (nat \<Rightarrow> alloc_env) \<Rightarrow> (nat \<Rightarrow> nat \<Rightarrow> u8) \<Rightarrow> core_t \<Rightarrow> 'h
     \<Rightarrow> main_pc \<times> 'h thread_t \<Rightarrow> main_pc \<times> 'h thread_t \<Rightarrow> bool"
  for os :: "'h os_t" and hs :: "nat \<Rightarrow> alloc_env" and indet :: "nat \<Rightarrow> nat \<Rightarrow> u8"
    and core :: core_t and s :: 'h where
  main_start: "proc_step os hs indet core s (At_Start, Not_Created) (At_Join, core_start core s)"
| main_join: "core_join t = Some r \<Longrightarrow> proc_step os hs indet core s (At_Join, t) (Returned, t)"
| iterate: "cpu_thread_step os (hs k) (indet k) c h = Inr (True, c', h')
    \<Longrightarrow> proc_step os hs indet core s (p, Running k c h) (p, Running (Suc k) c' h')"
| leave: "cpu_thread_step os (hs k) (indet k) c h = Inr (False, c', h')
    \<Longrightarrow> proc_step os hs indet core s (p, Running k c h) (p, Exited c' h')"
| abort: "cpu_thread_step os (hs k) (indet k) c h = Inl e
    \<Longrightarrow> proc_step os hs indet core s (p, Running k c h) (p, Aborted e)"

inductive_cases proc_stepE: "proc_step os hs indet core s (p, t) q"

text \<open>What the reachable states have to do with the function of the thread.\<close>

fun proc_inv ::
    "'h os_t \<Rightarrow> (nat \<Rightarrow> alloc_env) \<Rightarrow> (nat \<Rightarrow> nat \<Rightarrow> u8) \<Rightarrow> core_t \<Rightarrow> 'h \<Rightarrow> main_pc \<times> 'h thread_t \<Rightarrow> bool" where
  "proc_inv os hs indet core s (p, Not_Created) \<longleftrightarrow> p = At_Start"
| "proc_inv os hs indet core s (p, Running k c h) \<longleftrightarrow> p = At_Join \<and> runs_to os hs indet core s k c h"
| "proc_inv os hs indet core s (p, Exited c h) \<longleftrightarrow> p \<noteq> At_Start
     \<and> (\<exists>fuel. cpu_thread os hs indet fuel core s = Some (Inr (c, h)))"
| "proc_inv os hs indet core s (p, Aborted e) \<longleftrightarrow> p = At_Join
     \<and> (\<exists>fuel. cpu_thread os hs indet fuel core s = Some (Inl e))"

lemma runs_to_Suc:
  assumes "runs_to os hs indet core s k c h" and "cpu_thread_step os (hs k) (indet k) c h = Inr (True, c', h')"
  shows "runs_to os hs indet core s (Suc k) c' h'"
proof -
  have "runs_to os (\<lambda>i. hs (k + i)) (\<lambda>i. indet (k + i)) c h 1 c' h'"
    using assms(2) by (simp add: runs_to_def)
  from runs_to_trans [OF assms(1) this] show ?thesis by simp
qed

lemma runs_to_last:
  assumes "runs_to os hs indet core s k c h"
  shows "cpu_thread os hs indet (Suc k) core s = (case cpu_thread_step os (hs k) (indet k) c h of
      Inl e \<Rightarrow> Some (Inl e) | Inr (go, c', h') \<Rightarrow> if go then None else Some (Inr (c', h')))"
  using spec [OF assms [unfolded runs_to_def], of "Suc 0"] by (auto split: sum.split)

lemma proc_inv_step:
  assumes "proc_step os hs indet core s x y" and "proc_inv os hs indet core s x"
  shows "proc_inv os hs indet core s y"
  using assms
proof (induction rule: proc_step.induct)
  case main_start
  then show ?case by (simp add: core_start_def runs_to_0)
next
  case (main_join t r)
  then show ?case by (cases t) auto
next
  case (iterate k c h c' h' p)
  then show ?case using runs_to_Suc by auto
next
  case (leave k c h c' h' p)
  then show ?case using runs_to_last [of os hs indet core s k c h] by (auto intro!: exI [of _ "Suc k"])
next
  case (abort k c h e p)
  then show ?case using runs_to_last [of os hs indet core s k c h] by (auto intro!: exI [of _ "Suc k"])
qed

lemma proc_inv_reach:
  assumes "(proc_step os hs indet core s)\<^sup>*\<^sup>* (At_Start, Not_Created) y"
  shows "proc_inv os hs indet core s y"
  using assms by (induction rule: rtranclp_induct) (auto intro: proc_inv_step)

lemma thread_ends_reach:
  assumes "cpu_thread os (\<lambda>i. hs (k + i)) (\<lambda>i. indet (k + i)) fuel c h = Some r"
  shows "(proc_step os hs indet core s)\<^sup>*\<^sup>* (At_Join, Running k c h)
    (At_Join, case r of Inl e \<Rightarrow> Aborted e | Inr (c', h') \<Rightarrow> Exited c' h')"
  using assms
proof (induction fuel arbitrary: k c h)
  case (Suc fuel)
  show ?case
  proof (cases "cpu_thread_step os (hs k) (indet k) c h")
    case (Inl e)
    then show ?thesis using Suc.prems by (auto intro!: r_into_rtranclp abort)
  next
    case (Inr x)
    then obtain go c1 h1 where x: "cpu_thread_step os (hs k) (indet k) c h = Inr (go, c1, h1)"
      by (cases x) auto
    show ?thesis
    proof (cases go)
      case True
      have "proc_step os hs indet core s (At_Join, Running k c h) (At_Join, Running (Suc k) c1 h1)"
        using x True by (auto intro: iterate)
      moreover have "cpu_thread os (\<lambda>i. hs (Suc k + i)) (\<lambda>i. indet (Suc k + i)) fuel c1 h1 = Some r"
        using Suc.prems x True by simp
      from Suc.IH [OF this] have "(proc_step os hs indet core s)\<^sup>*\<^sup>* (At_Join, Running (Suc k) c1 h1)
        (At_Join, case r of Inl e \<Rightarrow> Aborted e | Inr (c', h') \<Rightarrow> Exited c' h')" .
      ultimately show ?thesis by (rule converse_rtranclp_into_rtranclp)
    next
      case False
      then show ?thesis using Suc.prems x by (auto intro!: r_into_rtranclp leave)
    qed
  qed
qed simp

lemma proc_progress:
  assumes "proc_inv os hs indet core s (p, t)" and "p \<noteq> Returned" and "\<forall>e. t \<noteq> Aborted e"
  shows "\<exists>y. proc_step os hs indet core s (p, t) y"
proof (cases t)
  case Not_Created
  then have "(p, t) = (At_Start, Not_Created)" using assms(1) by simp
  then show ?thesis using main_start by metis
next
  case (Running k c h)
  show ?thesis
  proof (cases "cpu_thread_step os (hs k) (indet k) c h")
    case (Inl e)
    from abort [where hs = hs and indet = indet, OF this] show ?thesis using Running by blast
  next
    case (Inr x)
    then obtain go c' h' where x: "cpu_thread_step os (hs k) (indet k) c h = Inr (go, c', h')"
      by (cases x) auto
    show ?thesis
    proof (cases go)
      case True
      with x have "cpu_thread_step os (hs k) (indet k) c h = Inr (True, c', h')" by simp
      from iterate [where hs = hs and indet = indet, OF this] show ?thesis using Running by blast
    next
      case False
      with x have "cpu_thread_step os (hs k) (indet k) c h = Inr (False, c', h')" by simp
      from leave [where hs = hs and indet = indet, OF this] show ?thesis using Running by blast
    qed
  qed
next
  case (Exited c h)
  then have p: "p = At_Join" using assms(1,2) by (cases p) auto
  have "core_join t = Some (c, h)" using Exited by simp
  from main_join [OF this, of os hs indet core s] show ?thesis unfolding p by (rule exI)
next
  case (Aborted e)
  then show ?thesis using assms(3) by blast
qed

text \<open>
  C7. The threads and the call. With the set-up of the core done, and for every interleaving of
  the main thread with the core's thread: the main thread is behind its join only when the core's
  thread has exited, and then with the core and the host that \<open>emulator_run\<close> of the model, which
  calls the function of the thread, gives with enough fuel; whatever result it gives is reached.
  An error ends the process, while the main thread waits, exactly when the model gives that
  error. While the core's thread runs, the main thread waits at its join, and the two never wait for
  each other: a reachable state in which the main thread has not returned and no error has ended
  the process has a step.
\<close>

theorem threads_sequential:
  assumes elf: "emu_elf emu = Some e"
    and boot: "boot_core (cpu_init (emu_bus emu)) (emu_bus emu) e 0 argv1 = Inr core"
  shows "((proc_step os hs indet core s)\<^sup>*\<^sup>* (At_Start, Not_Created) (Returned, t)
      \<longleftrightarrow> (\<exists>c' s' fuel. t = Exited c' s' \<and> emulator_run os hs indet fuel emu argv1 s = Some (Inr (c', s'))))
    \<and> ((proc_step os hs indet core s)\<^sup>*\<^sup>* (At_Start, Not_Created) (p, Aborted err)
      \<longleftrightarrow> p = At_Join \<and> (\<exists>fuel. emulator_run os hs indet fuel emu argv1 s = Some (Inl err)))
    \<and> ((proc_step os hs indet core s)\<^sup>*\<^sup>* (At_Start, Not_Created) (p, Running k c h) \<longrightarrow> p = At_Join)
    \<and> ((proc_step os hs indet core s)\<^sup>*\<^sup>* (At_Start, Not_Created) (p, t) \<longrightarrow>
      p = Returned \<or> (\<exists>e. t = Aborted e) \<or> (\<exists>y. proc_step os hs indet core s (p, t) y))"
proof (intro conjI impI)
  have run: "emulator_run os hs indet fuel emu argv1 s = cpu_thread os hs indet fuel core s" for fuel
    using elf boot by (simp add: emulator_run_def del: cpu_thread.simps)
  have start: "proc_step os hs indet core s (At_Start, Not_Created) (At_Join, Running 0 core s)"
    using main_start by (simp add: core_start_def)
  have reach: "(proc_step os hs indet core s)\<^sup>*\<^sup>* (At_Start, Not_Created)
      (At_Join, case r of Inl e \<Rightarrow> Aborted e | Inr (c', h') \<Rightarrow> Exited c' h')"
    if "cpu_thread os hs indet fuel core s = Some r" for fuel r
    using converse_rtranclp_into_rtranclp [of "proc_step os hs indet core s", OF start]
      thread_ends_reach [of os hs 0 indet fuel core s r core s] that by simp
  show "(proc_step os hs indet core s)\<^sup>*\<^sup>* (At_Start, Not_Created) (Returned, t)
      \<longleftrightarrow> (\<exists>c' s' fuel. t = Exited c' s' \<and> emulator_run os hs indet fuel emu argv1 s = Some (Inr (c', s')))"
    (is "?L \<longleftrightarrow> ?R")
  proof
    assume ?L
    from proc_inv_reach [OF this] show ?R by (cases t) (simp_all add: run del: cpu_thread.simps)
  next
    assume ?R
    then obtain c' s' fuel where t: "t = Exited c' s'" "cpu_thread os hs indet fuel core s = Some (Inr (c', s'))"
      using run by auto
    from reach [OF t(2)] have "(proc_step os hs indet core s)\<^sup>*\<^sup>* (At_Start, Not_Created) (At_Join, Exited c' s')"
      by simp
    moreover have "proc_step os hs indet core s (At_Join, Exited c' s') (Returned, Exited c' s')"
      by (rule main_join) simp
    ultimately show ?L unfolding t(1) by (rule rtranclp.rtrancl_into_rtrancl)
  qed
  show "(proc_step os hs indet core s)\<^sup>*\<^sup>* (At_Start, Not_Created) (p, Aborted err)
      \<longleftrightarrow> p = At_Join \<and> (\<exists>fuel. emulator_run os hs indet fuel emu argv1 s = Some (Inl err))"
    using proc_inv_reach [of os hs indet core s "(p, Aborted err)"] reach [of _ "Inl err"]
    by (auto simp: run simp del: cpu_thread.simps)
  show "p = At_Join" if "(proc_step os hs indet core s)\<^sup>*\<^sup>* (At_Start, Not_Created) (p, Running k c h)"
    using proc_inv_reach [OF that] by simp
  assume "(proc_step os hs indet core s)\<^sup>*\<^sup>* (At_Start, Not_Created) (p, t)"
  from proc_progress [OF proc_inv_reach [OF this]]
  show "p = Returned \<or> (\<exists>e. t = Aborted e) \<or> (\<exists>y. proc_step os hs indet core s (p, t) y)" by blast
qed

theorem threads_sequential_witness:
  "\<exists>core. boot_core (cpu_init (tiny_bus boot_mmu)) (tiny_bus boot_mmu) \<lparr>entry = 0x10100\<rparr> 0 [104] = Inr core
    \<and> (\<forall>k c h. \<not> (proc_step test_os (\<lambda>_. plenty) (\<lambda>_ _. 0) core 0)\<^sup>*\<^sup>* (At_Start, Not_Created) (Returned, Running k c h))
    \<and> (\<forall>c'. (proc_step test_os (\<lambda>_. plenty) (\<lambda>_ _. 0) core 0)\<^sup>*\<^sup>* (At_Start, Not_Created) (Returned, Exited c' 3)
        \<longleftrightarrow> (\<exists>fuel. emulator_run test_os (\<lambda>_. plenty) (\<lambda>_ _. 0) fuel
              \<lparr>emu_bus = tiny_bus boot_mmu, emu_elf = Some \<lparr>entry = 0x10100\<rparr>\<rparr> [104] 0 = Some (Inr (c', 3))))"
proof -
  let ?emu = "\<lparr>emu_bus = tiny_bus boot_mmu, emu_elf = Some \<lparr>entry = 0x10100\<rparr>\<rparr>"
  have "round16 (Suc (Suc 0)) < 4080" by (simp add: round16_def)
  then obtain core where
    core: "boot_core (cpu_init (tiny_bus boot_mmu)) (tiny_bus boot_mmu) \<lparr>entry = 0x10100\<rparr> 0 [104] = Inr core"
    using boot_core_ok [of "tiny_bus boot_mmu" "[104]" "\<lparr>entry = 0x10100\<rparr>"] by (auto simp: bus_ready_def)
  then have "emu_elf ?emu = Some \<lparr>entry = 0x10100\<rparr>"
    "boot_core (cpu_init (emu_bus ?emu)) (emu_bus ?emu) \<lparr>entry = 0x10100\<rparr> 0 [104] = Inr core" by simp_all
  note seq = threads_sequential [OF this, of test_os "\<lambda>_. plenty" "\<lambda>_ _. 0" 0]
  have ret: "(proc_step test_os (\<lambda>_. plenty) (\<lambda>_ _. 0) core 0)\<^sup>*\<^sup>* (At_Start, Not_Created) (Returned, t)
      \<longleftrightarrow> (\<exists>c' s' fuel. t = Exited c' s' \<and> emulator_run test_os (\<lambda>_. plenty) (\<lambda>_ _. 0) fuel ?emu [104] 0 = Some (Inr (c', s')))" for t
    using seq [where t = t] by (rule conjunct1)
  show ?thesis
    by (intro exI [of _ core] conjI allI core; simp only: ret) auto
qed

end
