(* ===== verification/Guest.thy ===== *)
theory Guest
  imports Run_Spec
begin

text \<open>
  The sample program for the emulated machine, \<^verbatim>\<open>src/riscv/hello.c\<close>: its function
  \<open>mstrlen\<close>, from the source, and the machine code of that function in the binary
  \<^verbatim>\<open>src/riscv/hello\<close> that the repository holds beside it. The pipeline, run on the
  machine code, computes what the source says.
\<close>

section \<open>The source\<close>

text \<open>
  The loop walks over the bytes from the pointer to the end of the object it points into;
  \<open>c\<close> is the counter.
\<close>

fun mstrlen_loop :: "u8 list \<Rightarrow> u32 \<Rightarrow> u32 res" where
  "mstrlen_loop [] c = Inl Out_Of_Bounds"
| "mstrlen_loop (x # s) c = (if x \<noteq> 0 then mstrlen_loop s (c + 1) else Inr c)"

definition mstrlen :: "u8 list \<Rightarrow> u32 res" where
  "mstrlen s = mstrlen_loop s 0"

lemma mstrlen_loop_terminated:
  "0 \<notin> set t \<Longrightarrow> mstrlen_loop (t @ 0 # rest) c = Inr (c + of_nat (length t))"
  by (induction t arbitrary: c) auto

lemma mstrlen_terminated: "0 \<notin> set t \<Longrightarrow> mstrlen (t @ 0 # rest) = Inr (of_nat (length t))"
  by (simp add: mstrlen_def mstrlen_loop_terminated)

lemma mstrlen_unterminated: "0 \<notin> set t \<Longrightarrow> mstrlen t = Inl Out_Of_Bounds"
proof -
  have "0 \<notin> set t \<Longrightarrow> mstrlen_loop t c = Inl Out_Of_Bounds" for c
    by (induction t arbitrary: c) auto
  then show "0 \<notin> set t \<Longrightarrow> mstrlen t = Inl Out_Of_Bounds" by (simp add: mstrlen_def)
qed

section \<open>The machine code\<close>

text \<open>
  The ten words of the symbol \<open>mstrlen\<close> at address 0x102a0 of the binary. Registers 10 and 1
  are \<open>a0\<close> (the argument and the result) and \<open>ra\<close>; \<open>a4\<close> and \<open>a5\<close>, 14 and 15,
  hold the pointer and the byte.
\<close>

definition mstrlen_code :: "u32 list" where
  "mstrlen_code = [0x00054783, 0x00050713, 0x00000513, 0x00078c63, 0x00150513,
     0x00a707b3, 0x0007c783, 0xfe079ae3, 0x00008067, 0x00008067]"

definition mstrlen_insns :: "insn list" where
  "mstrlen_insns = [Load Lbu 15 10 0, OpImm Addi 14 10 0, OpImm Addi 10 0 0, Branch Beq 15 0 12,
     OpImm Addi 10 10 1, Op Add 15 14 10, Load Lbu 15 15 0, Branch Bne 15 0 (-6),
     Jalr 0 1 0, Jalr 0 1 0]"

lemma mstrlen_code_insns: "mstrlen_code = map encode mstrlen_insns"
  by code_simp

text \<open>A program in memory: its words are there, and each can be fetched.\<close>

definition code_at :: "mmu_t \<Rightarrow> u32 \<Rightarrow> u32 list \<Rightarrow> bool" where
  "code_at m a ws \<longleftrightarrow> (\<forall>k<length ws. mem_word (mmu_byte m) (a + 4 * of_nat k) 4 = ws ! k
     \<and> mmu_rd m (a + 4 * of_nat k) 32 \<noteq> None)"

lemma code_step:
  assumes code: "code_at m a (map encode is)" and k: "k < length is" and i: "is ! k \<noteq> Ecall"
    and pc: "pc = a + 4 * of_nat k"
    and ready: "mem_ready m (action_of (is ! k) pc r)"
    and after: "mmu_after (action_of (is ! k) pc r) m = m"
    and s: "pc' = ipc (emu_step (is ! k) \<lparr>ipc = pc, ireg = r, imem = mmu_byte m\<rparr>)"
      "r' = ireg (emu_step (is ! k) \<lparr>ipc = pc, ireg = r, imem = mmu_byte m\<rparr>)"
  shows "mstep (pc, r, m) (pc', r', m)"
  unfolding s
proof (rule mstep.step [OF _ _ refl ready after [symmetric] refl])
  have "mem_word (mmu_byte m) pc 4 = encode (is ! k)" using code k pc by (auto simp: code_at_def)
  then show "outcome (mem_word (mmu_byte m) pc 4) = Runs (is ! k)" using outcome_insn [OF i] by (simp only:)
  show "mmu_rd m pc 32 \<noteq> None" using code k pc by (auto simp: code_at_def)
qed (simp add: same_code_def)

lemmas insn_simps = isa_next_def isa_put_def width_bytes_def

text \<open>A string in memory, with its terminating zero.\<close>

definition string_at :: "mmu_t \<Rightarrow> u32 \<Rightarrow> u8 list \<Rightarrow> bool" where
  "string_at m a t \<longleftrightarrow> 0 \<notin> set t \<and> unat a + length t < 2 ^ 32
     \<and> (\<forall>k\<le>length t. mmu_rd m (a + of_nat k) 1 \<noteq> None
          \<and> mmu_byte m (unat (a + of_nat k)) = (t @ [0]) ! k)"

lemma string_at_byte:
  assumes "string_at m a t" and "k \<le> length t"
  shows "mem_ready m (Load_At d (a + of_nat k) BYTE)"
    and "mem_word (mmu_byte m) (a + of_nat k) 1 = ucast ((t @ [0]) ! k)"
    and "(ucast ((t @ [0]) ! k) :: u32) = 0 \<longleftrightarrow> k = length t"
proof -
  show "mem_ready m (Load_At d (a + of_nat k) BYTE)"
    and "mem_word (mmu_byte m) (a + of_nat k) 1 = ucast ((t @ [0]) ! k)"
    using assms by (simp_all add: string_at_def width_bytes_def mem_word_1 del: One_nat_def)
  have "(ucast x :: u32) = 0 \<longleftrightarrow> x = 0" for x :: u8
    by (metis ucast_up_u8 unsigned_0)
  then show "(ucast ((t @ [0]) ! k) :: u32) = 0 \<longleftrightarrow> k = length t"
    using assms by (auto simp: string_at_def nth_append dest: nth_mem)
qed

section \<open>Running the machine code\<close>

lemma four_steps: "\<lbrakk> P a b; P b c; P c d; P d e \<rbrakk> \<Longrightarrow> (P ^^ 4) a e"
  by (auto simp: eval_nat_numeral)

text \<open>
  The registers while \<open>mstrlen\<close> runs on the string at \<open>a\<close>: \<open>a5\<close> has the byte at offset
  \<open>k\<close>, \<open>a4\<close> the start, \<open>a0\<close> the count.
\<close>

definition loop_regs :: "(reg \<Rightarrow> u32) \<Rightarrow> u32 \<Rightarrow> u8 list \<Rightarrow> nat \<Rightarrow> reg \<Rightarrow> u32" where
  "loop_regs r a t k = r(15 := ucast ((t @ [0]) ! k), 14 := a, 10 := of_nat k)"

lemma mstrlen_entry:
  assumes code: "code_at m p mstrlen_code" and str: "string_at m a t" and r: "r 0 = 0" "r 10 = a"
  shows "(mstep ^^ 4) (p, r, m) (p + (if t = [] then 36 else 16), loop_regs r a t 0, m)"
proof -
  note step = code_step [OF code [unfolded mstrlen_code_insns], unfolded mstrlen_insns_def]
  note byte = string_at_byte [OF str, of 0]
  let ?x = "ucast ((t @ [0]) ! 0) :: u32"
  have "mstep (p, r, m) (p + 4, r(15 := ?x), m)"
    by (rule step [of 0]) (use byte r in \<open>simp_all add: insn_simps\<close>)
  moreover have "mstep (p + 4, r(15 := ?x), m) (p + 8, r(15 := ?x, 14 := a), m)"
    by (rule step [of 1]) (use r in \<open>simp_all add: insn_simps\<close>)
  moreover have "mstep (p + 8, r(15 := ?x, 14 := a), m) (p + 12, loop_regs r a t 0, m)"
    by (rule step [of 2]) (use r in \<open>simp_all add: insn_simps loop_regs_def\<close>)
  moreover have "mstep (p + 12, loop_regs r a t 0, m)
      (p + (if t = [] then 36 else 16), loop_regs r a t 0, m)"
    by (rule step [of 3]) (use r byte(3) in \<open>simp_all add: insn_simps loop_regs_def\<close>)
  ultimately show ?thesis by (rule four_steps)
qed

lemma mstrlen_round:
  assumes code: "code_at m p mstrlen_code" and str: "string_at m a t" and r: "r 0 = 0"
    and k: "k < length t"
  shows "(mstep ^^ 4) (p + 16, loop_regs r a t k, m)
    (p + (if Suc k = length t then 32 else 16), loop_regs r a t (Suc k), m)"
proof -
  note step = code_step [OF code [unfolded mstrlen_code_insns], unfolded mstrlen_insns_def]
  note byte = string_at_byte [OF str, of "Suc k", unfolded of_nat_Suc add.commute [of 1]]
  let ?r1 = "(loop_regs r a t k)(10 := of_nat k + 1)"
  let ?r2 = "?r1(15 := a + (of_nat k + 1))"
  have "mstep (p + 16, loop_regs r a t k, m) (p + 20, ?r1, m)"
    by (rule step [of 4]) (simp_all add: insn_simps loop_regs_def)
  moreover have "mstep (p + 20, ?r1, m) (p + 24, ?r2, m)"
    by (rule step [of 5]) (simp_all add: insn_simps loop_regs_def)
  moreover have "mstep (p + 24, ?r2, m) (p + 28, loop_regs r a t (Suc k), m)"
    by (rule step [of 6]) (use k byte in \<open>simp_all add: insn_simps loop_regs_def fun_upd_twist add.commute [of 1]\<close>)
  moreover have "mstep (p + 28, loop_regs r a t (Suc k), m)
      (p + (if Suc k = length t then 32 else 16), loop_regs r a t (Suc k), m)"
    by (rule step [of 7]) (use r k byte(3) in \<open>simp_all add: insn_simps loop_regs_def\<close>)
  ultimately show ?thesis by (rule four_steps)
qed

lemma mstrlen_rounds:
  assumes "code_at m p mstrlen_code" and "string_at m a t" and "r 0 = 0" and "n < length t"
  shows "(mstep ^^ (4 * Suc n)) (p + 16, loop_regs r a t (length t - Suc n), m)
    (p + 32, loop_regs r a t (length t), m)"
  using assms(4)
proof (induction n)
  case 0
  then show ?case using mstrlen_round [where r = r, OF assms(1-3), of "length t - 1"] by simp
next
  case (Suc n)
  then have "Suc (length t - Suc (Suc n)) = length t - Suc n" "length t - Suc n \<noteq> length t"
    by simp_all
  then have "(mstep ^^ 4) (p + 16, loop_regs r a t (length t - Suc (Suc n)), m)
      (p + 16, loop_regs r a t (length t - Suc n), m)"
    using mstrlen_round [where r = r, OF assms(1-3), of "length t - Suc (Suc n)"] Suc.prems by simp
  moreover have "(mstep ^^ (4 * Suc n)) (p + 16, loop_regs r a t (length t - Suc n), m)
      (p + 32, loop_regs r a t (length t), m)"
    using Suc by simp
  ultimately have "(mstep ^^ (4 + 4 * Suc n)) (p + 16, loop_regs r a t (length t - Suc (Suc n)), m)
      (p + 32, loop_regs r a t (length t), m)"
    by (rule relpowp_trans)
  then show ?case by (simp only: mult_Suc_right)
qed

lemma mstrlen_return:
  assumes code: "code_at m p mstrlen_code" and k: "k = 8 \<or> k = 9"
  shows "mstep (p + 4 * of_nat k, loop_regs r a t n, m) (r 1, loop_regs r a t n, m)"
  by (rule code_step [OF code [unfolded mstrlen_code_insns], unfolded mstrlen_insns_def, of k])
    (use k in \<open>auto simp: insn_simps loop_regs_def\<close>)

text \<open>The run of the function: five instructions and four for each byte of the string.\<close>

lemma mstrlen_run:
  assumes "code_at m p mstrlen_code" and "string_at m (r 10) t" and "r 0 = 0"
  shows "(mstep ^^ (4 * length t + 5)) (p, r, m)
    (r 1, loop_regs r (r 10) t (length t), m)"
proof -
  note entry = mstrlen_entry [where r = r, OF assms refl]
  obtain k where k: "k = 8 \<or> k = 9" and body: "(mstep ^^ (4 + 4 * length t)) (p, r, m)
      (p + 4 * of_nat k, loop_regs r (r 10) t (length t), m)"
  proof (cases "t = []")
    case True
    then show ?thesis using entry that [of 9] by simp
  next
    case False
    then have "(mstep ^^ (4 * length t)) (p + 16, loop_regs r (r 10) t 0, m)
        (p + 32, loop_regs r (r 10) t (length t), m)"
      using mstrlen_rounds [where r = r, OF assms, of "length t - 1"] by simp
    then show ?thesis
      using relpowp_trans [OF entry] False that [of 8] by simp
  qed
  from body mstrlen_return [OF assms(1) k]
  have "(mstep ^^ Suc (4 + 4 * length t)) (p, r, m) (r 1, loop_regs r (r 10) t (length t), m)"
    by (rule relpowp_Suc_I)
  then show ?thesis by (simp add: add.commute)
qed

text \<open>
  C8. Running compiled code. Let a core follow the machine at the first instruction of the
  binary's \<open>mstrlen\<close>, wherever the code lies, with \<open>a0\<close> pointing to a terminated string
  of any length in readable memory. Then after 20 cycles a byte and 25 more, without an abort or
  a trap, the core has returned to \<open>ra\<close> with the value in \<open>a0\<close> that the source of
  \<open>mstrlen\<close> computes; \<open>a4\<close> has the pointer and \<open>a5\<close> is 0, every other register and the
  memory are as before.
\<close>

theorem guest_mstrlen:
  assumes "simulates c (p, r, m)" and "code_at m p mstrlen_code" and "string_at m (r 10) t"
  shows "\<exists>c'. core_cycles j (20 * length t + 25) c = Inr c' \<and> untrapped j (20 * length t + 25) c
    \<and> mstrlen (t @ [0]) = Inr (REG_R c' 10)
    \<and> simulates c' (r 1, r(10 := of_nat (length t), 14 := r 10, 15 := 0), m)"
proof -
  have "r 0 = 0" using assms(1) by (auto simp: simulates_def REG_R_def)
  then have "(mstep ^^ (4 * length t + 5)) (p, r, m)
      (r 1, r(10 := of_nat (length t), 14 := r 10, 15 := 0), m)"
    using mstrlen_run [where r = r, OF assms(2,3)]
    by (simp add: loop_regs_def nth_append fun_upd_twist)
  from cycle_sim.steps_run [OF assms(1) msteps_psteps [OF this], of j 0]
  obtain c' k where "5 * (4 * length t + 5) \<le> k" "k \<le> 5 * (4 * length t + 5)" "cycles_to j 0 c k c'"
    and c': "simulates c' (r 1, r(10 := of_nat (length t), 14 := r 10, 15 := 0), m)" by blast
  then have "core_cycles j (20 * length t + 25) c = Inr c'" "untrapped j (20 * length t + 25) c"
    by (auto simp: cycles_to_def le_antisym)
  moreover have "mstrlen (t @ [0]) = Inr (REG_R c' 10)"
    using c' assms(3) by (auto simp: simulates_def string_at_def mstrlen_terminated)
  ultimately show ?thesis using c' by blast
qed

text \<open>The code at 0x100, the string \<open>hi\<close> behind it, and a core that calls from 0x200.\<close>

definition guest_mmu :: mmu_t where
  "guest_mmu = \<lparr>mmu_size = 128, mmu_base = 0x100, mmu_curr_vaddr = 0x100,
     mmu_data = concat (map (bytes_of_word 4) mstrlen_code) @ [104, 105] @ replicate 86 0,
     mmu_perm = replicate 128 5, mmu_dirty = replicate 3 False, mmu_state = MMU_OK\<rparr>"

definition guest_core :: core_t where
  "guest_core = (zero_core (tiny_bus guest_mmu))\<lparr>c_pc := 0x100,
     c_registers := (replicate 32 0)[1 := 0x200, 10 := 0x128]\<rparr>"

lemma guest_mmu_wf: "mmu_wf guest_mmu"
  by (simp add: guest_mmu_def mmu_wf_def mstrlen_code_def)

lemma guest_mmu_readable:
  assumes "256 \<le> unat a" and "unat a + n \<le> 384" and "0 < n"
  shows "\<exists>bs. mmu_rd guest_mmu a n = Some bs"
proof -
  have "in_block guest_mmu a n" "allowed guest_mmu a n MPERM_READ"
    using assms by (auto simp: guest_mmu_def in_block_def allowed_def offset_def perm_allows_def)
  then show ?thesis using assms by (simp add: mmu_rd_eq [OF guest_mmu_wf])
qed

lemma guest_code: "code_at guest_mmu 0x100 mstrlen_code"
proof -
  have words: "\<forall>k\<in>set [0..<10]. mem_word (mmu_byte guest_mmu) (0x100 + 4 * of_nat k) 4 = mstrlen_code ! k"
    by code_simp
  have "unat (0x100 + 4 * of_nat k :: u32) = 256 + 4 * k" if "k < 10" for k
    using unat_plus_4 [of "0x100" k] that by simp
  then have "\<exists>bs. mmu_rd guest_mmu (0x100 + 4 * of_nat k) 32 = Some bs" if "k < 10" for k
    using that by (intro guest_mmu_readable) simp_all
  then show ?thesis using words by (simp add: code_at_def mstrlen_code_def)
qed

lemma guest_string: "string_at guest_mmu 0x128 [104, 105]"
proof -
  have bytes: "\<forall>k\<in>set [0..<3]. mmu_byte guest_mmu (unat (0x128 + of_nat k :: u32)) = [104, 105, 0] ! k"
    by code_simp
  have "\<exists>bs. mmu_rd guest_mmu (0x128 + of_nat k) 1 = Some bs" if "k < 3" for k
  proof -
    have "k = 0 \<or> k = 1 \<or> k = 2" using that by linarith
    then show ?thesis by (intro guest_mmu_readable) auto
  qed
  then show ?thesis using bytes by (simp add: string_at_def less_Suc_eq_le [symmetric])
qed

theorem guest_mstrlen_witness:
  "\<exists>c'. core_cycles (\<lambda>_. 0) 65 guest_core = Inr c' \<and> REG_R c' 10 = 2 \<and> c_pc c' = 0x200"
proof -
  let ?r = "REG_R guest_core"
  have "simulates guest_core (0x100, ?r, guest_mmu)"
    using tiny_bus_wf [OF guest_mmu_wf]
    by (simp add: simulates_def guest_core_def zero_core_def core_wf_def coherent_def window_def)
  moreover have "?r 10 = 0x128" "?r 1 = 0x200"
    by (simp_all add: guest_core_def zero_core_def REG_R_def)
  ultimately show ?thesis
    using guest_mstrlen [of guest_core "0x100" ?r guest_mmu "[104, 105]" "\<lambda>_. 0"]
      guest_code guest_string by (auto simp: simulates_def)
qed

end
