(* ===== verification/Dump.thy ===== *)
theory Dump
  imports Core
begin

text \<open>
  The register dump of \<^verbatim>\<open>src/cpu.c\<close>, as the text \<open>core_dumpregs\<close> prints; it is the
  debugging output of the write-back stage (with \<open>CPU_TRACE\<close>). The text has a fixed layout
  and determines the values it shows.
\<close>

section \<open>The conversions of the format strings\<close>

text \<open>Lower-case hexadecimal digits; \<^verbatim>\<open>%08x\<close> prints eight of them, the highest first.\<close>

definition hex_digits :: string where
  "hex_digits = ''0123456789abcdef''"

definition fmt_08x :: "u32 \<Rightarrow> string" where
  "fmt_08x w = map (\<lambda>k. hex_digits ! unat (take_bit 4 (drop_bit (4 * k) w))) [7, 6, 5, 4, 3, 2, 1, 0]"

text \<open>\<^verbatim>\<open>%02zu\<close> of a number below 100, and \<^verbatim>\<open>%d\<close> of one below 10.\<close>

definition fmt_02u :: "nat \<Rightarrow> string" where
  "fmt_02u i = [hex_digits ! (i div 10), hex_digits ! (i mod 10)]"

fun priv_mode_number :: "priv_mode_t \<Rightarrow> nat" where
  "priv_mode_number PMODE_MACHINE = 0"
| "priv_mode_number PMODE_SUPERVISOR = 1"
| "priv_mode_number PMODE_USER = 2"
| "priv_mode_number PMODE_DEBUG = 3"

definition newline :: string where
  "newline = [char_of (10 :: nat)]"

section \<open>The dump\<close>

definition dump_reg :: "nat \<Rightarrow> u32 \<Rightarrow> string" where
  "dump_reg i x = ''X'' @ fmt_02u i @ '': 0x'' @ fmt_08x x @ '' '' @ (if i mod 4 = 3 then newline else [])"

fun dump_regs :: "core_t \<Rightarrow> nat \<Rightarrow> nat \<Rightarrow> string res" where
  "dump_regs core i 0 = Inr []"
| "dump_regs core i (Suc n) =
     rbind (arr_get (c_registers core) i) (\<lambda>x.
     rbind (dump_regs core (Suc i) n) (\<lambda>s. Inr (dump_reg i x @ s)))"

definition core_dumpregs :: "core_t \<Rightarrow> string res" where
  "core_dumpregs core =
     rbind (dump_regs core 0 NUMREGS) (\<lambda>s.
     Inr (''pc=0x'' @ fmt_08x (c_pc core) @ ''  priv_mode='' @
       [hex_digits ! priv_mode_number (c_priv_mode core)] @ newline @ s))"

section \<open>Reading the dump\<close>

text \<open>The number that eight hexadecimal digits stand for.\<close>

fun digit_value :: "char \<Rightarrow> string \<Rightarrow> nat" where
  "digit_value c [] = 0"
| "digit_value c (d # ds) = (if c = d then 0 else Suc (digit_value c ds))"

definition read_hex :: "string \<Rightarrow> u32" where
  "read_hex s = foldl (\<lambda>w c. push_bit 4 w OR of_nat (digit_value c hex_digits)) 0 s"

lemma digit_value_nth: "distinct ds \<Longrightarrow> i < length ds \<Longrightarrow> digit_value (ds ! i) ds = i"
  by (induction ds arbitrary: i) (auto simp: nth_Cons split: nat.splits)

lemma digit_value_hex: "i < 16 \<Longrightarrow> digit_value (hex_digits ! i) hex_digits = i"
  by (rule digit_value_nth) (simp_all add: hex_digits_def)

lemma hex_digit_read: "of_nat (digit_value (hex_digits ! unat (take_bit 4 w)) hex_digits) = take_bit 4 (w :: u32)"
proof -
  have "unat (take_bit 4 w) < 16"
    using take_bit_nat_less_exp [of 4 "unat w"] by (simp add: unsigned_take_bit_eq)
  then show ?thesis by (simp add: digit_value_hex)
qed

lemma next_digit:
  "push_bit 4 (drop_bit (n + 4) w) OR take_bit 4 (drop_bit n w) = drop_bit n (w :: u32)"
proof (rule bit_word_eqI)
  fix k assume "k < LENGTH(32)"
  moreover have "n + 4 + (k - 4) = n + k" if "4 \<le> k" using that by simp
  ultimately show "bit (push_bit 4 (drop_bit (n + 4) w) OR take_bit 4 (drop_bit n w)) k
      = bit (drop_bit n w) k"
    by (auto simp: bit_simps)
qed

lemma first_digit: "take_bit 4 (drop_bit 28 w) = drop_bit 28 (w :: u32)"
  by (rule bit_word_eqI) (auto simp: bit_simps dest: bit_imp_le_length)

lemma read_fmt_08x [simp]: "read_hex (fmt_08x w) = w"
proof -
  note next_digit [of 24 w, simplified] next_digit [of 20 w, simplified] next_digit [of 16 w, simplified]
    next_digit [of 12 w, simplified] next_digit [of 8 w, simplified] next_digit [of 4 w, simplified]
    next_digit [of 0 w, simplified]
  note digits = first_digit this
  have "read_hex (fmt_08x w) = foldl (\<lambda>v k. push_bit 4 v OR take_bit 4 (drop_bit (4 * k) w)) 0
      [7, 6, 5, 4, 3, 2, 1, 0]"
    by (simp add: read_hex_def fmt_08x_def foldl_map hex_digit_read)
  also have "\<dots> = w" by (simp add: digits del: push_bit_or push_bit_push_bit)
  finally show ?thesis .
qed

lemma length_dump_reg: "length (dump_reg i x) = (if i mod 4 = 3 then 17 else 16)"
  by (simp add: dump_reg_def fmt_02u_def fmt_08x_def newline_def)

lemma dump_reg_value [simp]: "read_hex (take 8 (drop 7 (dump_reg i x))) = x"
proof -
  have "take 8 (drop 7 (dump_reg i x)) = fmt_08x x"
    by (simp add: dump_reg_def fmt_02u_def fmt_08x_def)
  then show ?thesis by simp
qed

section \<open>The dump determines the registers\<close>

definition dump_lines :: "u32 list \<Rightarrow> nat \<Rightarrow> nat \<Rightarrow> string" where
  "dump_lines rs i n = concat (map (\<lambda>k. dump_reg k (rs ! k)) [i..<i + n])"

lemma dump_regs_lines:
  "i + n \<le> length (c_registers c) \<Longrightarrow> dump_regs c i n = Inr (dump_lines (c_registers c) i n)"
proof (induction n arbitrary: i)
  case (Suc n)
  have "[i..<i + Suc n] = i # [Suc i..<Suc i + n]" by (simp add: upt_rec)
  then show ?case using Suc by (simp add: dump_lines_def)
qed (simp add: dump_lines_def)

lemma dump_lines_split:
  "i < n \<Longrightarrow> dump_lines rs 0 n = dump_lines rs 0 i @ dump_reg i (rs ! i) @ dump_lines rs (Suc i) (n - Suc i)"
proof -
  assume "i < n"
  then have "[0..<n] = [0..<i] @ i # [Suc i..<n]"
    using upt_add_eq_append [of 0 i "n - i"] by (simp add: upt_rec)
  then show ?thesis using \<open>i < n\<close> by (simp add: dump_lines_def)
qed

lemma length_dump_lines: "length (dump_lines rs 0 i) = 16 * i + i div 4"
proof (induction i)
  case (Suc i)
  have "dump_lines rs 0 (Suc i) = dump_lines rs 0 i @ dump_reg i (rs ! i)"
    by (simp add: dump_lines_def)
  moreover have "Suc i div 4 = (if i mod 4 = 3 then Suc (i div 4) else i div 4)" by presburger
  ultimately show ?case using Suc by (simp add: length_dump_reg)
qed (simp add: dump_lines_def)

text \<open>Where the digits of register \<open>i\<close> stand in the dump: 27 characters of the first line, 16
  for each register and a newline after every four.\<close>

definition dump_column :: "nat \<Rightarrow> nat" where
  "dump_column i = 27 + (16 * i + i div 4) + 7"

lemma dump_column_reg:
  assumes "length h = 27" and "i < NUMREGS"
  shows "take 8 (drop (dump_column i) (h @ dump_lines rs 0 NUMREGS)) = take 8 (drop 7 (dump_reg i (rs ! i)))"
  unfolding dump_lines_split [OF assms(2)] using assms(1)
  by (simp add: dump_column_def length_dump_lines length_dump_reg)

text \<open>
  The register dump determines what it shows: for a core with its 32 registers the text is
  complete, its first line has the program counter, and the eight hexadecimal digits at the
  column of register \<open>i\<close> are the value of that register.
\<close>

lemma dump_read_back:
  assumes "length (c_registers c) = NUMREGS" and "i < NUMREGS"
  shows "\<exists>s. core_dumpregs c = Inr s \<and> length s = 547 \<and> read_hex (take 8 (drop 5 s)) = c_pc c
    \<and> read_hex (take 8 (drop (dump_column i) s)) = c_registers c ! i"
proof -
  let ?l = "dump_lines (c_registers c) 0 NUMREGS"
  let ?h = "''pc=0x'' @ fmt_08x (c_pc c) @ ''  priv_mode='' @
    [hex_digits ! priv_mode_number (c_priv_mode c)] @ newline"
  have len: "length (fmt_08x w) = 8" for w by (simp add: fmt_08x_def)
  have "core_dumpregs c = Inr (?h @ ?l)"
    using assms(1) by (simp add: core_dumpregs_def dump_regs_lines)
  moreover have "length (?h @ ?l) = 547"
    by (simp add: length_dump_lines len newline_def NUMREGS_def)
  moreover have "take 8 (drop 5 (?h @ ?l)) = fmt_08x (c_pc c)" by (simp add: len)
  moreover have "length ?h = 27" by (simp add: len newline_def)
  note dump_column_reg [OF this assms(2), of "c_registers c"]
  ultimately show ?thesis by (metis dump_reg_value read_fmt_08x)
qed

end
