(* ===== verification/Spec2Isabelle.thy ===== *)
theory Spec2Isabelle
  imports Boot Threads Guest Protection Dump
begin

text \<open>
  A verification development for criscv, an emulator of a 32-bit RISC-V machine in C
  (\<^verbatim>\<open>src/*.c\<close> of the repository, where all the files named below are).

  \<^bold>\<open>The program.\<close> \<^verbatim>\<open>main.c\<close> sets up the machine (\<^verbatim>\<open>emulator.c\<close>): a block
  of guest memory with a permission for every byte (\<^verbatim>\<open>mmu.c\<close>), a bus with a list of
  devices (\<^verbatim>\<open>bus.c\<close>): RAM (\<^verbatim>\<open>memory.c\<close>) and a device for the control and status
  registers (\<^verbatim>\<open>csr.c\<close>). It loads an ELF file into the memory (\<^verbatim>\<open>elf32.c\<close>), puts a
  stack and the arguments behind it, and starts a thread that runs a core
  (\<^verbatim>\<open>cpu.c\<close>): five stages, one a cycle, over the bus; an environment call traps to the
  emulator, which makes a system call on the host (\<^verbatim>\<open>syscall.c\<close>).

  \<^bold>\<open>Theories.\<close> The model of each part is executable and has the names of the source.
  \<^item> \<open>Prelude\<close>: words, the result type \<open>cerr + 'a\<close> with \<open>rbind\<close>, arrays, loops over
    arrays, little-endian bytes, sign extension.
  \<^item> \<open>Store_Interface\<close>: the locales \<open>byte_store\<close> (what a store of bytes promises a
    client) and its uses; interpreted by the memory (\<open>mmu_store\<close>) and the bus.
  \<^item> \<open>Mmu\<close>, \<open>Mmu_Spec\<close>: \<^verbatim>\<open>mmu.c\<close>. The record \<open>mmu_t\<close> is the C structure, its
    arrays are lists. The specification is a map from addresses to a byte and a permission
    (\<open>mmu_abs\<close>); reads and writes refine it; \<open>mmu_wf\<close> is the invariant of the calls
    (\<open>mmu_reachable\<close> says which; \<open>add_memory_breaks\<close> shows the ones it does not survive);
    allocated blocks are disjoint.
  \<^item> \<open>Mmio\<close>, \<open>Csr\<close>: \<^verbatim>\<open>config.h\<close>, \<^verbatim>\<open>mmio.h\<close>, \<^verbatim>\<open>memory.c\<close>, \<^verbatim>\<open>csr.c\<close>.
    The six register operations are instances of one locale.
  \<^item> \<open>Bus\<close>, \<open>Bus_Spec\<close>: \<^verbatim>\<open>bus.c\<close>. The locale \<open>mmio_driver\<close> states what a device
    table promises; RAM, the CSR device and the dispatch over them are its instances. The
    invariant \<open>bus_wf\<close> says that the RAM device at the head of the list covers exactly the
    memory; under it accesses are total, stores and loads round-trip, and the error paths
    (denied accesses, short writes, unterminated strings) are computed.
  \<^item> \<open>Core\<close>, \<open>Execute\<close>: \<^verbatim>\<open>cpu.h\<close>, \<^verbatim>\<open>cpu.c\<close>, one definition per function and per
    arm of the switch of \<open>execute\<close>.
  \<^item> \<open>Isa\<close>: the reference, RV32I instructions with their encoding and their effect, written
    from the RISC-V manual and not from the source.
  \<^item> \<open>Decode_Spec\<close>, \<open>Words\<close>, \<open>Execute_Spec\<close>, \<open>Pipeline\<close>: decoding inverts
    encoding; \<open>outcome\<close> says what each of the \<open>2 ^ 32\<close> words is to the emulator; the
    execute stage asks for the instruction's action; five cycles are one step of the machine
    without a pipeline (\<open>emu_step\<close>), which is the manual's step wherever \<open>agrees\<close> holds.
    The prefetch buffer is covered by the coherence invariant of \<open>Pipeline\<close>.
  \<^item> \<open>Cycle_Spec\<close>: what holds of every cycle, trap entry and exit. \<open>Word_Spec\<close>: decode
    and execute do to every word what \<open>outcome\<close> says, and which words get executed at
    all. \<open>Simulation\<close>: the locale of a machine whose steps another one
    takes in bounded time, with \<open>cycle_sim\<close> and \<open>thread_sim\<close> as its interpretations.
    \<open>Run_Spec\<close>: runs of \<open>n\<close> instructions, with granted or refused accesses, as
    \<open>5 n\<close> cycles.
  \<^item> \<open>Protection\<close>: loads and stores the memory refuses, which the core does not notice, and
    those outside of every device, which trap. \<open>Guest\<close>: \<^verbatim>\<open>riscv/hello.c\<close>, the function
    \<open>mstrlen\<close> of the sample program and its machine code from the binary beside it: the
    pipeline runs the code to the value of the source. \<open>Dump\<close>: the text that
    \<open>core_dumpregs\<close> of \<^verbatim>\<open>cpu.c\<close> prints, and how it is read back.
  \<^item> \<open>Elf\<close>: \<^verbatim>\<open>elf32.c\<close>. The image in memory is the fold of the file's segments over
    the abstract memory.
  \<^item> \<open>Syscall\<close>, \<open>Syscall_Spec\<close>: \<^verbatim>\<open>syscall.c\<close> over a host given as the record
    \<open>os_t\<close>. \<open>Emulator\<close>, \<open>Emulator_Spec\<close>: \<^verbatim>\<open>emulator.c\<close> and \<^verbatim>\<open>main.c\<close>, the
    trap handler, the thread, and the image of the stack a program starts with.
  \<^item> \<open>User_Run\<close>: programs that make system calls. \<open>abi_call\<close> specifies a call by what it
    does to memory and host; the thread simulates the machine whose steps are instructions
    and calls (\<open>ustep\<close>): it ends with the call, the illegal word or the access
    fault that ends the program, aborts at a reserved word or a \<open>write\<close> that is too long, and
    runs for ever when the machine does. Its state has a flag for the error state that a refused
    access leaves the RAM device in, since \<open>read\<close> and \<open>fstat\<close> must not meet it.
    A refused load of a byte is no step: its value is an uninitialised local. \<open>Boot\<close>: on a machine that
    is set up and a file that \<open>elf_ok\<close> accepts, loading succeeds and \<open>emulator_run\<close> (and
    \<open>main\<close>, when \<open>emulator_init\<close> gives that machine) is the thread of a core that follows that
    machine at the entry point, over the image of the file; its witness runs a program to its
    end. \<open>Threads\<close>:
    the main thread and the thread of the core as a transition system: the main thread returns
    only when the other one has exited, with the results of \<open>emulator_run\<close>.

  \<^bold>\<open>Conventions.\<close> An \<open>assert\<close> that fails, an access outside of an object, a null pointer
  that is followed and a lock that is never released end a run with an error value; they
  are never undefined in the model. Parameters stand for what is not under
  \<^verbatim>\<open>src/\<close>: the heap (\<open>alloc_env\<close>: which allocations succeed, what fresh bytes hold),
  the file system, the host's system calls, \<open>video_init\<close>, and the value of uninitialised
  locals (\<open>indet\<close>). The host has 64-bit \<open>size_t\<close>, little-endian byte order and four-byte
  enums.

  \<^bold>\<open>Termination and fuel.\<close> Every loop of the source but one is a total function: the loops over
  arrays are structural, \<open>bus_read_string\<close> ends because it leaves its buffer if nothing else
  ends it. The thread of a core may run for ever; \<open>cpu_thread\<close> has fuel, one unit an
  iteration, and its theorems say how much is enough: five units an instruction, six a
  system call (three to meet the \<open>ECALL\<close>, three to serve it and to return), four for the
  call that ends the program.

  \<^bold>\<open>Not modelled.\<close> The messages and traces on stderr other than the register dump, and the
  speed report of the thread (output only, and the report depends on the clock); the video device,
  whose source is not in the repository (nothing is assumed about \<open>video_init\<close>); a failing
  \<open>malloc\<close> of \<open>cpu_init\<close>, a failing \<open>pthread_create\<close> and missing arguments of
  \<open>main\<close>; \<open>main\<close> of the sample program, which calls
  \<open>printf\<close> of a C library that is not in the repository; structures and constants of the headers that no
  code uses (the section and symbol tables of ELF, CSR instructions, calls that are not served).
\<close>

end
